(* ===== verification/Ordering.thy ===== *)
theory Ordering
  imports Main "HOL-Library.Multiset" "HOL-Library.Option_ord" "HOL-Library.Product_Lexorder"
begin

text \<open>
  What \<open>std::cmp\<close> gives the program: \<open>Ordering\<close>, comparison of values of an ordered type, the
  stable \<open>Vec::sort\<close> by a comparison function.  \<open>keyed_cmp\<close> is the contract a comparison function
  has to meet for \<open>sort\<close> to be defined and stable: it compares the values of a key in a linear
  order.  Under it \<open>sort_by\<close> is the library's \<open>sort_key\<close>, and any list that is sorted,
  has the same elements and keeps the order of equal ones is the result: the model does not
  depend on the algorithm.
\<close>

datatype ordering = Less | Equal | Greater

definition compare :: "'k::linorder \<Rightarrow> 'k \<Rightarrow> ordering" where
  "compare x y = (if x < y then Less else if x = y then Equal else Greater)"

primrec reverse_ordering :: "ordering \<Rightarrow> ordering" where
  "reverse_ordering Less = Greater"
| "reverse_ordering Equal = Equal"
| "reverse_ordering Greater = Less"

lemma compare_simps [simp]:
  "compare x y = Less \<longleftrightarrow> x < y" "compare x y = Equal \<longleftrightarrow> x = y" "compare x y = Greater \<longleftrightarrow> y < x"
  by (auto simp: compare_def)

lemma reverse_compare: "reverse_ordering (compare x y) = compare y x"
  by (auto simp: compare_def)

text \<open>Comparing pairs: the first components decide unless they are equal.\<close>

lemma compare_Pair:
  "compare (a, b) (c, d) = (if compare a c \<noteq> Equal then compare a c else compare b d)"
  by (auto simp: compare_def)

lemma first_difference_cong:
  assumes "c = c'" and "c' = Equal \<Longrightarrow> d = d'"
  shows "(if c \<noteq> Equal then c else d) = (if c' \<noteq> Equal then c' else d')"
  using assms by simp

text \<open>\<open>slice::sort\<close> is a stable sort; the insertion sort below is one.\<close>

fun insert_by :: "('a \<Rightarrow> 'a \<Rightarrow> ordering) \<Rightarrow> 'a \<Rightarrow> 'a list \<Rightarrow> 'a list" where
  "insert_by cmp x [] = [x]"
| "insert_by cmp x (y # ys) = (if cmp x y = Greater then y # insert_by cmp x ys else x # y # ys)"

definition sort_by :: "('a \<Rightarrow> 'a \<Rightarrow> ordering) \<Rightarrow> 'a list \<Rightarrow> 'a list" where
  "sort_by cmp xs = foldr (insert_by cmp) xs []"

lemma sort_by_simps [simp]:
  "sort_by cmp [] = []" "sort_by cmp (x # xs) = insert_by cmp x (sort_by cmp xs)"
  by (simp_all add: sort_by_def)

locale keyed_cmp =
  fixes cmp :: "'a \<Rightarrow> 'a \<Rightarrow> ordering" and key :: "'a \<Rightarrow> 'k::linorder"
  assumes cmp_key: "cmp a b = compare (key a) (key b)"
begin

lemma cmp_refl: "cmp a a = Equal"
  by (simp add: cmp_key)

lemma cmp_reverse: "cmp b a = reverse_ordering (cmp a b)"
  by (simp add: cmp_key reverse_compare)

lemma cmp_trans: "cmp a b \<noteq> Greater \<Longrightarrow> cmp b c \<noteq> Greater \<Longrightarrow> cmp a c \<noteq> Greater"
  by (auto simp: cmp_key)

lemma cmp_trans_less: "cmp a b = Less \<Longrightarrow> cmp b c \<noteq> Greater \<Longrightarrow> cmp a c = Less"
  by (auto simp: cmp_key)

lemma insert_by_key: "insert_by cmp x ys = insort_key key x ys"
  by (induction ys) (auto simp: cmp_key)

lemma sort_by_key: "sort_by cmp xs = sort_key key xs"
  by (induction xs) (simp_all add: insert_by_key)

lemma mset_sort_by [simp]: "mset (sort_by cmp xs) = mset xs"
  by (simp add: sort_by_key)

lemma set_sort_by [simp]: "set (sort_by cmp xs) = set xs"
  by (simp add: sort_by_key)

lemma sorted_sort_by: "sorted_wrt (\<lambda>a b. cmp a b \<noteq> Greater) (sort_by cmp xs)"
proof -
  have "sorted_wrt (\<lambda>a b. key a \<le> key b) (sort_by cmp xs)"
    using sorted_sort_key [of key xs] by (simp add: sort_by_key sorted_wrt_map)
  then show ?thesis by (rule sorted_wrt_mono_rel [rotated]) (auto simp: cmp_key)
qed

lemma sort_by_stable: "filter (\<lambda>y. cmp x y = Equal) (sort_by cmp xs) = filter (\<lambda>y. cmp x y = Equal) xs"
  using sort_key_stable [of "\<lambda>y. key y" "key x" xs] by (simp add: sort_by_key cmp_key eq_commute [of "key x"])

lemma sort_by_unique:
  assumes "mset ys = mset xs" and "sorted_wrt (\<lambda>a b. cmp a b \<noteq> Greater) ys"
    and "\<And>x. filter (\<lambda>y. cmp x y = Equal) ys = filter (\<lambda>y. cmp x y = Equal) xs"
  shows "ys = sort_by cmp xs"
  unfolding sort_by_key
proof (rule properties_for_sort_key [symmetric])
  show "mset ys = mset xs" by (rule assms(1))
  show "filter (\<lambda>y. key k = key y) ys = filter (\<lambda>y. key k = key y) xs" for k
    using assms(3) [of k] by (simp add: cmp_key)
  have "sorted_wrt (\<lambda>a b. key a \<le> key b) ys"
    using assms(2) by (rule sorted_wrt_mono_rel [rotated]) (auto simp: cmp_key)
  then show "sorted (map key ys)" by (simp add: sorted_wrt_map)
qed

end

interpretation nat_cmp: keyed_cmp compare "\<lambda>n. n"
  by unfold_locales simp

end
