(* ===== verification/Prelude.thy ===== *)
theory Prelude
  imports Main "HOL-Library.Word"
begin

text \<open>
  What every component shares: the result of a Rust computation that may return, fail with an
  error value or panic; checked indexing and slicing of byte vectors; big-endian integers;
  decimal printing for the error texts.

  \<^item> \<open>Ok\<close> and \<open>Err\<close> are the constructors of Rust's \<open>Result\<close>; \<open>Panic\<close> is a panic of the
    running task (an out-of-range index or slice, \<open>unwrap\<close> on nothing, \<open>expect\<close>, \<open>panic!\<close>,
    a checked arithmetic overflow).  A function of the parsers and printers that cannot return
    \<open>Err\<close> in the source (\<open>From\<close>) has the error type of those that can (\<open>TryFrom\<close>), so the two
    compose.
  \<^item> \<open>usize\<close> is \<open>nat\<close>: every \<open>usize\<close> of the program is bounded by the size of a buffer
    (at most \<open>isize::MAX\<close>) plus a small constant, so it cannot wrap upwards; a subtraction that
    could go below zero is written out where it occurs.
  \<^item> \<open>u8\<close>, \<open>u16\<close>, \<open>u32\<close>, \<open>u128\<close> are words of that width.
\<close>

unbundle bit_operations_syntax

type_synonym u8 = "8 word"
type_synonym u16 = "16 word"
type_synonym u32 = "32 word"
type_synonym u64 = "64 word"
type_synonym u128 = "128 word"
type_synonym bytes = "u8 list"

section \<open>Outcomes\<close>

datatype panic =
    IndexOutOfBounds
  | SliceOutOfBounds
  | UnwrapNone
  | UnwrapErr
  | ArithmeticOverflow
  | ExpectFailed string
  | ExplicitPanic string

datatype ('e, 'a) outcome = Ok 'a | Err 'e | Panic panic

primrec bind_outcome :: "('e, 'a) outcome \<Rightarrow> ('a \<Rightarrow> ('e, 'b) outcome) \<Rightarrow> ('e, 'b) outcome" where
  "bind_outcome (Ok x) f = f x"
| "bind_outcome (Err e) f = Err e"
| "bind_outcome (Panic p) f = Panic p"

primrec map_err :: "('e \<Rightarrow> 'f) \<Rightarrow> ('e, 'a) outcome \<Rightarrow> ('f, 'a) outcome" where
  "map_err g (Ok x) = Ok x"
| "map_err g (Err e) = Err (g e)"
| "map_err g (Panic p) = Panic p"

definition ok_or :: "'e \<Rightarrow> 'a option \<Rightarrow> ('e, 'a) outcome" where
  "ok_or e x = (case x of None \<Rightarrow> Err e | Some v \<Rightarrow> Ok v)"

definition unwrap :: "'a option \<Rightarrow> ('e, 'a) outcome" where
  "unwrap x = (case x of None \<Rightarrow> Panic UnwrapNone | Some v \<Rightarrow> Ok v)"

primrec unwrap_result :: "('f, 'a) outcome \<Rightarrow> ('e, 'a) outcome" where
  "unwrap_result (Ok x) = Ok x"
| "unwrap_result (Err e) = Panic UnwrapErr"
| "unwrap_result (Panic p) = Panic p"

definition expect :: "string \<Rightarrow> 'a option \<Rightarrow> ('e, 'a) outcome" where
  "expect msg x = (case x of None \<Rightarrow> Panic (ExpectFailed msg) | Some v \<Rightarrow> Ok v)"

fun panics :: "('e, 'a) outcome \<Rightarrow> bool" where
  "panics (Panic p) = True"
| "panics _ = False"

named_theorems outcome_simps "evaluation and inversion of outcomes"

lemma bind_outcome_cong [fundef_cong]:
  assumes "m = m'" and "\<And>x. m' = Ok x \<Longrightarrow> f x = g x"
  shows "bind_outcome m f = bind_outcome m' g"
  using assms by (cases m') auto

lemma bind_eq_Ok [outcome_simps]:
  "bind_outcome m f = Ok y \<longleftrightarrow> (\<exists>x. m = Ok x \<and> f x = Ok y)"
  by (cases m) auto

lemma bind_eq_Err [outcome_simps]:
  "bind_outcome m f = Err e \<longleftrightarrow> m = Err e \<or> (\<exists>x. m = Ok x \<and> f x = Err e)"
  by (cases m) auto

lemma bind_eq_Panic [outcome_simps]:
  "bind_outcome m f = Panic p \<longleftrightarrow> m = Panic p \<or> (\<exists>x. m = Ok x \<and> f x = Panic p)"
  by (cases m) auto

lemma panics_bind [outcome_simps]:
  "panics (bind_outcome m f) \<longleftrightarrow> panics m \<or> (\<exists>x. m = Ok x \<and> panics (f x))"
  by (cases m) auto

lemma panics_iff: "panics m \<longleftrightarrow> (\<exists>p. m = Panic p)"
  by (cases m) auto

lemma map_err_eq_Ok [outcome_simps]: "map_err g m = Ok x \<longleftrightarrow> m = Ok x"
  by (cases m) auto

lemma panics_map_err [simp]: "panics (map_err g m) = panics m"
  by (cases m) auto

lemma ok_or_eq_Ok [outcome_simps]: "ok_or e x = Ok v \<longleftrightarrow> x = Some v"
  by (auto simp: ok_or_def split: option.splits)

lemma ok_or_simps [simp]: "ok_or e None = Err e" "ok_or e (Some v) = Ok v"
  by (simp_all add: ok_or_def)

lemma panics_ok_or [simp]: "\<not> panics (ok_or e x)"
  by (auto simp: ok_or_def split: option.splits)

lemma unwrap_simps [simp]: "unwrap None = Panic UnwrapNone" "unwrap (Some v) = Ok v"
  by (simp_all add: unwrap_def)

lemma unwrap_eq_Ok [outcome_simps]: "unwrap x = Ok v \<longleftrightarrow> x = Some v"
  by (auto simp: unwrap_def split: option.splits)

lemma panics_unwrap [outcome_simps]: "panics (unwrap x) \<longleftrightarrow> x = None"
  by (auto simp: unwrap_def split: option.splits)

lemma unwrap_result_eq_Ok [outcome_simps]: "unwrap_result m = Ok v \<longleftrightarrow> m = Ok v"
  by (cases m) auto

lemma expect_simps [simp]: "expect s None = Panic (ExpectFailed s)" "expect s (Some v) = Ok v"
  by (simp_all add: expect_def)

lemma expect_eq_Ok [outcome_simps]: "expect s x = Ok v \<longleftrightarrow> x = Some v"
  by (auto simp: expect_def split: option.splits)

lemma panics_expect [outcome_simps]: "panics (expect s x) \<longleftrightarrow> x = None"
  by (auto simp: expect_def split: option.splits)

section \<open>Vectors\<close>

text \<open>\<open>v[i]\<close>, \<open>v[i..j]\<close>, \<open>v[i..]\<close> and \<open>Vec::resize\<close>, with their panics.\<close>

definition index :: "'a list \<Rightarrow> nat \<Rightarrow> ('e, 'a) outcome" where
  "index xs i = (if i < length xs then Ok (xs ! i) else Panic IndexOutOfBounds)"

definition slice :: "'a list \<Rightarrow> nat \<Rightarrow> nat \<Rightarrow> ('e, 'a list) outcome" where
  "slice xs i j =
     (if i \<le> j \<and> j \<le> length xs then Ok (take (j - i) (drop i xs)) else Panic SliceOutOfBounds)"

definition slice_from :: "'a list \<Rightarrow> nat \<Rightarrow> ('e, 'a list) outcome" where
  "slice_from xs i = slice xs i (length xs)"

definition resize :: "nat \<Rightarrow> 'a \<Rightarrow> 'a list \<Rightarrow> 'a list" where
  "resize n x xs = take n xs @ replicate (n - length xs) x"

lemma index_eq_Ok [outcome_simps]: "index xs i = Ok x \<longleftrightarrow> i < length xs \<and> x = xs ! i"
  by (auto simp: index_def)

lemma index_Ok: "i < length xs \<Longrightarrow> index xs i = Ok (xs ! i)"
  by (simp add: index_def)

lemma panics_index [outcome_simps]: "panics (index xs i) \<longleftrightarrow> length xs \<le> i"
  by (auto simp: index_def)

lemma slice_eq_Ok [outcome_simps]:
  "slice xs i j = Ok ys \<longleftrightarrow> i \<le> j \<and> j \<le> length xs \<and> ys = take (j - i) (drop i xs)"
  by (auto simp: slice_def)

lemma panics_slice [outcome_simps]: "panics (slice xs i j) \<longleftrightarrow> \<not> (i \<le> j \<and> j \<le> length xs)"
  by (auto simp: slice_def)

lemma slice_from_Ok: "i \<le> length xs \<Longrightarrow> slice_from xs i = Ok (drop i xs)"
  by (simp add: slice_from_def slice_def)

lemma slice_from_eq_Ok [outcome_simps]:
  "slice_from xs i = Ok ys \<longleftrightarrow> i \<le> length xs \<and> ys = drop i xs"
  by (auto simp: slice_from_def slice_def)

lemma index_not_Err [simp]: "index xs i \<noteq> Err e"
  by (simp add: index_def)

lemma slice_not_Err [simp]: "slice xs i j \<noteq> Err e" "slice_from xs i \<noteq> Err e"
  by (simp_all add: slice_def slice_from_def)

lemma index_append_mid: "n = length xs \<Longrightarrow> index (xs @ y # ys) n = Ok y"
  by (simp add: index_def)

lemma slice_append_mid:
  "i = length xs \<Longrightarrow> j = length xs + length ys \<Longrightarrow> slice (xs @ ys @ zs) i j = Ok ys"
  by (simp add: slice_def)

lemma length_resize [simp]: "length (resize n x xs) = n"
  by (simp add: resize_def)

lemma resize_same [simp]: "length xs = n \<Longrightarrow> resize n x xs = xs"
  by (simp add: resize_def)

section \<open>Big-endian integers\<close>

text \<open>\<open>be_nat\<close> reads a byte string as a number, \<open>nat_be k\<close> writes the low \<open>k\<close> bytes of one;
  \<open>from_be\<close>/\<open>to_be\<close> are \<open>from_be_bytes\<close>/\<open>to_be_bytes\<close> at any width.\<close>

definition be_nat :: "bytes \<Rightarrow> nat" where
  "be_nat bs = foldl (\<lambda>acc b. acc * 256 + unat b) 0 bs"

primrec nat_be :: "nat \<Rightarrow> nat \<Rightarrow> bytes" where
  "nat_be 0 x = []"
| "nat_be (Suc k) x = nat_be k (x div 256) @ [of_nat x]"

lemma nat_be_numeral:
  "nat_be (numeral k) x = nat_be (pred_numeral k) (x div 256) @ [of_nat x]"
  by (simp only: numeral_eq_Suc [of k] nat_be.simps)

definition from_be :: "bytes \<Rightarrow> 'a::len word" where
  "from_be bs = of_nat (be_nat bs)"

definition to_be :: "nat \<Rightarrow> 'a::len word \<Rightarrow> bytes" where
  "to_be k w = nat_be k (unat w)"

definition read_u16 :: "bytes \<Rightarrow> nat \<Rightarrow> ('e, u16) outcome" where
  "read_u16 xs i = bind_outcome (slice xs i (i + 2)) (\<lambda>bs. Ok (from_be bs))"

definition read_u32 :: "bytes \<Rightarrow> nat \<Rightarrow> ('e, u32) outcome" where
  "read_u32 xs i = bind_outcome (slice xs i (i + 4)) (\<lambda>bs. Ok (from_be bs))"

lemma be_nat_Nil [simp]: "be_nat [] = 0"
  by (simp add: be_nat_def)

lemma be_nat_snoc [simp]: "be_nat (bs @ [b]) = be_nat bs * 256 + unat b"
  by (simp add: be_nat_def)

lemma length_nat_be [simp]: "length (nat_be k x) = k"
  by (induction k arbitrary: x) auto

lemma length_to_be [simp]: "length (to_be k w) = k"
  by (simp add: to_be_def)

lemma unat_of_nat_u8: "unat (of_nat n :: u8) = n mod 256"
  by (simp add: unat_of_nat)

lemma u8_bound: "unat (b :: u8) < 256"
  using unsigned_less [of b] by simp

lemma be_nat_nat_be: "be_nat (nat_be k x) = x mod 256 ^ k"
proof (induction k arbitrary: x)
  case 0
  then show ?case by simp
next
  case (Suc k)
  have "x mod (256 * 256 ^ k) = 256 * (x div 256 mod 256 ^ k) + x mod 256"
    by (rule mod_mult2_eq)
  with Suc show ?case by (simp add: unat_of_nat_u8 mult.commute)
qed

lemma nat_be_be_nat: "length bs = k \<Longrightarrow> nat_be k (be_nat bs) = bs"
proof (induction k arbitrary: bs)
  case 0
  then show ?case by simp
next
  case (Suc k)
  then obtain as b where bs: "bs = as @ [b]" and len: "length as = k"
    by (metis length_Suc_conv_rev)
  have "(be_nat as * 256 + unat b) div 256 = be_nat as"
    using u8_bound [of b] by simp
  moreover have "(of_nat (be_nat as * 256 + unat b) :: u8) = b"
    using u8_bound [of b] by (simp only: word_unat_eq_iff unat_of_nat_u8) simp
  ultimately show ?case using Suc.IH [OF len] by (simp add: bs)
qed

lemma be_nat_bound: "be_nat bs < 256 ^ length bs"
proof (induction bs rule: rev_induct)
  case Nil
  then show ?case by simp
next
  case (snoc b bs)
  then show ?case using u8_bound [of b] by simp
qed

lemma from_be_to_be: "LENGTH('a::len) = 8 * k \<Longrightarrow> from_be (to_be k (w :: 'a word)) = w"
proof -
  assume "LENGTH('a) = 8 * k"
  then have "unat w < 256 ^ k"
    using unsigned_less [of w, where ?'a = nat] by (simp add: power_mult)
  then show ?thesis
    by (simp add: from_be_def to_be_def be_nat_nat_be)
qed

lemma to_be_from_be:
  assumes "length bs = k" and "LENGTH('a::len) = 8 * k"
  shows "to_be k (from_be bs :: 'a word) = bs"
proof -
  have "be_nat bs < 2 ^ LENGTH('a)"
    using be_nat_bound [of bs] assms by (simp add: power_mult)
  then show ?thesis
    using assms by (simp add: to_be_def from_be_def unat_of_nat nat_be_be_nat)
qed

lemma read_u16_eq_Ok [outcome_simps]:
  "read_u16 xs i = Ok w \<longleftrightarrow> i + 2 \<le> length xs \<and> w = from_be (take 2 (drop i xs))"
  by (auto simp: read_u16_def outcome_simps)

lemma read_u32_eq_Ok [outcome_simps]:
  "read_u32 xs i = Ok w \<longleftrightarrow> i + 4 \<le> length xs \<and> w = from_be (take 4 (drop i xs))"
  by (auto simp: read_u32_def outcome_simps)

lemma panics_read_u16 [outcome_simps]: "panics (read_u16 xs i) \<longleftrightarrow> length xs < i + 2"
  by (auto simp: read_u16_def outcome_simps)

lemma panics_read_u32 [outcome_simps]: "panics (read_u32 xs i) \<longleftrightarrow> length xs < i + 4"
  by (auto simp: read_u32_def outcome_simps)

lemma read_not_Err [simp]: "read_u16 xs i \<noteq> Err e" "read_u32 xs i \<noteq> Err e"
  by (auto simp: read_u16_def read_u32_def outcome_simps)

lemma from_be_u16 [simp]: "from_be (to_be 2 (w :: u16)) = w"
  by (rule from_be_to_be) simp

lemma from_be_u32 [simp]: "from_be (to_be 4 (w :: u32)) = w"
  by (rule from_be_to_be) simp

lemma from_be_u128 [simp]: "from_be (to_be 16 (w :: u128)) = w"
  by (rule from_be_to_be) simp

lemma read_u16_at: "read_u16 (xs @ a # b # ys) (length xs) = Ok (from_be [a, b])"
  by (simp add: read_u16_def slice_def)

lemma read_u16_append: "i = length xs \<Longrightarrow> read_u16 (xs @ to_be 2 w @ ys) i = Ok w"
  by (simp add: read_u16_def slice_def)

lemma read_u32_append: "i = length xs \<Longrightarrow> read_u32 (xs @ to_be 4 w @ ys) i = Ok w"
  by (simp add: read_u32_def slice_def)

section \<open>Casts\<close>

text \<open>\<open>n as u8\<close> and \<open>n as u16\<close> of a \<open>usize\<close> keep the low bits.\<close>

definition as_u8 :: "nat \<Rightarrow> u8" where "as_u8 n = of_nat n"
definition as_u16 :: "nat \<Rightarrow> u16" where "as_u16 n = of_nat n"

lemma unat_as_u8: "unat (as_u8 n) = n mod 256"
  by (simp add: as_u8_def unat_of_nat)

lemma unat_as_u16: "unat (as_u16 n) = n mod 65536"
  by (simp add: as_u16_def unat_of_nat)

lemma div_ceil_u8: "(unat (p :: u8) + 7) div 8 \<le> 32"
  using u8_bound [of p] by linarith

section \<open>Loops over encoded items\<close>

text \<open>
  Many parsers of the program read a run of variable-length items from a buffer: an index \<open>i\<close>
  moves from item to item until it reaches an end \<open>n\<close>, and each item read is pushed to a list.
  \<open>item_loop\<close> is the shape of such a loop: \<open>step\<close> reads the item at an index and says how many
  bytes it took, \<open>loop\<close> is the loop of the program, \<open>fin\<close> what it returns at the end, \<open>enc\<close> the
  encoder, \<open>norm\<close> what an item becomes when it is written and read again.  \<open>fits\<close> bounds the
  indices where the loop counts in a narrow integer.
\<close>

locale item_loop =
  fixes step :: "bytes \<Rightarrow> nat \<Rightarrow> ('e, 'a \<times> nat) outcome"
    and loop :: "bytes \<Rightarrow> nat \<Rightarrow> nat \<Rightarrow> 'a list \<Rightarrow> ('e, 'c) outcome"
    and fin :: "nat \<Rightarrow> 'a list \<Rightarrow> 'c"
    and fits :: "nat \<Rightarrow> nat \<Rightarrow> bool"
    and enc :: "'b \<Rightarrow> bytes"
    and norm :: "'b \<Rightarrow> 'a"
    and valid :: "'b \<Rightarrow> bool"
  assumes loop_end: "fits n n \<Longrightarrow> loop src n n acc = Ok (fin n acc)"
    and loop_step: "fits i n \<Longrightarrow> i < n \<Longrightarrow> n \<le> length src \<Longrightarrow> step src i = Ok (x, k) \<Longrightarrow> 0 < k \<Longrightarrow> i + k \<le> n \<Longrightarrow>
      loop src n i acc = loop src n (i + k) (acc @ [x])"
    and fits_step: "fits i n \<Longrightarrow> i + k \<le> n \<Longrightarrow> fits (i + k) n"
    and step_enc: "valid y \<Longrightarrow>
      step (pre @ enc y @ post) (length pre) = Ok (norm y, length (enc y))"
    and enc_nonempty: "valid y \<Longrightarrow> enc y \<noteq> []"
begin

text \<open>The loop runs over any encoded items in front of it, whatever follows them.\<close>

lemma loop_prefix:
  assumes "\<forall>x \<in> set xs. valid x" and "fits (length pre) n"
    and "length pre + length (concat (map enc xs)) \<le> n" and "n \<le> length (pre @ concat (map enc xs) @ post)"
  shows "loop (pre @ concat (map enc xs) @ post) n (length pre) acc =
    loop (pre @ concat (map enc xs) @ post) n (length pre + length (concat (map enc xs))) (acc @ map norm xs)"
  using assms
proof (induction xs arbitrary: pre acc)
  case Nil
  then show ?case by simp
next
  case (Cons x xs)
  let ?rest = "concat (map enc xs)"
  have v: "valid x" using Cons.prems by simp
  have "loop ((pre @ enc x) @ ?rest @ post) n (length (pre @ enc x)) (acc @ [norm x]) =
    loop ((pre @ enc x) @ ?rest @ post) n (length (pre @ enc x) + length ?rest) ((acc @ [norm x]) @ map norm xs)"
    using Cons.prems fits_step [of "length pre" n "length (enc x)"]
    by (intro Cons.IH) (simp_all add: add.assoc)
  moreover have pos: "0 < length (enc x)" using enc_nonempty [OF v] by simp
  moreover have "length pre < n"
    using Cons.prems(3) pos by (simp del: length_greater_0_conv)
  ultimately show ?case
    using step_enc [OF v, of pre "?rest @ post"] Cons.prems(2,3,4)
    by (subst loop_step [where x = "norm x" and k = "length (enc x)"]) (simp_all add: add.assoc)
qed

lemma loop_concat:
  assumes "\<forall>x \<in> set xs. valid x"
    and "fits (length pre) (length pre + length (concat (map enc xs)))"
  shows "loop (pre @ concat (map enc xs) @ post) (length pre + length (concat (map enc xs)))
    (length pre) acc = Ok (fin (length pre + length (concat (map enc xs))) (acc @ map norm xs))"
  using loop_prefix [OF assms, of post acc] loop_end fits_step [OF assms(2)] by simp

lemma loop_concat_0:
  assumes "\<forall>x \<in> set xs. valid x" and "n = length pre + length (concat (map enc xs))"
    and "i = length pre" and "fits i n"
  shows "loop (pre @ concat (map enc xs)) n i [] = Ok (fin n (map norm xs))"
  using loop_concat [OF assms(1), of pre "[]" "[]"] assms(2,3,4) by simp

end

section \<open>Arithmetic of a build\<close>

text \<open>
  An arithmetic overflow panics in a debug build and wraps in a release build; where the program
  can run into one the model takes the build as an argument.
\<close>

datatype build = Debug | Release

definition sub_usize :: "build \<Rightarrow> nat \<Rightarrow> nat \<Rightarrow> ('e, nat) outcome" where
  "sub_usize p a b =
     (if b \<le> a then Ok (a - b)
      else case p of Debug \<Rightarrow> Panic ArithmeticOverflow | Release \<Rightarrow> Ok (2 ^ 64 + a - b))"

definition add_u8 :: "build \<Rightarrow> u8 \<Rightarrow> u8 \<Rightarrow> ('e, u8) outcome" where
  "add_u8 p a b =
     (if unat a + unat b < 256 then Ok (a + b)
      else case p of Debug \<Rightarrow> Panic ArithmeticOverflow | Release \<Rightarrow> Ok (a + b))"

text \<open>Two computations agree when they are the same up to which panic ends them.\<close>

definition agree :: "('e, 'a) outcome \<Rightarrow> ('e, 'a) outcome \<Rightarrow> bool" where
  "agree m m' \<longleftrightarrow> m = m' \<or> panics m \<and> panics m'"

lemma agree_refl [simp, intro]: "agree m m"
  by (simp add: agree_def)

lemma agree_panics: "panics m \<Longrightarrow> panics m' \<Longrightarrow> agree m m'"
  by (simp add: agree_def)

lemma agree_bind:
  "agree m m' \<Longrightarrow> (\<And>x. m = Ok x \<Longrightarrow> agree (f x) (g x)) \<Longrightarrow> agree (bind_outcome m f) (bind_outcome m' g)"
  by (cases m) (auto simp: agree_def panics_bind)

lemma agree_Ok: "agree m m' \<Longrightarrow> m = Ok x \<longleftrightarrow> m' = Ok x"
  by (auto simp: agree_def)

lemma sub_usize_le [simp]: "b \<le> a \<Longrightarrow> sub_usize p a b = Ok (a - b)"
  by (simp add: sub_usize_def)

lemma add_u8_no_overflow [simp]: "unat a + unat b < 256 \<Longrightarrow> add_u8 p a b = Ok (a + b)"
  by (simp add: add_u8_def)

lemma add_u8_eq_Ok [outcome_simps]:
  "add_u8 p a b = Ok c \<longleftrightarrow> c = a + b \<and> (p = Release \<or> unat a + unat b < 256)"
  by (cases p) (auto simp: add_u8_def)

section \<open>Decimal printing\<close>

fun dec :: "nat \<Rightarrow> string" where
  "dec n = (if n < 10 then [char_of (48 + n)] else dec (n div 10) @ [char_of (48 + n mod 10)])"

declare dec.simps [simp del]

end
