(* ===== verification/Ipnet.thy ===== *)
theory Ipnet
  imports Prelude
begin

text \<open>
  Addresses and prefixes.  \<open>Ipv4Addr\<close>, \<open>Ipv6Addr\<close> and \<open>IpAddr\<close> are the standard library's: a
  32-bit and a 128-bit number and their tagged union.  Prefixes (\<open>IpNet\<close>, \<open>Ipv4Net\<close>, \<open>Ipv6Net\<close>)
  come from the crate \<open>ipnet\<close>, which is not part of the repository: the type of prefixes is a
  type variable \<open>'n\<close>, the functions the program calls are the fields of \<open>ipnet_ops\<close>, an argument
  of every definition that uses them, and the documented behaviour the program relies on is the
  locale \<open>ipnet_laws\<close>.  Properties that need it have \<open>ipnet_laws L\<close> as a hypothesis; \<open>ref_ipnet\<close>
  is a full implementation of the interface, on which the locale is interpreted and the
  witnesses are evaluated.
\<close>

type_synonym ipv4_addr = u32
type_synonym ipv6_addr = u128

datatype ip_addr = V4 ipv4_addr | V6 ipv6_addr

definition ipv4_addr_new :: "u8 \<Rightarrow> u8 \<Rightarrow> u8 \<Rightarrow> u8 \<Rightarrow> ipv4_addr" where
  "ipv4_addr_new a b c d = from_be [a, b, c, d]"

definition ipv6_addr_new :: "u16 list \<Rightarrow> ipv6_addr" where
  "ipv6_addr_new segs = from_be (concat (map (to_be 2) segs))"

text \<open>The 16-bit segments of a run of bytes, and of an address.\<close>

fun pairs :: "bytes \<Rightarrow> u16 list" where
  "pairs (x # y # bs) = from_be [x, y] # pairs bs"
| "pairs _ = []"

lemma concat_pairs: "even (length bs) \<Longrightarrow> concat (map (to_be 2) (pairs bs)) = bs"
  by (induction bs rule: pairs.induct) (simp_all add: to_be_from_be)

lemma length_pairs [simp]: "length (pairs bs) = length bs div 2"
  by (induction bs rule: pairs.induct) simp_all

lemma pairs_concat: "pairs (concat (map (to_be 2) segs)) = segs"
proof (induction segs)
  case (Cons v segs)
  let ?x = "of_nat (unat v div 256) :: u8" and ?y = "of_nat (unat v) :: u8"
  have xy: "to_be 2 v = [?x, ?y]"
    by (simp add: to_be_def numeral_2_eq_2)
  then have "from_be [?x, ?y] = v" using from_be_u16 [of v] by simp
  with Cons xy show ?case by simp
qed simp

definition segments :: "ipv6_addr \<Rightarrow> u16 list" where
  "segments a = pairs (to_be 16 a)"

lemma length_segments [simp]: "length (segments a) = 8"
  by (simp add: segments_def)

lemma ipv6_addr_new_segments [simp]: "ipv6_addr_new (segments a) = a"
  by (simp add: ipv6_addr_new_def segments_def concat_pairs)

text \<open>The \<open>Ord\<close> instance of \<open>IpAddr\<close>: every V4 before every V6, then by number.\<close>

fun ip_less :: "ip_addr \<Rightarrow> ip_addr \<Rightarrow> bool" where
  "ip_less (V4 a) (V4 b) = (a < b)"
| "ip_less (V4 a) (V6 b) = True"
| "ip_less (V6 a) (V4 b) = False"
| "ip_less (V6 a) (V6 b) = (a < b)"

instantiation ip_addr :: linorder
begin

definition less_ip_addr :: "ip_addr \<Rightarrow> ip_addr \<Rightarrow> bool" where
  "less_ip_addr x y = ip_less x y"

definition less_eq_ip_addr :: "ip_addr \<Rightarrow> ip_addr \<Rightarrow> bool" where
  "less_eq_ip_addr x y = (x = y \<or> ip_less x y)"

instance
proof
  fix x y z :: ip_addr
  show "(x < y) = (x \<le> y \<and> \<not> y \<le> x)"
    by (cases x; cases y) (auto simp: less_ip_addr_def less_eq_ip_addr_def)
  show "x \<le> x" by (simp add: less_eq_ip_addr_def)
  show "x \<le> z" if "x \<le> y" and "y \<le> z"
    using that by (cases x; cases y; cases z) (auto simp: less_eq_ip_addr_def)
  show "x = y" if "x \<le> y" and "y \<le> x"
    using that by (cases x; cases y) (auto simp: less_eq_ip_addr_def)
  show "x \<le> y \<or> y \<le> x"
    by (cases x; cases y) (auto simp: less_eq_ip_addr_def)
qed

end

section \<open>The interface of the crate ipnet\<close>

record 'n ipnet_ops =
  ipv4net_new :: "ipv4_addr \<Rightarrow> u8 \<Rightarrow> 'n option"
  ipv6net_new :: "ipv6_addr \<Rightarrow> u8 \<Rightarrow> 'n option"
  net_addr :: "'n \<Rightarrow> ip_addr"
  net_network :: "'n \<Rightarrow> ip_addr"
  net_prefix_len :: "'n \<Rightarrow> u8"
  net_contains :: "'n \<Rightarrow> ip_addr \<Rightarrow> bool"
  prefix_len_error_text :: string

text \<open>\<open>clear_host k a\<close> zeroes the low \<open>k\<close> bits.\<close>

definition clear_host :: "nat \<Rightarrow> 'a::len word \<Rightarrow> 'a word" where
  "clear_host k a = push_bit k (drop_bit k a)"

fun ip_network :: "u8 \<Rightarrow> ip_addr \<Rightarrow> ip_addr" where
  "ip_network p (V4 a) = V4 (clear_host (32 - unat p) a)"
| "ip_network p (V6 a) = V6 (clear_host (128 - unat p) a)"

fun ip_max_len :: "ip_addr \<Rightarrow> nat" where
  "ip_max_len (V4 _) = 32"
| "ip_max_len (V6 _) = 128"

fun same_family :: "ip_addr \<Rightarrow> ip_addr \<Rightarrow> bool" where
  "same_family (V4 _) (V4 _) = True"
| "same_family (V6 _) (V6 _) = True"
| "same_family _ _ = False"

locale ipnet_laws =
  fixes L :: "'n ipnet_ops"
  assumes v4_new_None: "ipv4net_new L a p = None \<longleftrightarrow> 32 < unat p"
    and v6_new_None: "ipv6net_new L b p = None \<longleftrightarrow> 128 < unat p"
    and v4_new_parts: "ipv4net_new L a p = Some n \<Longrightarrow> net_addr L n = V4 a \<and> net_prefix_len L n = p"
    and v6_new_parts: "ipv6net_new L b p = Some n \<Longrightarrow> net_addr L n = V6 b \<and> net_prefix_len L n = p"
    and net_eqI: "net_addr L m = net_addr L n \<Longrightarrow> net_prefix_len L m = net_prefix_len L n \<Longrightarrow> m = n"
    and prefix_len_max: "unat (net_prefix_len L n) \<le> ip_max_len (net_addr L n)"
    and network_eq: "net_network L n = ip_network (net_prefix_len L n) (net_addr L n)"
    and contains_iff: "net_contains L n x \<longleftrightarrow>
      same_family (net_addr L n) x \<and> ip_network (net_prefix_len L n) x = net_network L n"
begin

lemma v4_new_Ex: "unat p \<le> 32 \<Longrightarrow> \<exists>n. ipv4net_new L a p = Some n"
  using v4_new_None [of a p] by (cases "ipv4net_new L a p") auto

lemma v6_new_Ex: "unat p \<le> 128 \<Longrightarrow> \<exists>n. ipv6net_new L a p = Some n"
  using v6_new_None [of a p] by (cases "ipv6net_new L a p") auto

lemma network_V4D:
  assumes "net_network L n = V4 a"
  obtains b where "net_addr L n = V4 b" and "a = clear_host (32 - unat (net_prefix_len L n)) b"
    and "unat (net_prefix_len L n) \<le> 32"
  using assms prefix_len_max [of n] by (cases "net_addr L n") (auto simp: network_eq)

lemma network_V6D:
  assumes "net_network L n = V6 a"
  obtains b where "net_addr L n = V6 b" and "a = clear_host (128 - unat (net_prefix_len L n)) b"
    and "unat (net_prefix_len L n) \<le> 128"
  using assms prefix_len_max [of n] by (cases "net_addr L n") (auto simp: network_eq)

end

section \<open>Host bits and byte truncation\<close>

lemma unat_clear_host: "unat (clear_host k a) = unat a div 2 ^ k * 2 ^ k"
proof -
  have "unat a div 2 ^ k * 2 ^ k \<le> unat a" by simp
  moreover have "unat a < 2 ^ LENGTH('a)" for a :: "'a::len word"
    using unsigned_less [of a, where ?'a = nat] by simp
  ultimately have "unat a div 2 ^ k * 2 ^ k < 2 ^ LENGTH('a)" for a :: "'a::len word"
    by (metis div_times_less_eq_dividend le_less_trans)
  moreover have "unat (push_bit k (drop_bit k a)) =
      take_bit LENGTH('a) (push_bit k (drop_bit k (unat a)))"
    by (simp only: unsigned_push_bit_eq unat_drop_bit_eq)
  ultimately show ?thesis
    by (simp add: clear_host_def push_bit_eq_mult drop_bit_eq_div take_bit_eq_mod)
qed

lemma clear_host_idem [simp]: "clear_host k (clear_host k a) = clear_host k a"
  by (simp add: word_unat_eq_iff unat_clear_host)

lemma nat_be_dvd:
  "256 ^ j dvd x \<Longrightarrow> j \<le> k \<Longrightarrow> take (k - j) (nat_be k x) @ replicate j 0 = nat_be k x"
proof (induction j arbitrary: k x)
  case 0
  then show ?case by simp
next
  case (Suc j)
  then obtain k' where k: "k = Suc k'" and jk: "j \<le> k'"
    by (cases k) auto
  from Suc.prems(1) obtain y where x: "x = 256 * (256 ^ j * y)"
    by (auto simp: dvd_def mult.assoc)
  then have "256 ^ j dvd x div 256" and "x mod 256 = 0"
    by simp_all
  then have dvd: "256 ^ j dvd x div 256" and last: "(of_nat x :: u8) = 0"
    by (simp_all only: word_unat_eq_iff unat_of_nat_u8 unsigned_0)
  then have "take (k' - j) (nat_be k' (x div 256)) @ replicate j 0 = nat_be k' (x div 256)"
    using Suc.IH dvd jk by blast
  moreover have "take (k - Suc j) (nat_be k x) = take (k' - j) (nat_be k' (x div 256))"
    by (simp add: k)
  moreover have "replicate (Suc j) (0 :: u8) = replicate j 0 @ [0]"
    by (simp add: replicate_append_same)
  ultimately show ?case
    by (simp add: k last flip: append_assoc)
qed

text \<open>Writing only the bytes a prefix length covers loses nothing of a network address.\<close>

lemma to_be_clear_host:
  assumes "8 * k = w" and "p \<le> w" and "LENGTH('a::len) = w"
  shows "take ((p + 7) div 8) (to_be k (clear_host (w - p) (a :: 'a word)))
    @ replicate (k - (p + 7) div 8) 0 = to_be k (clear_host (w - p) a)"
proof -
  define j where "j = k - (p + 7) div 8"
  have j: "8 * j \<le> w - p" "j \<le> k" "(p + 7) div 8 = k - j"
    using assms by (auto simp: j_def)
  have "(256::nat) ^ j = 2 ^ (8 * j)"
    by (simp add: power_mult)
  also have "\<dots> dvd 2 ^ (w - p)"
    using j(1) by (rule le_imp_power_dvd)
  also have "\<dots> dvd unat (clear_host (w - p) a)"
    by (simp add: unat_clear_host)
  finally show ?thesis
    using j nat_be_dvd [of j "unat (clear_host (w - p) a)" k] by (simp add: to_be_def)
qed

section \<open>A reference implementation of the interface\<close>

typedef ref_net = "{(x :: ip_addr, p :: u8). unat p \<le> ip_max_len x}"
  by (rule exI [of _ "(V4 0, 0)"]) simp

definition ref4 :: "u32 \<Rightarrow> u8 \<Rightarrow> ref_net" where
  "ref4 a p = Abs_ref_net (V4 a, if unat p \<le> 32 then p else 32)"

definition ref6 :: "u128 \<Rightarrow> u8 \<Rightarrow> ref_net" where
  "ref6 a p = Abs_ref_net (V6 a, if unat p \<le> 128 then p else 128)"

definition ref_addr :: "ref_net \<Rightarrow> ip_addr" where
  "ref_addr n = fst (Rep_ref_net n)"

definition ref_prefix_len :: "ref_net \<Rightarrow> u8" where
  "ref_prefix_len n = snd (Rep_ref_net n)"

definition ref_network :: "ref_net \<Rightarrow> ip_addr" where
  "ref_network n = ip_network (ref_prefix_len n) (ref_addr n)"

definition ref_ipnet :: "ref_net ipnet_ops" where
  "ref_ipnet = \<lparr>
     ipv4net_new = \<lambda>a p. if unat p \<le> 32 then Some (ref4 a p) else None,
     ipv6net_new = \<lambda>a p. if unat p \<le> 128 then Some (ref6 a p) else None,
     net_addr = ref_addr,
     net_network = ref_network,
     net_prefix_len = ref_prefix_len,
     net_contains = \<lambda>n x. same_family (ref_addr n) x \<and> ip_network (ref_prefix_len n) x = ref_network n,
     prefix_len_error_text = ''invalid IP prefix length''\<rparr>"

lemma ref_addr_simps [simp]: "ref_addr (ref4 a p) = V4 a" "ref_addr (ref6 b p) = V6 b"
  by (simp_all add: ref_addr_def ref4_def ref6_def Abs_ref_net_inverse)

lemma ref_prefix_len_simps [simp]:
  "ref_prefix_len (ref4 a p) = (if unat p \<le> 32 then p else 32)"
  "ref_prefix_len (ref6 b p) = (if unat p \<le> 128 then p else 128)"
  by (simp_all add: ref_prefix_len_def ref4_def ref6_def Abs_ref_net_inverse)

lemma ref_prefix_len_max: "unat (ref_prefix_len n) \<le> ip_max_len (ref_addr n)"
  using Rep_ref_net [of n] by (auto simp: ref_prefix_len_def ref_addr_def)

lemma ref_net_eqI: "ref_addr m = ref_addr n \<Longrightarrow> ref_prefix_len m = ref_prefix_len n \<Longrightarrow> m = n"
  by (simp add: ref_prefix_len_def ref_addr_def prod_eq_iff flip: Rep_ref_net_inject)

lemma ref_net_eq_iff [simp]:
  "ref4 a p = ref4 a' p' \<longleftrightarrow> a = a' \<and> ref_prefix_len (ref4 a p) = ref_prefix_len (ref4 a' p')"
  "ref6 b p = ref6 b' p' \<longleftrightarrow> b = b' \<and> ref_prefix_len (ref6 b p) = ref_prefix_len (ref6 b' p')"
  "ref4 a p \<noteq> ref6 b p'" "ref6 b p' \<noteq> ref4 a p"
  by (metis ref_addr_simps ref_net_eqI ip_addr.inject ip_addr.distinct(1))+

interpretation ref: ipnet_laws ref_ipnet
  by unfold_locales
    (auto simp: ref_ipnet_def ref_network_def ref_prefix_len_max ref_net_eqI split: if_splits)

end
