(* ===== verification/Bgp_Types.thy ===== *)
theory Bgp_Types
  imports Ipnet
begin

text \<open>
  \<open>src/bgp/types.rs\<close> and \<open>src/error.rs\<close>: the protocol's enumerations with their wire codes, the
  validation errors and the NOTIFICATION codes they map to, the error type of the parsers, and the
  length, marker and prefix checks.  \<open>FromPrimitive::from_u8\<close>/\<open>from_u16\<close> are derived from the
  discriminants the source declares: each is the partial inverse of the code function.
\<close>

section \<open>Constants and enumerations\<close>

definition MARKER :: bytes where "MARKER = replicate 16 0xff"
definition VERSION :: u8 where "VERSION = 4"
definition MIN_MESSAGE_LENGTH :: nat where "MIN_MESSAGE_LENGTH = 19"
definition MAX_MESSAGE_LENGTH :: nat where "MAX_MESSAGE_LENGTH = 4096"

datatype afi = Ipv4 | Ipv6

primrec afi_code :: "afi \<Rightarrow> u16" where
  "afi_code Ipv4 = 1"
| "afi_code Ipv6 = 2"

definition afi_from_u16 :: "u16 \<Rightarrow> afi option" where
  "afi_from_u16 n = (if n = 1 then Some Ipv4 else if n = 2 then Some Ipv6 else None)"

datatype safi = NLRIUnicast | NLRIMulticast

primrec safi_code :: "safi \<Rightarrow> u8" where
  "safi_code NLRIUnicast = 1"
| "safi_code NLRIMulticast = 2"

definition safi_from_u8 :: "u8 \<Rightarrow> safi option" where
  "safi_from_u8 n = (if n = 1 then Some NLRIUnicast else if n = 2 then Some NLRIMulticast else None)"

record address_family =
  afi :: afi
  safi :: safi

datatype message_type = MT_Open | MT_Update | MT_Notification | MT_Keepalive

primrec message_type_code :: "message_type \<Rightarrow> u8" where
  "message_type_code MT_Open = 1"
| "message_type_code MT_Update = 2"
| "message_type_code MT_Notification = 3"
| "message_type_code MT_Keepalive = 4"

definition message_type_from_u8 :: "u8 \<Rightarrow> message_type option" where
  "message_type_from_u8 n =
     (if n = 1 then Some MT_Open else if n = 2 then Some MT_Update
      else if n = 3 then Some MT_Notification else if n = 4 then Some MT_Keepalive else None)"

datatype error_code =
  MessageHeader | OpenMessage | UpdateMessage | HoldTimerExpired | FSMError | Cease

primrec error_code_code :: "error_code \<Rightarrow> u8" where
  "error_code_code MessageHeader = 1"
| "error_code_code OpenMessage = 2"
| "error_code_code UpdateMessage = 3"
| "error_code_code HoldTimerExpired = 4"
| "error_code_code FSMError = 5"
| "error_code_code Cease = 6"

definition error_code_from_u8 :: "u8 \<Rightarrow> error_code option" where
  "error_code_from_u8 n =
     (if n = 1 then Some MessageHeader else if n = 2 then Some OpenMessage
      else if n = 3 then Some UpdateMessage else if n = 4 then Some HoldTimerExpired
      else if n = 5 then Some FSMError else if n = 6 then Some Cease else None)"

datatype header_sub_code = ConnectionNotSynchronized | BadMessageLength | BadMessageType

primrec header_sub_code_code :: "header_sub_code \<Rightarrow> u8" where
  "header_sub_code_code ConnectionNotSynchronized = 1"
| "header_sub_code_code BadMessageLength = 2"
| "header_sub_code_code BadMessageType = 3"

datatype open_sub_code =
  UnsupportedVersionNumber | BadPeerAS | BadBGPIdentifier | UnsupportedOptionalParameter
  | OpenDeprecated | UnacceptableHoldTime

primrec open_sub_code_code :: "open_sub_code \<Rightarrow> u8" where
  "open_sub_code_code UnsupportedVersionNumber = 1"
| "open_sub_code_code BadPeerAS = 2"
| "open_sub_code_code BadBGPIdentifier = 3"
| "open_sub_code_code UnsupportedOptionalParameter = 4"
| "open_sub_code_code OpenDeprecated = 5"
| "open_sub_code_code UnacceptableHoldTime = 6"

datatype update_sub_code =
  MalformedAttributeList | UnrecognizedWellKnownAttribute | MissingWellKnownAttribute
  | AttributeFlagsError | AttributeLengthError | InvalidORIGINAttribute | UpdateDeprecated
  | InvalidNEXTHOPAttribute | OptionalAttributeError | InvalidNetworkField | MalformedASPATH

primrec update_sub_code_code :: "update_sub_code \<Rightarrow> u8" where
  "update_sub_code_code MalformedAttributeList = 1"
| "update_sub_code_code UnrecognizedWellKnownAttribute = 2"
| "update_sub_code_code MissingWellKnownAttribute = 3"
| "update_sub_code_code AttributeFlagsError = 4"
| "update_sub_code_code AttributeLengthError = 5"
| "update_sub_code_code InvalidORIGINAttribute = 6"
| "update_sub_code_code UpdateDeprecated = 7"
| "update_sub_code_code InvalidNEXTHOPAttribute = 8"
| "update_sub_code_code OptionalAttributeError = 9"
| "update_sub_code_code InvalidNetworkField = 10"
| "update_sub_code_code MalformedASPATH = 11"

section \<open>Errors\<close>

datatype validation_error =
    MessageTooShort nat nat
  | MessageTooLong nat nat
  | InvalidMarker
  | InvalidMessageType u8
  | InvalidVersion u8 u8
  | InvalidAsn u16
  | InvalidHoldTime u16
  | InvalidRouterId u32
  | InvalidOptionalParameterLength u8
  | InvalidPathAttributeLength nat
  | InvalidNlriPrefixLength u8
  | InvalidBufferBounds nat nat nat
  | MissingRequiredAttribute string
  | MalformedAsPath string
  | InvalidNextHop string
  | InvalidCapability string

fun validation_error_text :: "validation_error \<Rightarrow> string" where
  "validation_error_text (MessageTooShort actual minimum) =
     ''Message too short: got '' @ dec actual @ '', minimum '' @ dec minimum"
| "validation_error_text (MessageTooLong actual maximum) =
     ''Message too long: got '' @ dec actual @ '', maximum '' @ dec maximum"
| "validation_error_text InvalidMarker = ''Invalid marker: expected all 0xFF''"
| "validation_error_text (InvalidMessageType t) = ''Invalid message type: '' @ dec (unat t)"
| "validation_error_text (InvalidVersion actual expected) =
     ''Invalid BGP version: got '' @ dec (unat actual) @ '', expected '' @ dec (unat expected)"
| "validation_error_text (InvalidAsn n) = ''Invalid AS number: '' @ dec (unat n)"
| "validation_error_text (InvalidHoldTime n) = ''Invalid hold time: '' @ dec (unat n)"
| "validation_error_text (InvalidRouterId n) = ''Invalid router ID: '' @ dec (unat n)"
| "validation_error_text (InvalidOptionalParameterLength n) =
     ''Invalid optional parameter length: '' @ dec (unat n)"
| "validation_error_text (InvalidPathAttributeLength n) =
     ''Invalid path attribute length: '' @ dec n"
| "validation_error_text (InvalidNlriPrefixLength n) =
     ''Invalid NLRI prefix length: '' @ dec (unat n)"
| "validation_error_text (InvalidBufferBounds off len n) =
     ''Invalid buffer bounds: offset '' @ dec off @ '', length '' @ dec len
     @ '', buffer size '' @ dec n"
| "validation_error_text (MissingRequiredAttribute s) = ''Missing required path attribute: '' @ s"
| "validation_error_text (MalformedAsPath s) = ''Malformed AS_PATH: '' @ s"
| "validation_error_text (InvalidNextHop s) = ''Invalid next hop: '' @ s"
| "validation_error_text (InvalidCapability s) = ''Invalid capability: '' @ s"

fun to_notification_codes :: "validation_error \<Rightarrow> error_code \<times> u8" where
  "to_notification_codes (MessageTooShort _ _) =
     (MessageHeader, header_sub_code_code BadMessageLength)"
| "to_notification_codes (MessageTooLong _ _) =
     (MessageHeader, header_sub_code_code BadMessageLength)"
| "to_notification_codes InvalidMarker =
     (MessageHeader, header_sub_code_code ConnectionNotSynchronized)"
| "to_notification_codes (InvalidMessageType _) =
     (MessageHeader, header_sub_code_code BadMessageType)"
| "to_notification_codes (InvalidVersion _ _) =
     (OpenMessage, open_sub_code_code UnsupportedVersionNumber)"
| "to_notification_codes (InvalidAsn _) = (OpenMessage, open_sub_code_code BadPeerAS)"
| "to_notification_codes (InvalidHoldTime _) =
     (OpenMessage, open_sub_code_code UnacceptableHoldTime)"
| "to_notification_codes (InvalidRouterId _) = (OpenMessage, open_sub_code_code BadBGPIdentifier)"
| "to_notification_codes (InvalidOptionalParameterLength _) =
     (OpenMessage, open_sub_code_code UnsupportedOptionalParameter)"
| "to_notification_codes (InvalidCapability _) =
     (OpenMessage, open_sub_code_code UnsupportedOptionalParameter)"
| "to_notification_codes (InvalidPathAttributeLength _) =
     (UpdateMessage, update_sub_code_code AttributeLengthError)"
| "to_notification_codes (InvalidBufferBounds _ _ _) =
     (UpdateMessage, update_sub_code_code AttributeLengthError)"
| "to_notification_codes (InvalidNlriPrefixLength _) =
     (UpdateMessage, update_sub_code_code InvalidNetworkField)"
| "to_notification_codes (MissingRequiredAttribute _) =
     (UpdateMessage, update_sub_code_code MissingWellKnownAttribute)"
| "to_notification_codes (MalformedAsPath _) =
     (UpdateMessage, update_sub_code_code MalformedASPATH)"
| "to_notification_codes (InvalidNextHop _) =
     (UpdateMessage, update_sub_code_code InvalidNEXTHOPAttribute)"

text \<open>\<open>std::io::Error\<close> values the program builds itself carry the kind \<open>InvalidData\<close> and a text;
  those of the operating system only a text.\<close>

datatype io_error = InvalidData string | OsError string

datatype bgp_error =
    Protocol string
  | Message string
  | Session string
  | Connection string
  | Address string
  | Io io_error
  | ChannelSend
  | MissingField string
  | InvalidState string
  | Validation validation_error

fun io_error_text :: "io_error \<Rightarrow> string" where
  "io_error_text (InvalidData s) = s"
| "io_error_text (OsError s) = s"

fun bgp_error_text :: "bgp_error \<Rightarrow> string" where
  "bgp_error_text (Protocol s) = ''BGP protocol error: '' @ s"
| "bgp_error_text (Message s) = ''BGP message error: '' @ s"
| "bgp_error_text (Session s) = ''BGP session error: '' @ s"
| "bgp_error_text (Connection s) = ''Connection failed: '' @ s"
| "bgp_error_text (Address s) = ''Invalid address: '' @ s"
| "bgp_error_text (Io e) = ''IO error: '' @ io_error_text e"
| "bgp_error_text ChannelSend = ''Channel send error''"
| "bgp_error_text (MissingField s) = ''Missing required field: '' @ s"
| "bgp_error_text (InvalidState s) = ''Invalid state transition: '' @ s"
| "bgp_error_text (Validation e) = ''Validation error: '' @ validation_error_text e"

section \<open>Checks\<close>

definition validate_message_length :: "nat \<Rightarrow> (validation_error, unit) outcome" where
  "validate_message_length n =
     (if n < MIN_MESSAGE_LENGTH then Err (MessageTooShort n MIN_MESSAGE_LENGTH)
      else if MAX_MESSAGE_LENGTH < n then Err (MessageTooLong n MAX_MESSAGE_LENGTH)
      else Ok ())"

definition validate_marker :: "bytes \<Rightarrow> (validation_error, unit) outcome" where
  "validate_marker marker = (if marker \<noteq> MARKER then Err InvalidMarker else Ok ())"

definition is_extended_len :: "u8 \<Rightarrow> bool" where
  "is_extended_len flags = (drop_bit 4 flags AND 1 \<noteq> 0)"

definition prefix_bytes :: "u8 \<Rightarrow> afi \<Rightarrow> (validation_error, nat) outcome" where
  "prefix_bytes plen a =
     (let max_len = (case a of Ipv4 \<Rightarrow> 32 | Ipv6 \<Rightarrow> 128)
      in if max_len < plen then Err (InvalidNlriPrefixLength plen)
         else Ok ((unat plen + 7) div 8))"

section \<open>Lemmas\<close>

lemma afi_from_u16_code [simp]: "afi_from_u16 (afi_code a) = Some a"
  by (cases a) (simp_all add: afi_from_u16_def)

lemma safi_from_u8_code [simp]: "safi_from_u8 (safi_code s) = Some s"
  by (cases s) (simp_all add: safi_from_u8_def)

lemma message_type_from_u8_code [simp]: "message_type_from_u8 (message_type_code t) = Some t"
  by (cases t) (simp_all add: message_type_from_u8_def)

lemma error_code_from_u8_code [simp]: "error_code_from_u8 (error_code_code e) = Some e"
  by (cases e) (simp_all add: error_code_from_u8_def)

lemma message_type_from_u8_eq_Some:
  "message_type_from_u8 n = Some t \<longleftrightarrow> n = message_type_code t"
  by (cases t) (auto simp: message_type_from_u8_def)

lemma length_MARKER [simp]: "length MARKER = 16"
  by (simp add: MARKER_def)

lemma validate_message_length_Ok [outcome_simps]:
  "validate_message_length n = Ok u \<longleftrightarrow> 19 \<le> n \<and> n \<le> 4096"
  by (auto simp: validate_message_length_def MIN_MESSAGE_LENGTH_def MAX_MESSAGE_LENGTH_def)

lemma validate_message_length_no_panic [simp]: "\<not> panics (validate_message_length n)"
  by (simp add: validate_message_length_def)

definition afi_bits :: "afi \<Rightarrow> nat" where
  "afi_bits a = (case a of Ipv4 \<Rightarrow> 32 | Ipv6 \<Rightarrow> 128)"

lemma prefix_bytes_Ok [outcome_simps]:
  "prefix_bytes p a = Ok n \<longleftrightarrow> unat p \<le> afi_bits a \<and> n = (unat p + 7) div 8"
  by (cases a) (auto simp: prefix_bytes_def afi_bits_def word_less_nat_alt)

lemma prefix_bytes_cases:
  "prefix_bytes p a = (if unat p \<le> afi_bits a then Ok ((unat p + 7) div 8)
     else Err (InvalidNlriPrefixLength p))"
  by (cases a) (auto simp: prefix_bytes_def afi_bits_def word_less_nat_alt)

lemma prefix_bytes_no_panic [simp]: "\<not> panics (prefix_bytes p a)"
  by (simp add: prefix_bytes_cases)

end
