(* ===== verification/Nlri.thy ===== *)
theory Nlri
  imports Bgp_Types
begin

text \<open>
  \<open>src/bgp/nlri.rs\<close>: one network prefix on the wire (a length byte and as many address bytes as it
  covers), its two decoders, and the MP_REACH_NLRI / MP_UNREACH_NLRI values with their loops.
\<close>

section \<open>Prefixes\<close>

record 'n nlri =
  net :: 'n

definition ipnet_afi :: "'n ipnet_ops \<Rightarrow> 'n \<Rightarrow> afi" where
  "ipnet_afi L n = (case net_network L n of V4 _ \<Rightarrow> Ipv4 | V6 _ \<Rightarrow> Ipv6)"

definition nlri_to_bytes :: "'n ipnet_ops \<Rightarrow> 'n nlri \<Rightarrow> (bgp_error, bytes) outcome" where
  "nlri_to_bytes L val =
     bind_outcome (unwrap_result (prefix_bytes (net_prefix_len L (net val)) (ipnet_afi L (net val))))
       (\<lambda>blen. case net_network L (net val) of
          V4 v \<Rightarrow> bind_outcome (slice (to_be 4 v) 0 blen)
                    (\<lambda>addr. Ok (net_prefix_len L (net val) # addr))
        | V6 v \<Rightarrow> bind_outcome (slice (to_be 16 v) 0 blen)
                    (\<lambda>addr. Ok (net_prefix_len L (net val) # addr)))"

text \<open>The error text of a run of octets shorter than its prefix length asks for.\<close>

definition insufficient_octets :: "u8 \<Rightarrow> nat \<Rightarrow> nat \<Rightarrow> bgp_error" where
  "insufficient_octets plen expected got =
     Message (''Insufficient octets for prefix length '' @ dec (unat plen) @ '': need ''
       @ dec expected @ '', got '' @ dec got)"

definition nlri_from_ipv4_octets :: "'n ipnet_ops \<Rightarrow> bytes \<Rightarrow> (bgp_error, 'n nlri) outcome" where
  "nlri_from_ipv4_octets L octets =
     (case octets of
        [] \<Rightarrow> Err (Message ''Empty octets data'')
      | plen # addr \<Rightarrow>
          (let expected = (if plen = 0 then 0 else (unat plen + 7) div 8)
           in if length addr < expected then Err (insufficient_octets plen expected (length addr))
              else let addr = resize 4 0 addr
                in case ipv4net_new L (ipv4_addr_new (addr ! 0) (addr ! 1) (addr ! 2) (addr ! 3)) plen of
                     None \<Rightarrow> Err (Message (''Invalid IPv4 network: '' @ prefix_len_error_text L))
                   | Some n \<Rightarrow> Ok \<lparr>net = n\<rparr>))"

text \<open>The loop that turns sixteen bytes into eight segments.\<close>

function segments_loop :: "bytes \<Rightarrow> nat \<Rightarrow> u16 list \<Rightarrow> (bgp_error, u16 list) outcome" where
  "segments_loop addr i acc =
     (if i < length addr
      then bind_outcome (read_u16 addr i) (\<lambda>v. segments_loop addr (i + 2) (acc @ [v]))
      else Ok acc)"
  by pat_completeness auto
termination
  by (relation "measure (\<lambda>(addr, i, acc). length addr - i)") auto

declare segments_loop.simps [simp del]

definition ipv6_from_segments :: "u16 list \<Rightarrow> (bgp_error, ipv6_addr) outcome" where
  "ipv6_from_segments segs =
     (if length segs < 8 then Panic IndexOutOfBounds else Ok (ipv6_addr_new (take 8 segs)))"

definition ipv6_from_bytes :: "bytes \<Rightarrow> (bgp_error, ipv6_addr) outcome" where
  "ipv6_from_bytes addr = bind_outcome (segments_loop addr 0 []) ipv6_from_segments"

definition nlri_from_ipv6_octets :: "'n ipnet_ops \<Rightarrow> bytes \<Rightarrow> (bgp_error, 'n nlri) outcome" where
  "nlri_from_ipv6_octets L octets =
     (case octets of
        [] \<Rightarrow> Err (Message ''Empty octets data'')
      | plen # addr \<Rightarrow>
          (let expected = (if plen = 0 then 0 else (unat plen + 7) div 8)
           in if length addr < expected then Err (insufficient_octets plen expected (length addr))
              else bind_outcome (ipv6_from_bytes (resize 16 0 addr))
                (\<lambda>a. case ipv6net_new L a plen of
                   None \<Rightarrow> Err (Message (''Invalid IPv6 network: '' @ prefix_len_error_text L))
                 | Some n \<Rightarrow> Ok \<lparr>net = n\<rparr>)))"

definition nlri_from_octets :: "'n ipnet_ops \<Rightarrow> afi \<Rightarrow> bytes \<Rightarrow> (bgp_error, 'n nlri) outcome" where
  "nlri_from_octets L a octets =
     (case a of Ipv4 \<Rightarrow> nlri_from_ipv4_octets L octets | Ipv6 \<Rightarrow> nlri_from_ipv6_octets L octets)"

section \<open>Multiprotocol attributes\<close>

record 'n mpnlri =
  af :: address_family
  nh :: ip_addr
  nlris :: "'n nlri list"

record 'n mpunlri =
  un_af :: address_family
  un_nlris :: "'n nlri list"

definition mpnlri_default :: "'n mpnlri" where
  "mpnlri_default = \<lparr>af = \<lparr>afi = Ipv6, safi = NLRIUnicast\<rparr>, nh = V6 0, nlris = []\<rparr>"

definition mpunlri_default :: "'n mpunlri" where
  "mpunlri_default = \<lparr>un_af = \<lparr>afi = Ipv6, safi = NLRIUnicast\<rparr>, un_nlris = []\<rparr>"

text \<open>One turn of the reading loops: the prefix at index \<open>i\<close> and the bytes it took.  The loop of
  MP_REACH_NLRI reads without looking at the end of the buffer, the one of MP_UNREACH_NLRI checks.\<close>

definition mp_reach_step ::
    "'n ipnet_ops \<Rightarrow> afi \<Rightarrow> bytes \<Rightarrow> nat \<Rightarrow> (bgp_error, 'n nlri \<times> nat) outcome" where
  "mp_reach_step L a src i =
     bind_outcome (index src i) (\<lambda>plen.
     bind_outcome (map_err Validation (prefix_bytes plen a)) (\<lambda>plen_bytes.
     bind_outcome (slice src i (i + plen_bytes + 1)) (\<lambda>octets.
     bind_outcome (nlri_from_octets L a octets) (\<lambda>n.
     bind_outcome (map_err Validation (prefix_bytes (net_prefix_len L (net n)) a)) (\<lambda>b.
     Ok (n, b + 1))))))"

function mp_reach_loop ::
    "'n ipnet_ops \<Rightarrow> afi \<Rightarrow> bytes \<Rightarrow> nat \<Rightarrow> nat \<Rightarrow> 'n nlri list \<Rightarrow> (bgp_error, 'n nlri list) outcome"
  where
  "mp_reach_loop L a src total_len i acc =
     (if i < total_len
      then bind_outcome (mp_reach_step L a src i)
        (\<lambda>(n, blen). mp_reach_loop L a src total_len (i + blen) (acc @ [n]))
      else Ok acc)"
  by pat_completeness auto
termination
  by (relation "measure (\<lambda>(L, a, src, total_len, i, acc). total_len - i)")
    (auto simp: mp_reach_step_def outcome_simps)

declare mp_reach_loop.simps [simp del]

definition mp_unreach_step ::
    "'n ipnet_ops \<Rightarrow> afi \<Rightarrow> bytes \<Rightarrow> nat \<Rightarrow> (bgp_error, 'n nlri \<times> nat) outcome" where
  "mp_unreach_step L a src i =
     (if length src \<le> i then Err (Message ''Insufficient data for NLRI prefix length'')
      else bind_outcome (index src i) (\<lambda>plen.
        bind_outcome (map_err Validation (prefix_bytes plen a)) (\<lambda>plen_bytes.
        let end_i = i + plen_bytes + 1
        in if length src < end_i then Err (Message ''Insufficient data for NLRI prefix'')
           else bind_outcome (slice src i end_i) (\<lambda>octets.
             bind_outcome (nlri_from_octets L a octets) (\<lambda>n.
             bind_outcome (map_err Validation (prefix_bytes (net_prefix_len L (net n)) a)) (\<lambda>b.
             Ok (n, b + 1)))))))"

function mp_unreach_loop ::
    "'n ipnet_ops \<Rightarrow> afi \<Rightarrow> bytes \<Rightarrow> nat \<Rightarrow> nat \<Rightarrow> 'n nlri list \<Rightarrow> (bgp_error, 'n nlri list) outcome"
  where
  "mp_unreach_loop L a src total_len i acc =
     (if i < total_len
      then bind_outcome (mp_unreach_step L a src i)
        (\<lambda>(n, blen). mp_unreach_loop L a src total_len (i + blen) (acc @ [n]))
      else Ok acc)"
  by pat_completeness auto
termination
  by (relation "measure (\<lambda>(L, a, src, total_len, i, acc). total_len - i)")
    (auto simp: mp_unreach_step_def outcome_simps Let_def split: if_splits)

declare mp_unreach_loop.simps [simp del]

definition invalid_afi :: "u16 \<Rightarrow> bgp_error" where
  "invalid_afi n = Message (''Invalid AFI: '' @ dec (unat n))"

definition invalid_safi :: "u8 \<Rightarrow> bgp_error" where
  "invalid_safi n = Message (''Invalid SAFI: '' @ dec (unat n))"

definition mpnlri_from_bytes :: "'n ipnet_ops \<Rightarrow> bytes \<Rightarrow> (bgp_error, 'n mpnlri) outcome" where
  "mpnlri_from_bytes L src0 =
     (case src0 of
        [] \<Rightarrow> Err (Message ''Empty MP_REACH_NLRI data'')
      | len # src \<Rightarrow>
          (let total_len = unat len
           in if length src < 4 then Err (Message ''Insufficient data for MP_REACH_NLRI header'')
              else
                bind_outcome (read_u16 src 0) (\<lambda>afi_n.
                bind_outcome (ok_or (invalid_afi afi_n) (afi_from_u16 afi_n)) (\<lambda>a.
                bind_outcome (ok_or (invalid_safi (src ! 2)) (safi_from_u8 (src ! 2))) (\<lambda>s.
                let nhl = unat (src ! 3)
                in if length src < 4 + nhl
                   then Err (Message ''Insufficient data for next hop address'')
                   else
                     bind_outcome (slice src 4 (4 + nhl)) (\<lambda>addr.
                     bind_outcome
                       (case a of
                          Ipv4 \<Rightarrow> (let addr = resize 4 0 addr
                            in Ok (V4 (ipv4_addr_new (addr ! 0) (addr ! 1) (addr ! 2) (addr ! 3))))
                        | Ipv6 \<Rightarrow> bind_outcome (ipv6_from_bytes (resize 16 0 addr)) (\<lambda>v. Ok (V6 v)))
                       (\<lambda>hop.
                     bind_outcome (mp_reach_loop L a src total_len (4 + nhl) []) (\<lambda>ns.
                     Ok \<lparr>af = \<lparr>afi = a, safi = s\<rparr>, nh = hop, nlris = ns\<rparr>))))))))"

definition mpunlri_from_bytes :: "'n ipnet_ops \<Rightarrow> bytes \<Rightarrow> (bgp_error, 'n mpunlri) outcome" where
  "mpunlri_from_bytes L src0 =
     (case src0 of
        [] \<Rightarrow> Err (Message ''Empty MP_UNREACH_NLRI data'')
      | len # src \<Rightarrow>
          (let total_len = unat len
           in if length src < 3 then Err (Message ''Insufficient data for MP_UNREACH_NLRI header'')
              else
                bind_outcome (read_u16 src 0) (\<lambda>afi_n.
                bind_outcome (ok_or (invalid_afi afi_n) (afi_from_u16 afi_n)) (\<lambda>a.
                bind_outcome (ok_or (invalid_safi (src ! 2)) (safi_from_u8 (src ! 2))) (\<lambda>s.
                bind_outcome (mp_unreach_loop L a src total_len 3 []) (\<lambda>ns.
                Ok \<lparr>un_af = \<lparr>afi = a, safi = s\<rparr>, un_nlris = ns\<rparr>))))))"

primrec nlris_to_bytes :: "'n ipnet_ops \<Rightarrow> 'n nlri list \<Rightarrow> (bgp_error, bytes) outcome" where
  "nlris_to_bytes L [] = Ok []"
| "nlris_to_bytes L (n # ns) =
     bind_outcome (nlri_to_bytes L n) (\<lambda>b. bind_outcome (nlris_to_bytes L ns) (\<lambda>bs. Ok (b @ bs)))"

fun next_hop_to_bytes :: "ip_addr \<Rightarrow> bytes" where
  "next_hop_to_bytes (V4 v) = 4 # to_be 4 v"
| "next_hop_to_bytes (V6 v) = 16 # to_be 16 v"

definition mpnlri_to_bytes :: "'n ipnet_ops \<Rightarrow> 'n mpnlri \<Rightarrow> (bgp_error, bytes) outcome" where
  "mpnlri_to_bytes L val =
     bind_outcome (nlris_to_bytes L (nlris val)) (\<lambda>nbuf.
       let hop = next_hop_to_bytes (nh val); blen = 3 + length hop + length nbuf
       in Ok (as_u8 blen # to_be 2 (afi_code (afi (af val))) @ safi_code (safi (af val)) # hop @ nbuf))"

definition mpunlri_to_bytes :: "'n ipnet_ops \<Rightarrow> 'n mpunlri \<Rightarrow> (bgp_error, bytes) outcome" where
  "mpunlri_to_bytes L val =
     bind_outcome (nlris_to_bytes L (un_nlris val)) (\<lambda>nbuf.
       Ok (as_u8 (3 + length nbuf) # to_be 2 (afi_code (afi (un_af val)))
           @ safi_code (safi (un_af val)) # nbuf))"

section \<open>Segments\<close>

lemma segments_loop_pairs:
  "even (length bs) \<Longrightarrow> segments_loop (pre @ bs) (length pre) acc = Ok (acc @ pairs bs)"
proof (induction bs arbitrary: pre acc rule: pairs.induct)
  case (1 x y bs)
  have "segments_loop ((pre @ [x, y]) @ bs) (length (pre @ [x, y])) (acc @ [from_be [x, y]]) =
      Ok ((acc @ [from_be [x, y]]) @ pairs bs)"
    using "1.prems" by (intro "1.IH") simp
  then show ?case
    by (subst segments_loop.simps) (simp add: read_u16_at)
qed (simp_all add: segments_loop.simps)

lemma ipv6_from_bytes_16: "length bs = 16 \<Longrightarrow> ipv6_from_bytes bs = Ok (from_be bs)"
  using segments_loop_pairs [of bs "[]" "[]"] concat_pairs [of bs]
  by (simp add: ipv6_from_bytes_def ipv6_from_segments_def ipv6_addr_new_def)

lemma ipv6_from_bytes_no_Err: "ipv6_from_bytes bs \<noteq> Err e"
proof -
  have "segments_loop bs i acc \<noteq> Err e" for i acc
    by (induction bs i acc rule: segments_loop.induct)
      (subst segments_loop.simps, auto simp: outcome_simps)
  then show ?thesis
    by (auto simp: ipv6_from_bytes_def ipv6_from_segments_def outcome_simps)
qed

lemma ipv4_addr_new_nth: "length bs = 4 \<Longrightarrow> ipv4_addr_new (bs ! 0) (bs ! Suc 0) (bs ! 2) (bs ! 3) = from_be bs"
  by (auto simp: ipv4_addr_new_def length_Suc_conv numeral_nat)

section \<open>The decoders of a prefix\<close>

lemma zero_prefix_bytes: "(if plen = 0 then 0 else (unat plen + 7) div 8) = (unat (plen :: u8) + 7) div 8"
  by simp

lemma nlri_from_ipv4_octets_Cons:
  "nlri_from_ipv4_octets L (plen # addr) =
    (if length addr < (unat plen + 7) div 8
     then Err (insufficient_octets plen ((unat plen + 7) div 8) (length addr))
     else case ipv4net_new L (from_be (resize 4 0 addr)) plen of
        None \<Rightarrow> Err (Message (''Invalid IPv4 network: '' @ prefix_len_error_text L))
      | Some n \<Rightarrow> Ok \<lparr>net = n\<rparr>)"
  unfolding nlri_from_ipv4_octets_def list.case Let_def zero_prefix_bytes
  by (simp add: ipv4_addr_new_nth)

lemma nlri_from_ipv6_octets_Cons:
  "nlri_from_ipv6_octets L (plen # addr) =
    (if length addr < (unat plen + 7) div 8
     then Err (insufficient_octets plen ((unat plen + 7) div 8) (length addr))
     else case ipv6net_new L (from_be (resize 16 0 addr)) plen of
        None \<Rightarrow> Err (Message (''Invalid IPv6 network: '' @ prefix_len_error_text L))
      | Some n \<Rightarrow> Ok \<lparr>net = n\<rparr>)"
  unfolding nlri_from_ipv6_octets_def list.case Let_def zero_prefix_bytes
  by (simp add: ipv6_from_bytes_16)

lemma nlri_from_octets_no_panic: "\<not> panics (nlri_from_octets L a octets)"
  by (cases octets; cases a)
    (auto simp: nlri_from_octets_def nlri_from_ipv4_octets_Cons nlri_from_ipv6_octets_Cons
      nlri_from_ipv4_octets_def [of L "[]"] nlri_from_ipv6_octets_def [of L "[]"] split: option.splits)

section \<open>Prefixes on the wire\<close>

text \<open>What a prefix is written as, and what it becomes when it is written and read again: its
  network address with the same length.\<close>

definition nlri_wire :: "'n ipnet_ops \<Rightarrow> 'n nlri \<Rightarrow> bytes" where
  "nlri_wire L n = net_prefix_len L (net n) #
     take ((unat (net_prefix_len L (net n)) + 7) div 8)
       (case net_network L (net n) of V4 v \<Rightarrow> to_be 4 v | V6 v \<Rightarrow> to_be 16 v)"

definition nlri_canon :: "'n ipnet_ops \<Rightarrow> 'n nlri \<Rightarrow> 'n nlri" where
  "nlri_canon L n = \<lparr>net = the (case net_network L (net n) of
      V4 v \<Rightarrow> ipv4net_new L v (net_prefix_len L (net n))
    | V6 v \<Rightarrow> ipv6net_new L v (net_prefix_len L (net n)))\<rparr>"

definition nlri_afi :: "'n ipnet_ops \<Rightarrow> 'n nlri \<Rightarrow> afi" where
  "nlri_afi L n = ipnet_afi L (net n)"

lemma nlri_wire_nonempty [simp]: "nlri_wire L n \<noteq> []"
  by (simp add: nlri_wire_def)

context ipnet_laws
begin

lemma network_cases:
  obtains (V4) a where "net_network L n = V4 a" and "unat (net_prefix_len L n) \<le> 32"
      and "ipnet_afi L n = Ipv4" and "a = clear_host (32 - unat (net_prefix_len L n)) a"
  | (V6) a where "net_network L n = V6 a" and "unat (net_prefix_len L n) \<le> 128"
      and "ipnet_afi L n = Ipv6" and "a = clear_host (128 - unat (net_prefix_len L n)) a"
proof (cases "net_network L n")
  case [simp]: (V4 a)
  show ?thesis by (rule network_V4D [OF V4], rule that(1)) (auto simp: ipnet_afi_def)
next
  case [simp]: (V6 a)
  show ?thesis by (rule network_V6D [OF V6], rule that(2)) (auto simp: ipnet_afi_def)
qed

lemma prefix_bytes_net:
  "prefix_bytes (net_prefix_len L n) (ipnet_afi L n) = Ok ((unat (net_prefix_len L n) + 7) div 8)"
  by (cases n rule: network_cases) (simp_all add: prefix_bytes_cases afi_bits_def)

lemma length_nlri_wire: "length (nlri_wire L n) = Suc ((unat (net_prefix_len L (net n)) + 7) div 8)"
  by (cases "net n" rule: network_cases) (auto simp: nlri_wire_def min_def)

lemma nlri_to_bytes_wire: "nlri_to_bytes L n = Ok (nlri_wire L n)"
proof (cases "net n" rule: network_cases)
  case V4
  then show ?thesis
    using prefix_bytes_net [of "net n"] by (simp add: nlri_to_bytes_def nlri_wire_def slice_def)
next
  case V6
  then show ?thesis
    using prefix_bytes_net [of "net n"] by (simp add: nlri_to_bytes_def nlri_wire_def slice_def)
qed

lemma nlris_to_bytes_wire: "nlris_to_bytes L ns = Ok (concat (map (nlri_wire L) ns))"
  by (induction ns) (simp_all add: nlri_to_bytes_wire)

lemma nlri_canon_V4:
  assumes "net_network L (net n) = V4 a" and "unat (net_prefix_len L (net n)) \<le> 32"
  shows "ipv4net_new L a (net_prefix_len L (net n)) = Some (net (nlri_canon L n))"
  using v4_new_Ex [OF assms(2), of a] assms(1) by (auto simp: nlri_canon_def)

lemma nlri_canon_V6:
  assumes "net_network L (net n) = V6 a" and "unat (net_prefix_len L (net n)) \<le> 128"
  shows "ipv6net_new L a (net_prefix_len L (net n)) = Some (net (nlri_canon L n))"
  using v6_new_Ex [OF assms(2), of a] assms(1) by (auto simp: nlri_canon_def)

lemma nlri_canon_parts:
  "net_addr L (net (nlri_canon L n)) = net_network L (net n)"
  "net_prefix_len L (net (nlri_canon L n)) = net_prefix_len L (net n)"
  by (cases "net n" rule: network_cases;
      auto dest!: nlri_canon_V4 nlri_canon_V6 v4_new_parts v6_new_parts)+

lemma nlri_canon_network: "net_network L (net (nlri_canon L n)) = net_network L (net n)"
  by (cases "net n" rule: network_cases) (auto simp: network_eq nlri_canon_parts)

lemma nlri_canon_id: "nlri_canon L n = n \<longleftrightarrow> net_addr L (net n) = net_network L (net n)"
  by (metis nlri_canon_parts net_eqI nlri.equality old.unit.exhaust)

lemma nlri_canon_idem [simp]: "nlri_canon L (nlri_canon L n) = nlri_canon L n"
  by (simp add: nlri_canon_id nlri_canon_parts nlri_canon_network)

lemma nlri_from_octets_wire: "nlri_from_octets L (nlri_afi L n) (nlri_wire L n) = Ok (nlri_canon L n)"
proof (cases "net n" rule: network_cases)
  case (V4 a)
  moreover from V4 have "(unat (net_prefix_len L (net n)) + 7) div 8 \<le> 4" by simp
  ultimately show ?thesis
    using to_be_clear_host [of 4 32 "unat (net_prefix_len L (net n))" a] nlri_canon_V4 [of n a]
    by (simp add: nlri_afi_def nlri_from_octets_def nlri_wire_def nlri_from_ipv4_octets_Cons
        resize_def min_def)
next
  case (V6 a)
  moreover from V6 have "(unat (net_prefix_len L (net n)) + 7) div 8 \<le> 16" by simp
  ultimately show ?thesis
    using to_be_clear_host [of 16 128 "unat (net_prefix_len L (net n))" a] nlri_canon_V6 [of n a]
    by (simp add: nlri_afi_def nlri_from_octets_def nlri_wire_def nlri_from_ipv6_octets_Cons
        resize_def min_def)
qed

lemma nlri_from_octets_parts:
  assumes "nlri_from_octets L a octets = Ok n"
  shows "nlri_afi L n = a \<and> net_prefix_len L (net n) = hd octets \<and> octets \<noteq> []
    \<and> unat (hd octets) \<le> afi_bits a"
proof (cases octets)
  case Nil
  with assms show ?thesis
    by (simp add: nlri_from_octets_def nlri_from_ipv4_octets_def nlri_from_ipv6_octets_def split: afi.splits)
next
  case [simp]: (Cons p addr)
  show ?thesis
    using assms prefix_len_max [of "net n"]
    by (cases a) (auto simp: nlri_from_octets_def nlri_from_ipv4_octets_Cons nlri_from_ipv6_octets_Cons
        nlri_afi_def ipnet_afi_def network_eq afi_bits_def
        split: if_splits option.splits dest!: v4_new_parts v6_new_parts)
qed

text \<open>Both reading loops undo the writing of a list of prefixes of one family.\<close>

lemma mp_reach_step_wire:
  assumes "nlri_afi L n = a"
  shows "mp_reach_step L a (pre @ nlri_wire L n @ post) (length pre) =
    Ok (nlri_canon L n, length (nlri_wire L n))"
proof -
  let ?p = "net_prefix_len L (net n)"
  obtain w where w: "nlri_wire L n = ?p # w" by (simp add: nlri_wire_def)
  have len: "length w = (unat ?p + 7) div 8" using length_nlri_wire [of n] w by simp
  show ?thesis
    using assms prefix_bytes_net [of "net n"] nlri_from_octets_wire [of n]
    by (simp add: mp_reach_step_def w len index_append_mid slice_def nlri_afi_def nlri_canon_parts)
qed

lemma mp_unreach_step_wire:
  assumes "nlri_afi L n = a"
  shows "mp_unreach_step L a (pre @ nlri_wire L n @ post) (length pre) =
    Ok (nlri_canon L n, length (nlri_wire L n))"
proof -
  let ?p = "net_prefix_len L (net n)"
  obtain w where w: "nlri_wire L n = ?p # w" by (simp add: nlri_wire_def)
  have len: "length w = (unat ?p + 7) div 8" using length_nlri_wire [of n] w by simp
  show ?thesis
    using assms prefix_bytes_net [of "net n"] nlri_from_octets_wire [of n]
    by (simp add: mp_unreach_step_def w len index_append_mid slice_def nlri_afi_def nlri_canon_parts)
qed

end

sublocale ipnet_laws \<subseteq> reach: item_loop "mp_reach_step L a" "mp_reach_loop L a" "\<lambda>n acc. acc" "\<lambda>i n. True"
    "nlri_wire L" "nlri_canon L" "\<lambda>n. nlri_afi L n = a" for a
  by unfold_locales (simp_all add: mp_reach_loop.simps mp_reach_step_wire)

sublocale ipnet_laws \<subseteq> unreach: item_loop "mp_unreach_step L a" "mp_unreach_loop L a" "\<lambda>n acc. acc" "\<lambda>i n. True"
    "nlri_wire L" "nlri_canon L" "\<lambda>n. nlri_afi L n = a" for a
  by unfold_locales (simp_all add: mp_unreach_loop.simps mp_unreach_step_wire)

section \<open>Multiprotocol round trips\<close>

definition ip_afi :: "ip_addr \<Rightarrow> afi" where
  "ip_afi x = (case x of V4 _ \<Rightarrow> Ipv4 | V6 _ \<Rightarrow> Ipv6)"

text \<open>The length byte of the value: everything after it, kept to eight bits.\<close>

definition mpnlri_body :: "'n ipnet_ops \<Rightarrow> 'n mpnlri \<Rightarrow> bytes" where
  "mpnlri_body L v = to_be 2 (afi_code (afi (af v))) @ safi_code (safi (af v))
     # next_hop_to_bytes (nh v) @ concat (map (nlri_wire L) (nlris v))"

definition mpunlri_body :: "'n ipnet_ops \<Rightarrow> 'n mpunlri \<Rightarrow> bytes" where
  "mpunlri_body L v = to_be 2 (afi_code (afi (un_af v))) @ safi_code (safi (un_af v))
     # concat (map (nlri_wire L) (un_nlris v))"

lemma to_be_2_cases:
  obtains a b where "to_be 2 (w :: u16) = [a, b]" and "from_be [a, b] = w"
proof -
  have "\<exists>a b. xs = [a, b]" if "length xs = 2" for xs :: bytes
    using that by (auto simp: length_Suc_conv numeral_2_eq_2)
  from this [of "to_be 2 w"] obtain a b where "to_be 2 w = [a, b]" by auto
  then show thesis using that from_be_u16 [of w] by simp
qed

lemma length_next_hop: "length (next_hop_to_bytes x) = (case ip_afi x of Ipv4 \<Rightarrow> 5 | Ipv6 \<Rightarrow> 17)"
  by (cases x) (simp_all add: ip_afi_def)

context ipnet_laws
begin

lemma mpnlri_to_bytes_body: "mpnlri_to_bytes L v = Ok (as_u8 (length (mpnlri_body L v)) # mpnlri_body L v)"
  by (simp add: mpnlri_to_bytes_def nlris_to_bytes_wire mpnlri_body_def Let_def numeral_3_eq_3)

lemma mpunlri_to_bytes_body:
  "mpunlri_to_bytes L v = Ok (as_u8 (length (mpunlri_body L v)) # mpunlri_body L v)"
  by (simp add: mpunlri_to_bytes_def nlris_to_bytes_wire mpunlri_body_def Let_def numeral_3_eq_3)

lemma reach_loop_body:
  assumes "\<forall>n \<in> set (nlris v). nlri_afi L n = a"
    and "i = 3 + length (next_hop_to_bytes (nh v))"
  shows "mp_reach_loop L a (mpnlri_body L v) (length (mpnlri_body L v)) i [] =
    Ok (map (nlri_canon L) (nlris v))"
  using reach.loop_concat_0 [OF assms(1) _ _ TrueI, where i = i and n = "length (mpnlri_body L v)" and
      pre = "to_be 2 (afi_code (afi (af v))) @ safi_code (safi (af v)) # next_hop_to_bytes (nh v)"]
    assms(2)
  by (simp add: mpnlri_body_def)

lemma mpnlri_from_bytes_body:
  assumes fam: "\<forall>n \<in> set (nlris v). nlri_afi L n = afi (af v)" "ip_afi (nh v) = afi (af v)"
    and len: "length (mpnlri_body L v) \<le> 255"
  shows "mpnlri_from_bytes L (as_u8 (length (mpnlri_body L v)) # mpnlri_body L v) =
    Ok (v\<lparr>nlris := map (nlri_canon L) (nlris v)\<rparr>)"
proof -
  let ?w = "concat (map (nlri_wire L) (nlris v))"
  obtain b0 b1 where "to_be 2 (afi_code (afi (af v))) = [b0, b1]"
    and b01: "from_be [b0, b1] = afi_code (afi (af v))"
    by (rule to_be_2_cases)
  then have body: "mpnlri_body L v =
      b0 # b1 # safi_code (safi (af v)) # next_hop_to_bytes (nh v) @ ?w"
    by (simp add: mpnlri_body_def)
  have n: "unat (as_u8 (length (mpnlri_body L v))) = length (mpnlri_body L v)"
    using len by (simp add: unat_as_u8)
  have loop: "mp_reach_loop L (afi (af v)) (mpnlri_body L v) (length (mpnlri_body L v)) i [] =
    Ok (map (nlri_canon L) (nlris v))" if "i = 3 + length (next_hop_to_bytes (nh v))" for i
    using reach_loop_body fam(1) that by blast
  have afi: "afi_from_u16 (from_be [b0, b1]) = Some (afi (af v))"
    by (simp add: b01)
  have addr4: "ipv4_addr_new (bs ! 0) (bs ! Suc 0) (bs ! 2) (bs ! 3) = x" if "bs = to_be 4 x" for bs x
    using that by (simp add: ipv4_addr_new_nth)
  show ?thesis
  proof (cases "nh v")
    case (V4 x)
    then have a: "afi (af v) = Ipv4" using fam(2) by (simp add: ip_afi_def)
    have "mpnlri_from_bytes L (as_u8 (length (mpnlri_body L v)) # mpnlri_body L v) =
      bind_outcome (mp_reach_loop L Ipv4 (mpnlri_body L v) (length (mpnlri_body L v)) 8 [])
       (\<lambda>ns. Ok \<lparr>af = \<lparr>afi = Ipv4, safi = safi (af v)\<rparr>, nh = V4 x, nlris = ns\<rparr>)"
      unfolding mpnlri_from_bytes_def list.case n Let_def
      by (simp add: body V4 read_u16_def slice_def afi a addr4)
    then show ?thesis
      using loop [of 8] V4 a by simp
  next
    case (V6 x)
    then have a: "afi (af v) = Ipv6" using fam(2) by (simp add: ip_afi_def)
    have "mpnlri_from_bytes L (as_u8 (length (mpnlri_body L v)) # mpnlri_body L v) =
      bind_outcome (mp_reach_loop L Ipv6 (mpnlri_body L v) (length (mpnlri_body L v)) 20 [])
       (\<lambda>ns. Ok \<lparr>af = \<lparr>afi = Ipv6, safi = safi (af v)\<rparr>, nh = V6 x, nlris = ns\<rparr>)"
      unfolding mpnlri_from_bytes_def list.case n Let_def
      by (simp add: body V6 read_u16_def slice_def afi a ipv6_from_bytes_16)
    then show ?thesis
      using loop [of 20] V6 a by simp
  qed
qed


lemma mpunlri_from_bytes_body:
  assumes fam: "\<forall>n \<in> set (un_nlris v). nlri_afi L n = afi (un_af v)"
    and len: "length (mpunlri_body L v) \<le> 255"
  shows "mpunlri_from_bytes L (as_u8 (length (mpunlri_body L v)) # mpunlri_body L v) =
    Ok (v\<lparr>un_nlris := map (nlri_canon L) (un_nlris v)\<rparr>)"
proof -
  let ?w = "concat (map (nlri_wire L) (un_nlris v))" and ?a = "afi (un_af v)"
  obtain b0 b1 where two: "to_be 2 (afi_code ?a) = [b0, b1]"
    and b01: "from_be [b0, b1] = afi_code ?a"
    by (rule to_be_2_cases)
  then have body: "mpunlri_body L v = [b0, b1, safi_code (safi (un_af v))] @ ?w"
    by (simp add: mpunlri_body_def)
  have n: "unat (as_u8 (length (mpunlri_body L v))) = length (mpunlri_body L v)"
    using len by (simp add: unat_as_u8)
  have "mp_unreach_loop L ?a (mpunlri_body L v) (length (mpunlri_body L v)) 3 [] =
      Ok (map (nlri_canon L) (un_nlris v))"
    unfolding body by (rule unreach.loop_concat_0 [OF fam]) simp_all
  then have "mp_unreach_loop L ?a (b0 # b1 # safi_code (safi (un_af v)) # ?w)
      (length (mpunlri_body L v)) 3 [] = Ok (map (nlri_canon L) (un_nlris v))"
    by (simp add: body)
  moreover have "afi_from_u16 (from_be [b0, b1]) = Some ?a"
    by (simp add: b01)
  ultimately show ?thesis
    unfolding mpunlri_from_bytes_def list.case n Let_def
    by (simp add: body read_u16_def slice_def)
qed

end

section \<open>Safety of the multiprotocol parsers\<close>

lemma mp_unreach_step_no_panic: "\<not> panics (mp_unreach_step L a src i)"
  by (auto simp: mp_unreach_step_def outcome_simps Let_def nlri_from_octets_no_panic)

lemma mp_unreach_loop_no_panic: "\<not> panics (mp_unreach_loop L a src n i acc)"
proof (induction L a src n i acc rule: mp_unreach_loop.induct)
  case (1 L a src n i acc)
  then show ?case
    by (subst mp_unreach_loop.simps) (auto simp: outcome_simps mp_unreach_step_no_panic)
qed

lemma mpunlri_from_bytes_no_panic: "\<not> panics (mpunlri_from_bytes L src)"
  by (cases src)
    (auto simp: mpunlri_from_bytes_def outcome_simps Let_def mp_unreach_loop_no_panic)

text \<open>The reading loop of MP_REACH_NLRI panics exactly where that of MP_UNREACH_NLRI reports that
  the data is too short, and agrees with it everywhere else.\<close>

definition too_short :: "(bgp_error, 'a) outcome \<Rightarrow> bool" where
  "too_short m \<longleftrightarrow> m = Err (Message ''Insufficient data for NLRI prefix length'')
     \<or> m = Err (Message ''Insufficient data for NLRI prefix'')"

lemma nlri_from_octets_not_too_short: "\<not> too_short (nlri_from_octets L a octets)"
  by (cases octets; cases a)
    (auto simp: too_short_def nlri_from_octets_def nlri_from_ipv4_octets_Cons
      nlri_from_ipv6_octets_Cons nlri_from_ipv4_octets_def [of L "[]"]
      nlri_from_ipv6_octets_def [of L "[]"] insufficient_octets_def split: option.splits)

lemma mp_reach_step_eq:
  "if too_short (mp_unreach_step L a src i) then panics (mp_reach_step L a src i)
   else mp_reach_step L a src i = mp_unreach_step L a src i"
proof (cases "i < length src \<and> (\<forall>b. prefix_bytes (src ! i) a = Ok b \<longrightarrow> i + b + 1 \<le> length src)")
  case True
  have "\<not> too_short (bind_outcome (nlri_from_octets L a xs) (\<lambda>n.
      bind_outcome (map_err Validation (prefix_bytes (net_prefix_len L (net n)) a)) (\<lambda>b. Ok (n, b + 1))))"
    for xs
    using nlri_from_octets_not_too_short [of L a xs]
    by (auto simp: too_short_def outcome_simps prefix_bytes_cases split: if_splits)
  with True show ?thesis
    by (auto simp: mp_unreach_step_def mp_reach_step_def index_def slice_def prefix_bytes_cases
        too_short_def split: if_splits)
next
  case False
  then show ?thesis
    by (auto simp: mp_unreach_step_def mp_reach_step_def index_def slice_def prefix_bytes_cases
        too_short_def split: if_splits)
qed

lemma too_short_bind:
  "too_short (bind_outcome m f) \<longleftrightarrow> too_short m \<or> (\<exists>x. m = Ok x \<and> too_short (f x))"
  by (cases m) (auto simp: too_short_def)

lemma mp_reach_loop_eq:
  "if too_short (mp_unreach_loop L a src n i acc) then panics (mp_reach_loop L a src n i acc)
   else mp_reach_loop L a src n i acc = mp_unreach_loop L a src n i acc"
proof (induction L a src n i acc rule: mp_unreach_loop.induct)
  case (1 L a src n i acc)
  note step = mp_reach_step_eq [of L a src i]
  show ?case
  proof (cases "i < n")
    case False
    then show ?thesis
      by (simp add: mp_reach_loop.simps mp_unreach_loop.simps too_short_def)
  next
    case True
    then have unfold: "mp_reach_loop L a src n i acc = bind_outcome (mp_reach_step L a src i)
        (\<lambda>(x, k). mp_reach_loop L a src n (i + k) (acc @ [x]))"
      "mp_unreach_loop L a src n i acc = bind_outcome (mp_unreach_step L a src i)
        (\<lambda>(x, k). mp_unreach_loop L a src n (i + k) (acc @ [x]))"
      by (simp_all add: mp_reach_loop.simps [of L a src n i acc] mp_unreach_loop.simps [of L a src n i acc])
    show ?thesis
    proof (cases "mp_unreach_step L a src i")
      case (Ok r)
      obtain x k where r: "(x, k) = r" by (cases r) simp
      have "mp_reach_step L a src i = Ok r"
        using step Ok by (simp add: too_short_def)
      then show ?thesis
        using "1.IH" [OF True Ok r] Ok by (simp add: unfold flip: r)
    next
      case (Err e)
      then show ?thesis
        using step by (auto simp: unfold too_short_def panics_bind split: if_splits)
    next
      case (Panic p)
      then show ?thesis
        using mp_unreach_step_no_panic [of L a src i] by simp
    qed
  qed
qed

end
