(* ===== verification/Attributes.thy ===== *)
theory Attributes
  imports Nlri
begin

text \<open>
  \<open>src/bgp/attributes.rs\<close>: AS paths and path attributes, their constructors, the parser
  \<open>From<Vec<u8>> for PathAttribute\<close> (which panics on anything it does not expect) and the printer.
\<close>

section \<open>Data\<close>

datatype origin_type = Igp | Egp | Incomplete

primrec origin_code :: "origin_type \<Rightarrow> u8" where
  "origin_code Igp = 0"
| "origin_code Egp = 1"
| "origin_code Incomplete = 2"

definition origin_from_u8 :: "u8 \<Rightarrow> origin_type option" where
  "origin_from_u8 n = (if n = 0 then Some Igp else if n = 1 then Some Egp
     else if n = 2 then Some Incomplete else None)"

datatype aspath_segment_type = AsSet | AsSequence

primrec segment_type_code :: "aspath_segment_type \<Rightarrow> u8" where
  "segment_type_code AsSet = 1"
| "segment_type_code AsSequence = 2"

definition segment_type_from_u8 :: "u8 \<Rightarrow> aspath_segment_type option" where
  "segment_type_from_u8 n = (if n = 1 then Some AsSet else if n = 2 then Some AsSequence else None)"

record aspath_segment =
  segment_type :: aspath_segment_type
  as_list :: "u16 list"

definition aspath_segment_len :: "aspath_segment \<Rightarrow> nat" where
  "aspath_segment_len s = (case segment_type s of AsSequence \<Rightarrow> length (as_list s) | AsSet \<Rightarrow> 1)"

definition aspath_segment_to_bytes :: "aspath_segment \<Rightarrow> bytes" where
  "aspath_segment_to_bytes s =
     segment_type_code (segment_type s) # as_u8 (length (as_list s)) # concat (map (to_be 2) (as_list s))"

type_synonym aspath = "aspath_segment list"

fun flatten_aspath :: "aspath \<Rightarrow> u16 list" where
  "flatten_aspath [] = []"
| "flatten_aspath (s # ss) = as_list s @ flatten_aspath ss"

record aggregator_value =
  last_as :: u16
  aggregator :: ipv4_addr

datatype path_attribute_type =
    PT_Origin | PT_AsPath | PT_NextHop | PT_MultiExitDisc | PT_LocalPref | PT_AtomicAggregate
  | PT_Aggregator | PT_Community | PT_OriginatorId | PT_ClusterList | PT_Dpa | PT_Advertiser
  | PT_RcidPathClusterId | PT_MPReachableNLRI | PT_MPUnreachableNLRI | PT_ExtCommunities

definition path_attribute_types :: "path_attribute_type list" where
  "path_attribute_types =
    [PT_Origin, PT_AsPath, PT_NextHop, PT_MultiExitDisc, PT_LocalPref, PT_AtomicAggregate,
     PT_Aggregator, PT_Community, PT_OriginatorId, PT_ClusterList, PT_Dpa, PT_Advertiser,
     PT_RcidPathClusterId, PT_MPReachableNLRI, PT_MPUnreachableNLRI, PT_ExtCommunities]"

text \<open>The discriminants run from 1 in the order of declaration.\<close>

definition path_attribute_type_from_u8 :: "u8 \<Rightarrow> path_attribute_type option" where
  "path_attribute_type_from_u8 n =
     (if 1 \<le> unat n \<and> unat n \<le> 16 then Some (path_attribute_types ! (unat n - 1)) else None)"

datatype 'n path_attribute_value =
    PV_Origin origin_type
  | PV_AsPath aspath
  | PV_NextHop ipv4_addr
  | PV_MultiExitDisc u32
  | PV_LocalPref u32
  | PV_AtomicAggregate
  | PV_Aggregator aggregator_value
  | PV_Community
  | PV_OriginatorId
  | PV_ClusterList
  | PV_Dpa
  | PV_Advertiser
  | PV_RcidPathClusterId
  | PV_MPReachableNLRI "'n mpnlri"
  | PV_MPUnreachableNLRI "'n mpunlri"
  | PV_ExtCommunities

record 'n path_attribute =
  optional :: bool
  transitive :: bool
  partial :: bool
  extended_length :: bool
  type_code :: path_attribute_type
  attr_value :: "'n path_attribute_value"

section \<open>Constructors\<close>

definition pa_origin :: "origin_type \<Rightarrow> 'n path_attribute" where
  "pa_origin origin = \<lparr>optional = False, transitive = True, partial = False,
     extended_length = False, type_code = PT_Origin, attr_value = PV_Origin origin\<rparr>"

definition pa_aspath :: "aspath \<Rightarrow> 'n path_attribute" where
  "pa_aspath path = \<lparr>optional = False, transitive = True, partial = False,
     extended_length = False, type_code = PT_AsPath, attr_value = PV_AsPath path\<rparr>"

definition pa_nexthop :: "ipv4_addr \<Rightarrow> 'n path_attribute" where
  "pa_nexthop hop = \<lparr>optional = False, transitive = True, partial = False,
     extended_length = False, type_code = PT_NextHop, attr_value = PV_NextHop hop\<rparr>"

definition pa_med :: "u32 \<Rightarrow> 'n path_attribute" where
  "pa_med med = \<lparr>optional = True, transitive = False, partial = False,
     extended_length = False, type_code = PT_MultiExitDisc, attr_value = PV_MultiExitDisc med\<rparr>"

definition pa_local_pref :: "u32 \<Rightarrow> 'n path_attribute" where
  "pa_local_pref pref = \<lparr>optional = True, transitive = False, partial = False,
     extended_length = False, type_code = PT_LocalPref, attr_value = PV_LocalPref pref\<rparr>"

definition pa_aggregator :: "u16 \<Rightarrow> ipv4_addr \<Rightarrow> 'n path_attribute" where
  "pa_aggregator asn agg = \<lparr>optional = True, transitive = True, partial = False,
     extended_length = False, type_code = PT_Aggregator,
     attr_value = PV_Aggregator \<lparr>last_as = asn, aggregator = agg\<rparr>\<rparr>"

definition pa_mp_reachable :: "address_family \<Rightarrow> ip_addr \<Rightarrow> 'n nlri list \<Rightarrow> 'n path_attribute" where
  "pa_mp_reachable fam hop ns = \<lparr>optional = True, transitive = False, partial = False,
     extended_length = False, type_code = PT_MPReachableNLRI,
     attr_value = PV_MPReachableNLRI \<lparr>af = fam, nh = hop, nlris = ns\<rparr>\<rparr>"

definition pa_mp_unreachable :: "address_family \<Rightarrow> 'n nlri list \<Rightarrow> 'n path_attribute" where
  "pa_mp_unreachable fam ns = \<lparr>optional = True, transitive = False, partial = False,
     extended_length = False, type_code = PT_MPUnreachableNLRI,
     attr_value = PV_MPUnreachableNLRI \<lparr>un_af = fam, un_nlris = ns\<rparr>\<rparr>"

definition is_transitive :: "'n path_attribute \<Rightarrow> bool" where
  "is_transitive a = transitive a"

section \<open>The parser\<close>

primrec read_as_list :: "bytes \<Rightarrow> nat \<Rightarrow> nat \<Rightarrow> (bgp_error, u16 list) outcome" where
  "read_as_list src j 0 = Ok []"
| "read_as_list src j (Suc k) =
     bind_outcome (read_u16 src j) (\<lambda>asn.
     bind_outcome (read_as_list src (j + 2) k) (\<lambda>rest. Ok (asn # rest)))"

text \<open>One turn of the AS path loop at index \<open>i\<close> (the source's \<open>i + offset\<close>): the segment there and
  the bytes it takes.\<close>

definition segment_step :: "bytes \<Rightarrow> nat \<Rightarrow> (bgp_error, aspath_segment \<times> nat) outcome" where
  "segment_step src i =
     bind_outcome (index src i) (\<lambda>t.
     bind_outcome (unwrap (segment_type_from_u8 t)) (\<lambda>ty.
     bind_outcome (index src (i + 1)) (\<lambda>len.
     bind_outcome (read_as_list src (i + 2) (unat len)) (\<lambda>asns.
     Ok (\<lparr>segment_type = ty, as_list = asns\<rparr>, 2 + 2 * unat len)))))"

lemma segment_step_bounds:
  "segment_step src i = Ok (s, k) \<Longrightarrow> i < length src \<and> 2 \<le> k"
  by (auto simp: segment_step_def outcome_simps)

function aspath_loop ::
    "build \<Rightarrow> bytes \<Rightarrow> nat \<Rightarrow> nat \<Rightarrow> aspath \<Rightarrow> (bgp_error, aspath) outcome" where
  "aspath_loop p src i total_len acc =
     (if 0 < total_len
      then bind_outcome (segment_step src i) (\<lambda>(s, k).
           bind_outcome (sub_usize p total_len k) (\<lambda>rest. aspath_loop p src (i + k) rest (acc @ [s])))
      else Ok acc)"
  by pat_completeness auto
termination
  by (relation "measure (\<lambda>(p, src, i, total_len, acc). length src - i)")
    (auto dest: segment_step_bounds)

declare aspath_loop.simps [simp del]

primrec unwrap_or :: "'a \<Rightarrow> ('e, 'a) outcome \<Rightarrow> ('e, 'a) outcome" where
  "unwrap_or d (Ok x) = Ok x"
| "unwrap_or d (Err e) = Ok d"
| "unwrap_or d (Panic p) = Panic p"

definition attr_value_from_bytes ::
    "build \<Rightarrow> 'n ipnet_ops \<Rightarrow> bool \<Rightarrow> path_attribute_type \<Rightarrow> bytes
      \<Rightarrow> (bgp_error, 'n path_attribute_value) outcome" where
  "attr_value_from_bytes p L ext ty src =
     (case ty of
        PT_Origin \<Rightarrow> bind_outcome (index src 3) (\<lambda>b.
          bind_outcome (unwrap (origin_from_u8 b)) (\<lambda>o1. Ok (PV_Origin o1)))
      | PT_AsPath \<Rightarrow>
          bind_outcome
            (if ext then bind_outcome (read_u16 src 2) (\<lambda>l. Ok (unat l, 4))
             else bind_outcome (index src 2) (\<lambda>l. Ok (unat l, 3)))
            (\<lambda>(total_len, i). bind_outcome (aspath_loop p src i total_len [])
              (\<lambda>asp. Ok (PV_AsPath asp)))
      | PT_NextHop \<Rightarrow>
          bind_outcome (index src 3) (\<lambda>a. bind_outcome (index src 4) (\<lambda>b.
          bind_outcome (index src 5) (\<lambda>c. bind_outcome (index src 6) (\<lambda>d.
          Ok (PV_NextHop (ipv4_addr_new a b c d))))))
      | PT_MultiExitDisc \<Rightarrow> bind_outcome (read_u32 src 3) (\<lambda>m. Ok (PV_MultiExitDisc m))
      | PT_LocalPref \<Rightarrow> bind_outcome (read_u32 src 3) (\<lambda>l. Ok (PV_LocalPref l))
      | PT_AtomicAggregate \<Rightarrow> Ok PV_AtomicAggregate
      | PT_Aggregator \<Rightarrow>
          bind_outcome (read_u16 src 3) (\<lambda>asn.
          bind_outcome (index src 5) (\<lambda>a. bind_outcome (index src 6) (\<lambda>b.
          bind_outcome (index src 7) (\<lambda>c. bind_outcome (index src 8) (\<lambda>d.
          Ok (PV_Aggregator \<lparr>last_as = asn, aggregator = ipv4_addr_new a b c d\<rparr>))))))
      | PT_Community \<Rightarrow> Ok PV_Community
      | PT_OriginatorId \<Rightarrow> Ok PV_OriginatorId
      | PT_ClusterList \<Rightarrow> Ok PV_ClusterList
      | PT_Dpa \<Rightarrow> Ok PV_Dpa
      | PT_Advertiser \<Rightarrow> Ok PV_Advertiser
      | PT_RcidPathClusterId \<Rightarrow> Ok PV_RcidPathClusterId
      | PT_MPReachableNLRI \<Rightarrow>
          bind_outcome (slice_from src 2) (\<lambda>v.
          bind_outcome (unwrap_or mpnlri_default (mpnlri_from_bytes L v)) (\<lambda>m.
          Ok (PV_MPReachableNLRI m)))
      | PT_MPUnreachableNLRI \<Rightarrow>
          bind_outcome (slice_from src 2) (\<lambda>v.
          bind_outcome (unwrap_or mpunlri_default (mpunlri_from_bytes L v)) (\<lambda>m.
          Ok (PV_MPUnreachableNLRI m)))
      | PT_ExtCommunities \<Rightarrow> Ok PV_ExtCommunities)"

definition path_attribute_from_bytes ::
    "build \<Rightarrow> 'n ipnet_ops \<Rightarrow> bytes \<Rightarrow> (bgp_error, 'n path_attribute) outcome" where
  "path_attribute_from_bytes p L src =
     bind_outcome (index src 0) (\<lambda>b.
     let flags = drop_bit 4 b;
         ext = (flags AND 1 \<noteq> 0); part = (flags AND 2 \<noteq> 0);
         tr = (flags AND 4 \<noteq> 0); opt = (flags AND 8 \<noteq> 0)
     in bind_outcome (index src 1) (\<lambda>c.
        bind_outcome (unwrap (path_attribute_type_from_u8 c)) (\<lambda>ty.
        bind_outcome (attr_value_from_bytes p L ext ty src) (\<lambda>v.
        Ok \<lparr>optional = opt, transitive = tr, partial = part, extended_length = ext,
            type_code = ty, attr_value = v\<rparr>))))"

section \<open>The printer\<close>

fun attr_value_to_bytes :: "'n ipnet_ops \<Rightarrow> 'n path_attribute_value \<Rightarrow> (bgp_error, u8 \<times> bytes) outcome"
  where
  "attr_value_to_bytes L (PV_Origin v) = Ok (1, [origin_code v])"
| "attr_value_to_bytes L (PV_AsPath v) = Ok (2, concat (map aspath_segment_to_bytes v))"
| "attr_value_to_bytes L (PV_NextHop v) = Ok (3, to_be 4 v)"
| "attr_value_to_bytes L (PV_MultiExitDisc v) = Ok (4, to_be 4 v)"
| "attr_value_to_bytes L (PV_LocalPref v) = Ok (5, to_be 4 v)"
| "attr_value_to_bytes L PV_AtomicAggregate = Ok (6, [])"
| "attr_value_to_bytes L (PV_Aggregator v) = Ok (7, to_be 2 (last_as v) @ to_be 4 (aggregator v))"
| "attr_value_to_bytes L PV_Community = Ok (8, [])"
| "attr_value_to_bytes L PV_OriginatorId = Ok (9, [])"
| "attr_value_to_bytes L PV_ClusterList = Ok (10, [])"
| "attr_value_to_bytes L PV_Dpa = Ok (11, [])"
| "attr_value_to_bytes L PV_Advertiser = Ok (12, [])"
| "attr_value_to_bytes L PV_RcidPathClusterId = Ok (13, [])"
| "attr_value_to_bytes L (PV_MPReachableNLRI v) =
     bind_outcome (mpnlri_to_bytes L v) (\<lambda>bs. Ok (14, bs))"
| "attr_value_to_bytes L (PV_MPUnreachableNLRI v) =
     bind_outcome (mpunlri_to_bytes L v) (\<lambda>bs. Ok (15, bs))"
| "attr_value_to_bytes L PV_ExtCommunities = Ok (16, [])"

definition attr_flags :: "bool \<Rightarrow> bool \<Rightarrow> bool \<Rightarrow> bool \<Rightarrow> u8" where
  "attr_flags ext part tr opt =
     push_bit 4 ((if ext then 1 else 0) OR (if part then 2 else 0) OR (if tr then 4 else 0)
       OR (if opt then 8 else 0))"

definition path_attribute_to_bytes :: "'n ipnet_ops \<Rightarrow> 'n path_attribute \<Rightarrow> (bgp_error, bytes) outcome"
  where
  "path_attribute_to_bytes L val =
     bind_outcome (attr_value_to_bytes L (attr_value val)) (\<lambda>(code, val_bytes).
       let val_len = length val_bytes;
           ext = 255 < val_len;
           len_bytes = (if ext then [as_u8 (val_len div 256), as_u8 val_len] else [as_u8 val_len])
       in Ok (attr_flags ext (partial val) (transitive val) (optional val) # code # len_bytes @ val_bytes))"

section \<open>Enumerations and flags\<close>

lemma origin_from_u8_code [simp]: "origin_from_u8 (origin_code x) = Some x"
  by (cases x) (simp_all add: origin_from_u8_def)

lemma segment_type_from_u8_code [simp]: "segment_type_from_u8 (segment_type_code x) = Some x"
  by (cases x) (simp_all add: segment_type_from_u8_def)

lemma attr_flags_bits:
  "(drop_bit 4 (attr_flags e p t opt) AND 1 \<noteq> 0) = e"
  "(drop_bit 4 (attr_flags e p t opt) AND 2 \<noteq> 0) = p"
  "(drop_bit 4 (attr_flags e p t opt) AND 4 \<noteq> 0) = t"
  "(drop_bit 4 (attr_flags e p t opt) AND 8 \<noteq> 0) = opt"
  by (cases e; cases p; cases t; cases opt; simp add: attr_flags_def)+

fun value_type :: "'n path_attribute_value \<Rightarrow> path_attribute_type" where
  "value_type (PV_Origin _) = PT_Origin"
| "value_type (PV_AsPath _) = PT_AsPath"
| "value_type (PV_NextHop _) = PT_NextHop"
| "value_type (PV_MultiExitDisc _) = PT_MultiExitDisc"
| "value_type (PV_LocalPref _) = PT_LocalPref"
| "value_type PV_AtomicAggregate = PT_AtomicAggregate"
| "value_type (PV_Aggregator _) = PT_Aggregator"
| "value_type PV_Community = PT_Community"
| "value_type PV_OriginatorId = PT_OriginatorId"
| "value_type PV_ClusterList = PT_ClusterList"
| "value_type PV_Dpa = PT_Dpa"
| "value_type PV_Advertiser = PT_Advertiser"
| "value_type PV_RcidPathClusterId = PT_RcidPathClusterId"
| "value_type (PV_MPReachableNLRI _) = PT_MPReachableNLRI"
| "value_type (PV_MPUnreachableNLRI _) = PT_MPUnreachableNLRI"
| "value_type PV_ExtCommunities = PT_ExtCommunities"

lemma attr_value_code:
  "attr_value_to_bytes L v = Ok (c, bs) \<Longrightarrow> path_attribute_type_from_u8 c = Some (value_type v)"
  by (cases v) (auto simp: path_attribute_type_from_u8_def path_attribute_types_def outcome_simps)

section \<open>AS paths\<close>

lemma read_as_list_concat:
  "read_as_list (pre @ concat (map (to_be 2) asns) @ post) (length pre) (length asns) = Ok asns"
proof (induction asns arbitrary: pre)
  case Nil
  then show ?case by simp
next
  case (Cons a asns)
  show ?case
    using Cons.IH [of "pre @ to_be 2 a"] by (simp add: read_u16_append)
qed

definition valid_segment :: "aspath_segment \<Rightarrow> bool" where
  "valid_segment s \<longleftrightarrow> length (as_list s) \<le> 255"

lemma length_asns_bytes [simp]: "length (concat (map (to_be 2) asns)) = 2 * length asns"
  by (induction asns) simp_all

lemma segment_step_enc:
  assumes "valid_segment s"
  shows "segment_step (pre @ aspath_segment_to_bytes s @ post) (length pre) =
    Ok (s, length (aspath_segment_to_bytes s))"
proof -
  let ?l = "concat (map (to_be 2) (as_list s))" and ?t = "segment_type_code (segment_type s)"
    and ?n = "as_u8 (length (as_list s))"
  have n: "unat ?n = length (as_list s)"
    using assms by (simp add: unat_as_u8 valid_segment_def)
  show ?thesis
    using read_as_list_concat [of "pre @ [?t, ?n]" "as_list s" post]
    by (simp add: segment_step_def aspath_segment_to_bytes_def n index_def nth_append)
qed

interpretation aspath: item_loop segment_step "\<lambda>src n i acc. aspath_loop p src i (n - i) acc"
    "\<lambda>n acc. acc" "\<lambda>i n. True" aspath_segment_to_bytes "\<lambda>s. s" valid_segment for p
proof
  show "aspath_loop p src n (n - n) acc = Ok acc" for src n acc
    by (simp add: aspath_loop.simps)
  show "aspath_loop p src i (n - i) acc = aspath_loop p src (i + k) (n - (i + k)) (acc @ [x])"
    if "i < n" "segment_step src i = Ok (x, k)" "i + k \<le> n" for src n i acc x k
    using that by (subst aspath_loop.simps) simp
qed (simp_all add: segment_step_enc, simp add: aspath_segment_to_bytes_def)

lemma aspath_loop_enc:
  assumes "\<forall>s \<in> set path. valid_segment s"
  shows "aspath_loop p (pre @ concat (map aspath_segment_to_bytes path)) (length pre)
    (length (concat (map aspath_segment_to_bytes path))) [] = Ok path"
  using aspath.loop_concat_0 [OF assms refl refl TrueI, of p pre] by simp

section \<open>The build does not matter for AS paths\<close>

lemma read_as_list_bound: "read_as_list src j k = Ok xs \<Longrightarrow> 0 < k \<Longrightarrow> j + 2 * k \<le> length src"
  by (induction k arbitrary: j xs) (fastforce simp: outcome_simps)+

lemma segment_step_fits: "segment_step src i = Ok (s, k) \<Longrightarrow> i + k \<le> length src"
  by (auto simp: segment_step_def outcome_simps dest!: read_as_list_bound)

lemma read_as_list_no_Err: "read_as_list src j k \<noteq> Err e"
  by (induction k arbitrary: j) (auto simp: outcome_simps)

lemma segment_step_no_Err: "segment_step src i \<noteq> Err e"
  by (auto simp: segment_step_def outcome_simps read_as_list_no_Err unwrap_def split: option.splits)

lemma aspath_loop_too_long:
  assumes "0 < total_len" and "length src < i + total_len"
  shows "panics (aspath_loop p src i total_len acc)"
  using assms
proof (induction p src i total_len acc rule: aspath_loop.induct)
  case (1 p src i total_len acc)
  show ?case
  proof (cases "segment_step src i")
    case (Ok r)
    obtain s k where r: "r = (s, k)" by (cases r)
    have k: "k < total_len" "2 \<le> k"
      using segment_step_fits [of src i s k] segment_step_bounds [of src i s k] Ok r "1.prems" by auto
    have "panics (aspath_loop p src (i + k) (total_len - k) (acc @ [s]))"
      using "1.prems" k by (intro "1.IH" [OF _ Ok r [symmetric]]) auto
    with "1.prems" k Ok r show ?thesis
      by (subst aspath_loop.simps) simp
  next
    case (Err e)
    then show ?thesis by (simp add: segment_step_no_Err)
  next
    case (Panic q)
    then show ?thesis using "1.prems" by (subst aspath_loop.simps) simp
  qed
qed

text \<open>An underflow of the remaining length ends in a panic in either build.\<close>

lemma aspath_loop_build:
  assumes "length src < 2 ^ 64"
  shows "agree (aspath_loop Release src i n acc) (aspath_loop Debug src i n acc)"
  using assms
proof (induction Debug src i n acc rule: aspath_loop.induct)
  case (1 src i n acc)
  show ?case
  proof (cases "0 < n")
    case pos: True
    have "agree (bind_outcome (sub_usize Release n k) (\<lambda>m. aspath_loop Release src (i + k) m (acc @ [s])))
        (bind_outcome (sub_usize Debug n k) (\<lambda>m. aspath_loop Debug src (i + k) m (acc @ [s])))"
      if r: "segment_step src i = Ok (s, k)" for s k
    proof (cases "n < k")
      case True
      then have "panics (aspath_loop Release src (i + k) (2 ^ 64 + n - k) (acc @ [s]))"
        using segment_step_fits [OF r] "1.prems" by (intro aspath_loop_too_long) auto
      with True show ?thesis by (simp add: agree_def sub_usize_def)
    next
      case False
      then show ?thesis
        using "1.hyps" [OF pos r refl _ "1.prems", of "n - k"] by simp
    qed
    then show ?thesis
      unfolding aspath_loop.simps [of _ src i n acc] if_P [OF pos]
      by (intro agree_bind agree_refl) (auto split: prod.splits)
  qed (simp add: aspath_loop.simps)
qed

lemma attr_value_build:
  assumes "length src < 2 ^ 64"
  shows "agree (attr_value_from_bytes Release L ext ty src) (attr_value_from_bytes Debug L ext ty src)"
  using aspath_loop_build [OF assms]
  by (cases ty) (auto simp: attr_value_from_bytes_def split: prod.splits intro!: agree_bind)

lemma path_attribute_build:
  assumes "length src < 2 ^ 64"
  shows "agree (path_attribute_from_bytes Release L src) (path_attribute_from_bytes Debug L src)"
  using attr_value_build [OF assms]
  by (auto simp: path_attribute_from_bytes_def Let_def intro!: agree_bind)

section \<open>Round trip\<close>

text \<open>The attributes the printer and the parser agree on: the type code is the one of the value,
  every AS path segment counts its members in one byte, the value fits its length field, and the
  value is not a multiprotocol one (whose length the printer writes twice, see below).\<close>

fun valid_value :: "'n path_attribute_value \<Rightarrow> bool" where
  "valid_value (PV_AsPath path) \<longleftrightarrow> (\<forall>s \<in> set path. valid_segment s)
     \<and> length (concat (map aspath_segment_to_bytes path)) < 65536"
| "valid_value (PV_MPReachableNLRI _) \<longleftrightarrow> False"
| "valid_value (PV_MPUnreachableNLRI _) \<longleftrightarrow> False"
| "valid_value _ \<longleftrightarrow> True"

definition valid_attr :: "'n path_attribute \<Rightarrow> bool" where
  "valid_attr a \<longleftrightarrow> type_code a = value_type (attr_value a) \<and> valid_value (attr_value a)"

fun value_len :: "'n path_attribute_value \<Rightarrow> nat" where
  "value_len (PV_Origin _) = 1"
| "value_len (PV_AsPath path) = length (concat (map aspath_segment_to_bytes path))"
| "value_len (PV_NextHop _) = 4"
| "value_len (PV_MultiExitDisc _) = 4"
| "value_len (PV_LocalPref _) = 4"
| "value_len (PV_Aggregator _) = 6"
| "value_len _ = 0"

lemma short_value_roundtrip:
  assumes "valid_value v" and "value_type v \<noteq> PT_AsPath" and "attr_value_to_bytes L v = Ok (c, bs)"
  shows "attr_value_from_bytes p L ext (value_type v) (f # c # l # bs) = Ok v"
proof (cases v)
  case (PV_NextHop x)
  with assms show ?thesis
    by (auto simp: attr_value_from_bytes_def index_def ipv4_addr_new_nth)
next
  case (PV_MultiExitDisc x)
  with assms show ?thesis
    by (auto simp: attr_value_from_bytes_def read_u32_def slice_def)
next
  case (PV_LocalPref x)
  with assms show ?thesis
    by (auto simp: attr_value_from_bytes_def read_u32_def slice_def)
next
  case (PV_Aggregator x)
  with assms show ?thesis
    by (auto simp: attr_value_from_bytes_def read_u16_def slice_def index_def ipv4_addr_new_nth nth_append)
qed (use assms in \<open>auto simp: attr_value_from_bytes_def index_def\<close>)

lemma length_attr_value: "valid_value v \<Longrightarrow> attr_value_to_bytes L v = Ok (c, bs) \<Longrightarrow> length bs = value_len v"
  by (cases v) auto

lemma unat_two_bytes: "n < 65536 \<Longrightarrow> unat (from_be [as_u8 (n div 256), as_u8 n] :: u16) = n"
proof -
  assume n: "n < 65536"
  have "be_nat [as_u8 (n div 256), as_u8 n] = n div 256 mod 256 * 256 + n mod 256"
    by (simp add: be_nat_def unat_as_u8)
  also have "\<dots> = n" using n by simp
  finally show ?thesis using n by (simp add: from_be_def unat_of_nat)
qed

lemma aspath_value_roundtrip:
  assumes "valid_value (PV_AsPath path)" and "bs = concat (map aspath_segment_to_bytes path)"
    and "n = length bs" and "lb = (if ext then [as_u8 (n div 256), as_u8 n] else [as_u8 n])"
    and "\<not> ext \<Longrightarrow> n < 256"
  shows "attr_value_from_bytes p L ext PT_AsPath (f # c # lb @ bs) = Ok (PV_AsPath path)"
proof -
  have segs: "\<forall>s \<in> set path. valid_segment s" and n: "n < 65536"
    using assms by auto
  have loop: "aspath_loop p (pre @ bs) i n [] = Ok path" if "i = length pre" for pre i
    using that aspath_loop_enc [OF segs] assms by simp
  show ?thesis
  proof (cases ext)
    case True
    then show ?thesis
      using loop [of 4 "[f, c, as_u8 (n div 256), as_u8 n]"] unat_two_bytes [OF n] assms(4)
      by (simp add: attr_value_from_bytes_def read_u16_def slice_def)
  next
    case False
    then show ?thesis
      using loop [of 3 "[f, c, as_u8 n]"] assms(4,5)
      by (simp add: attr_value_from_bytes_def index_def unat_as_u8)
  qed
qed

lemma path_attribute_roundtrip_aux:
  assumes "valid_attr a" and "path_attribute_to_bytes L a = Ok bs"
  shows "path_attribute_from_bytes p L bs = Ok (a\<lparr>extended_length := 255 < value_len (attr_value a)\<rparr>)"
proof -
  obtain c vb where enc: "attr_value_to_bytes L (attr_value a) = Ok (c, vb)"
    using assms(2) by (auto simp: path_attribute_to_bytes_def outcome_simps)
  have len: "length vb = value_len (attr_value a)"
    using length_attr_value enc assms(1) by (auto simp: valid_attr_def)
  let ?n = "length vb" and ?v = "attr_value a"
  let ?lb = "if 255 < ?n then [as_u8 (?n div 256), as_u8 ?n] else [as_u8 ?n]"
  let ?f = "attr_flags (255 < ?n) (partial a) (transitive a) (optional a)"
  have bs: "bs = ?f # c # ?lb @ vb"
    using assms(2) by (simp add: path_attribute_to_bytes_def enc Let_def)
  have val: "attr_value_from_bytes p L (255 < ?n) (value_type ?v) (?f # c # ?lb @ vb) = Ok ?v"
  proof (cases "value_type ?v = PT_AsPath")
    case True
    then obtain path where path: "?v = PV_AsPath path" by (cases ?v) auto
    then have vb: "vb = concat (map aspath_segment_to_bytes path)" using enc by simp
    show ?thesis
      unfolding path value_type.simps
      by (rule aspath_value_roundtrip [OF _ vb refl refl])
        (use assms(1) in \<open>simp_all add: valid_attr_def path\<close>)
  next
    case False
    then have "\<not> 255 < ?n" using assms(1) by (cases ?v) (auto simp: len valid_attr_def)
    then show ?thesis
      using short_value_roundtrip [OF _ False enc, of p False ?f "as_u8 ?n"] assms(1)
      by (simp add: valid_attr_def)
  qed
  have idx: "index bs 0 = Ok ?f" "index bs 1 = Ok c" unfolding bs by (simp_all add: index_def)
  show ?thesis
    unfolding path_attribute_from_bytes_def idx bind_outcome.simps Let_def attr_flags_bits
      attr_value_code [OF enc] unwrap_simps
    using val assms(1) by (simp add: bs len valid_attr_def)
qed

lemma path_attribute_to_bytes_Ok: "valid_attr a \<Longrightarrow> \<exists>bs. path_attribute_to_bytes L a = Ok bs"
  by (cases "attr_value a") (auto simp: path_attribute_to_bytes_def valid_attr_def Let_def)

section \<open>Multiprotocol attributes\<close>

lemma from_be_u16_iff: "from_be [x, y] = (w :: u16) \<longleftrightarrow> [x, y] = to_be 2 w"
  using to_be_from_be [of "[x, y]" 2, where ?'a = 16] by auto

lemma to_be_2_small: "to_be 2 (1 :: u16) = [0, 1]" "to_be 2 (2 :: u16) = [0, 2]"
  by (simp_all add: to_be_def nat_be_numeral)

lemma afi_from_u16_be: "afi_from_u16 (from_be [x, y]) = None \<longleftrightarrow> x \<noteq> 0 \<or> y \<noteq> 1 \<and> y \<noteq> 2"
  by (auto simp: afi_from_u16_def from_be_u16_iff to_be_2_small)

lemma to_be_afi: "to_be 2 (afi_code a) = [0, case a of Ipv4 \<Rightarrow> 1 | Ipv6 \<Rightarrow> 2]"
  by (cases a) (simp_all add: to_be_2_small)

text \<open>A value whose second and third byte are not an address family is not parsed at all.\<close>

lemma mp_bad_afi:
  assumes "x \<noteq> 0 \<or> y \<noteq> 1 \<and> y \<noteq> 2" and "4 \<le> length (x # y # src)"
  shows "unwrap_or mpnlri_default (mpnlri_from_bytes L (l # x # y # src)) = Ok mpnlri_default"
    and "unwrap_or mpunlri_default (mpunlri_from_bytes L (l # x # y # src)) = Ok mpunlri_default"
  using assms afi_from_u16_be [of x y]
  by (auto simp: mpnlri_from_bytes_def mpunlri_from_bytes_def Let_def read_u16_def slice_def)

lemma as_u8_Suc: "as_u8 (Suc n) = as_u8 n + 1"
  by (simp add: as_u8_def)

lemma as_u8_double_length: "as_u8 (Suc n) \<noteq> 0 \<or> as_u8 n \<noteq> 1 \<and> as_u8 n \<noteq> 2"
  by (auto simp: as_u8_Suc)

lemma as_u8_nonzero: "0 < n \<Longrightarrow> n < 256 \<Longrightarrow> as_u8 n \<noteq> 0"
  by (simp add: word_unat_eq_iff unat_as_u8)

text \<open>What the printer writes for a multiprotocol value: the length of the attribute, then the
  value with a length byte of its own.  The parser expects only one of the two.\<close>

lemma mp_double_length:
  assumes "body = 0 # y # rest" and "2 \<le> length rest"
    and "n = length (as_u8 (length body) # body)"
    and "lb = (if 255 < n then [as_u8 (n div 256), as_u8 n] else [as_u8 n])"
  shows "unwrap_or mpnlri_default (mpnlri_from_bytes L (lb @ as_u8 (length body) # body)) = Ok mpnlri_default"
    and "unwrap_or mpunlri_default (mpunlri_from_bytes L (lb @ as_u8 (length body) # body)) = Ok mpunlri_default"
proof -
  let ?b = "as_u8 (length body)"
  have ext: "as_u8 n \<noteq> 0 \<or> ?b \<noteq> 1 \<and> ?b \<noteq> 2"
    using as_u8_double_length [of "length body"] assms(3) by simp
  have short: "\<not> 255 < n \<Longrightarrow> ?b \<noteq> 0"
    using assms(1,3) by (intro as_u8_nonzero) simp_all
  show "unwrap_or mpnlri_default (mpnlri_from_bytes L (lb @ ?b # body)) = Ok mpnlri_default"
  proof (cases "255 < n")
    case True
    then show ?thesis
      using mp_bad_afi(1) [OF ext, of body L "as_u8 (n div 256)"] assms by simp
  next
    case False
    then show ?thesis
      using mp_bad_afi(1) [of ?b 0 "y # rest" L "as_u8 n"] short assms by simp
  qed
  show "unwrap_or mpunlri_default (mpunlri_from_bytes L (lb @ ?b # body)) = Ok mpunlri_default"
  proof (cases "255 < n")
    case True
    then show ?thesis
      using mp_bad_afi(2) [OF ext, of body L "as_u8 (n div 256)"] assms by simp
  next
    case False
    then show ?thesis
      using mp_bad_afi(2) [of ?b 0 "y # rest" L "as_u8 n"] short assms by simp
  qed
qed

definition default_route :: "'n ipnet_ops \<Rightarrow> afi \<Rightarrow> 'n nlri" where
  "default_route L a = \<lparr>net = the (case a of Ipv4 \<Rightarrow> ipv4net_new L 0 0 | Ipv6 \<Rightarrow> ipv6net_new L 0 0)\<rparr>"

context ipnet_laws
begin

lemma default_route_parts:
  "net_addr L (net (default_route L a)) = (case a of Ipv4 \<Rightarrow> V4 0 | Ipv6 \<Rightarrow> V6 0)"
  "net_prefix_len L (net (default_route L a)) = 0"
proof -
  obtain n4 n6 where "ipv4net_new L 0 0 = Some n4" "ipv6net_new L 0 0 = Some n6"
    using v4_new_Ex [of 0 0] v6_new_Ex [of 0 0] by auto
  then show "net_addr L (net (default_route L a)) = (case a of Ipv4 \<Rightarrow> V4 0 | Ipv6 \<Rightarrow> V6 0)"
    and "net_prefix_len L (net (default_route L a)) = 0"
    using v4_new_parts v6_new_parts by (cases a; simp add: default_route_def)+
qed

lemma clear_host_0 [simp]: "clear_host k 0 = 0"
  by (simp add: clear_host_def)

lemma default_route_wire: "nlri_wire L (default_route L a) = [0]"
  and default_route_afi: "nlri_afi L (default_route L a) = a"
  and default_route_canon: "nlri_canon L (default_route L a) = default_route L a"
  by (cases a; simp add: nlri_wire_def nlri_afi_def ipnet_afi_def nlri_canon_id network_eq default_route_parts)+

lemma mp_reach_reserved_byte:
  assumes "\<forall>n \<in> set ns. nlri_afi L n = a" and "ip_afi hop = a"
    and body: "body = to_be 2 (afi_code a) @ safi_code s # next_hop_to_bytes hop @ 0 # concat (map (nlri_wire L) ns)"
    and "length body \<le> 255"
  shows "mpnlri_from_bytes L (as_u8 (length body) # body) =
    Ok \<lparr>af = \<lparr>afi = a, safi = s\<rparr>, nh = hop, nlris = default_route L a # map (nlri_canon L) ns\<rparr>"
proof -
  let ?v = "\<lparr>af = \<lparr>afi = a, safi = s\<rparr>, nh = hop, nlris = default_route L a # ns\<rparr>"
  have "mpnlri_body L ?v = body"
    by (simp add: mpnlri_body_def body default_route_wire)
  then show ?thesis
    using mpnlri_from_bytes_body [of ?v] assms(1,2,4)
    by (simp add: default_route_afi default_route_canon)
qed

lemma mpnlri_body_Cons: "\<exists>y r. mpnlri_body L v = 0 # y # r \<and> 2 \<le> length r"
  by (cases "nh v") (simp_all add: mpnlri_body_def to_be_afi)

lemma mp_attr_lost:
  assumes "type_code a = PT_MPReachableNLRI" and "attr_value a = PV_MPReachableNLRI v"
    and "path_attribute_to_bytes L a = Ok bs"
  shows "path_attribute_from_bytes p L bs =
      Ok (a\<lparr>extended_length := 255 < Suc (length (mpnlri_body L v)),
            attr_value := PV_MPReachableNLRI mpnlri_default\<rparr>)"
proof -
  let ?b = "mpnlri_body L v" and ?n = "Suc (length (mpnlri_body L v))"
  let ?lb = "if 255 < ?n then [as_u8 (?n div 256), as_u8 ?n] else [as_u8 ?n]"
  let ?f = "attr_flags (255 < ?n) (partial a) (transitive a) (optional a)"
  have bs: "bs = ?f # 14 # ?lb @ as_u8 (length ?b) # ?b"
    using assms by (simp add: path_attribute_to_bytes_def mpnlri_to_bytes_body Let_def cong: if_cong)
  obtain y r where "?b = 0 # y # r" and "2 \<le> length r"
    using mpnlri_body_Cons by blast
  then have val: "unwrap_or mpnlri_default (mpnlri_from_bytes L (?lb @ as_u8 (length ?b) # ?b)) =
      Ok mpnlri_default"
    by (rule mp_double_length(1) [where n = ?n]) simp_all
  have idx: "index bs 0 = Ok ?f" "index bs 1 = Ok 14"
    and src: "slice_from bs 2 = Ok (?lb @ as_u8 (length ?b) # ?b)"
    unfolding bs by (simp_all add: index_def slice_from_Ok)
  have ty: "path_attribute_type_from_u8 14 = Some PT_MPReachableNLRI"
    by (simp add: path_attribute_type_from_u8_def path_attribute_types_def)
  show ?thesis
    unfolding path_attribute_from_bytes_def idx bind_outcome.simps Let_def attr_flags_bits ty unwrap_simps
      attr_value_from_bytes_def path_attribute_type.case src val
    by (simp add: assms(1))
qed

end
end
