(* ===== verification/Rib.thy ===== *)
theory Rib
  imports Ordering Attributes
begin

text \<open>
  \<open>src/rib.rs\<close>: the attributes a route carries, how they are read from and turned into path
  attributes, and the ranking of routes.  Instants (\<open>recv_time\<close>) are numbers.
\<close>

section \<open>Data\<close>

datatype path_type = External | Internal
datatype peering_type = Ibgp | Ebgp

record route_attributes =
  as_path :: aspath
  origin :: origin_type
  next_hop :: ip_addr
  local_pref :: "u32 option"
  multi_exit_disc :: "u32 option"
  path_type :: path_type
  peer_type :: peering_type
  recv_time :: nat
  peer_rid :: u32
  peer_ip :: ip_addr

record 'n rib_update =
  ru_nlris :: "'n nlri list"
  ru_attributes :: route_attributes

type_synonym 'n rib = "'n nlri \<rightharpoonup> route_attributes list"

text \<open>The enumerations are ordered as they are declared.\<close>

primrec path_type_rank :: "path_type \<Rightarrow> nat" where
  "path_type_rank External = 0"
| "path_type_rank Internal = 1"

primrec peering_type_rank :: "peering_type \<Rightarrow> nat" where
  "peering_type_rank Ibgp = 0"
| "peering_type_rank Ebgp = 1"

primrec origin_rank :: "origin_type \<Rightarrow> nat" where
  "origin_rank Igp = 0"
| "origin_rank Egp = 1"
| "origin_rank Incomplete = 2"

instantiation path_type :: linorder
begin

definition less_path_type :: "path_type \<Rightarrow> path_type \<Rightarrow> bool" where
  "less_path_type x y \<longleftrightarrow> path_type_rank x < path_type_rank y"

definition less_eq_path_type :: "path_type \<Rightarrow> path_type \<Rightarrow> bool" where
  "less_eq_path_type x y \<longleftrightarrow> path_type_rank x \<le> path_type_rank y"

instance
proof
  show "x = y" if "x \<le> y" and "y \<le> x" for x y :: path_type
    using that by (cases x; cases y) (auto simp: less_eq_path_type_def)
qed (auto simp: less_path_type_def less_eq_path_type_def)

end

instantiation peering_type :: linorder
begin

definition less_peering_type :: "peering_type \<Rightarrow> peering_type \<Rightarrow> bool" where
  "less_peering_type x y \<longleftrightarrow> peering_type_rank x < peering_type_rank y"

definition less_eq_peering_type :: "peering_type \<Rightarrow> peering_type \<Rightarrow> bool" where
  "less_eq_peering_type x y \<longleftrightarrow> peering_type_rank x \<le> peering_type_rank y"

instance
proof
  show "x = y" if "x \<le> y" and "y \<le> x" for x y :: peering_type
    using that by (cases x; cases y) (auto simp: less_eq_peering_type_def)
qed (auto simp: less_peering_type_def less_eq_peering_type_def)

end

instantiation origin_type :: linorder
begin

definition less_origin_type :: "origin_type \<Rightarrow> origin_type \<Rightarrow> bool" where
  "less_origin_type x y \<longleftrightarrow> origin_rank x < origin_rank y"

definition less_eq_origin_type :: "origin_type \<Rightarrow> origin_type \<Rightarrow> bool" where
  "less_eq_origin_type x y \<longleftrightarrow> origin_rank x \<le> origin_rank y"

instance
proof
  show "x = y" if "x \<le> y" and "y \<le> x" for x y :: origin_type
    using that by (cases x; cases y) (auto simp: less_eq_origin_type_def)
qed (auto simp: less_origin_type_def less_eq_origin_type_def)

end

section \<open>Operations\<close>

definition ra_default :: "nat \<Rightarrow> route_attributes" where
  "ra_default now = \<lparr>as_path = [], origin = Igp, next_hop = V4 0, local_pref = None,
     multi_exit_disc = None, path_type = External, peer_type = Ebgp, recv_time = now,
     peer_rid = 0, peer_ip = V4 0\<rparr>"

definition prepend :: "u16 \<Rightarrow> u8 \<Rightarrow> route_attributes \<Rightarrow> route_attributes" where
  "prepend asn count_n ra =
     ra\<lparr>as_path := \<lparr>segment_type = AsSequence, as_list = replicate (unat count_n) asn\<rparr> # as_path ra\<rparr>"

definition is_from_ibgp :: "route_attributes \<Rightarrow> bool" where
  "is_from_ibgp ra \<longleftrightarrow> peer_type ra = Ibgp"

definition is_from_neighbor :: "u32 \<Rightarrow> route_attributes \<Rightarrow> bool" where
  "is_from_neighbor n ra \<longleftrightarrow> peer_rid ra = n"

definition is_valid :: "u16 \<Rightarrow> route_attributes \<Rightarrow> bool" where
  "is_valid asn ra \<longleftrightarrow> asn \<notin> set (flatten_aspath (as_path ra))"

definition path_len :: "route_attributes \<Rightarrow> nat" where
  "path_len ra = sum_list (map aspath_segment_len (as_path ra))"

text \<open>The attributes collected from an UPDATE, the last of every kind winning.\<close>

record collected =
  c_med :: "u32 option"
  c_local_pref :: "u32 option"
  c_next_hop :: "ip_addr option"
  c_as_path :: aspath
  c_origin :: origin_type

definition collect_attribute :: "'n path_attribute \<Rightarrow> collected \<Rightarrow> collected" where
  "collect_attribute p c =
     (case attr_value p of
        PV_Origin x \<Rightarrow> c\<lparr>c_origin := x\<rparr>
      | PV_AsPath a \<Rightarrow> c\<lparr>c_as_path := a\<rparr>
      | PV_NextHop n \<Rightarrow> c\<lparr>c_next_hop := Some (V4 n)\<rparr>
      | PV_MultiExitDisc m \<Rightarrow> c\<lparr>c_med := Some m\<rparr>
      | PV_LocalPref l \<Rightarrow> c\<lparr>c_local_pref := Some l\<rparr>
      | _ \<Rightarrow> c)"

text \<open>\<open>RouteAttributes::new\<close>: what it reads from the neighbor are the AS number, the router id and
  the address of the peer; \<open>now\<close> is \<open>Instant::now()\<close>.\<close>

definition ra_new ::
    "'n path_attribute list \<Rightarrow> u32 \<Rightarrow> u16 option \<Rightarrow> u32 option \<Rightarrow> ip_addr option \<Rightarrow> ip_addr option \<Rightarrow> nat
      \<Rightarrow> ('e, route_attributes) outcome" where
  "ra_new src local_asn nb_remote_asn nb_remote_rid nb_remote_ip hop now =
     (let c = fold collect_attribute src
          \<lparr>c_med = None, c_local_pref = None, c_next_hop = Some (V4 0), c_as_path = [], c_origin = Igp\<rparr>;
          c = (case hop of Some n \<Rightarrow> c\<lparr>c_next_hop := Some n\<rparr> | None \<Rightarrow> c)
      in bind_outcome (expect ''BUG: Next hop should be available for route attributes'' (c_next_hop c)) (\<lambda>nhop.
         bind_outcome (expect ''BUG: Remote ASN should be set after BGP session establishment''
           nb_remote_asn) (\<lambda>remote_asn.
         bind_outcome (expect ''BUG: Remote RID should be set after BGP session establishment''
           nb_remote_rid) (\<lambda>rid.
         bind_outcome (expect ''BUG: Remote IP should be set after BGP session establishment''
           nb_remote_ip) (\<lambda>ip.
         let (peer, path) = (if local_asn = ucast remote_asn then (Ibgp, Internal) else (Ebgp, External))
         in Ok \<lparr>as_path = c_as_path c, origin = c_origin c, next_hop = nhop,
               local_pref = c_local_pref c, multi_exit_disc = c_med c, path_type = path,
               peer_type = peer, recv_time = now, peer_rid = rid, peer_ip = ip\<rparr>)))))"

definition ra_to_path_attributes :: "route_attributes \<Rightarrow> 'n path_attribute list" where
  "ra_to_path_attributes ra =
     (case next_hop ra of V6 _ \<Rightarrow> [] | V4 ip4 \<Rightarrow> [pa_nexthop ip4])
     @ [pa_origin (origin ra), pa_aspath (as_path ra)]
     @ (case local_pref ra of Some pref \<Rightarrow> [pa_local_pref pref] | None \<Rightarrow> [])
     @ (case multi_exit_disc ra of Some med \<Rightarrow> [pa_med med] | None \<Rightarrow> [])"

section \<open>Equality, hashing and ranking\<close>

definition ra_eq :: "route_attributes \<Rightarrow> route_attributes \<Rightarrow> bool" where
  "ra_eq a b \<longleftrightarrow> local_pref a = local_pref b \<and> multi_exit_disc a = multi_exit_disc b
     \<and> origin a = origin b \<and> path_len a = path_len b"

text \<open>What \<open>hash\<close> feeds to the hasher.\<close>

definition ra_hash_input :: "route_attributes \<Rightarrow> u32 option \<times> u32 option \<times> origin_type \<times> nat" where
  "ra_hash_input a = (local_pref a, multi_exit_disc a, origin a, path_len a)"

definition ra_cmp :: "route_attributes \<Rightarrow> route_attributes \<Rightarrow> ordering" where
  "ra_cmp a b =
     (let lp = compare (local_pref a) (local_pref b) in if lp \<noteq> Equal then lp else
      let pt = compare (path_type a) (path_type b) in if pt \<noteq> Equal then pt else
      let pl = reverse_ordering (compare (path_len a) (path_len b)) in if pl \<noteq> Equal then pl else
      let otype = compare (origin a) (origin b) in if otype \<noteq> Equal then otype else
      let med = compare (multi_exit_disc a) (multi_exit_disc b) in if med \<noteq> Equal then med else
      let peer = compare (peer_type a) (peer_type b) in if peer \<noteq> Equal then peer else
      let r_time = (if peer_type a = Ebgp then compare (recv_time a) (recv_time b) else Equal) in
      if r_time \<noteq> Equal then r_time else
      let rid = compare (peer_rid a) (peer_rid b) in if rid \<noteq> Equal then rid else
      compare (peer_ip a) (peer_ip b))"

text \<open>The ranking as a key: a route is better the larger its key is.\<close>

type_synonym ra_key =
  "u32 option \<times> path_type \<times> int \<times> origin_type \<times> u32 option \<times> peering_type \<times> nat \<times> u32 \<times> ip_addr"

definition ra_key :: "route_attributes \<Rightarrow> ra_key" where
  "ra_key a = (local_pref a, path_type a, - int (path_len a), origin a, multi_exit_disc a, peer_type a,
     if peer_type a = Ebgp then recv_time a else 0, peer_rid a, peer_ip a)"

lemma compare_uminus: "compare (- int m) (- int n) = reverse_ordering (compare m n)"
  by (auto simp: compare_def)

lemma ra_cmp_key: "ra_cmp a b = compare (ra_key a) (ra_key b)"
proof -
  have time: "compare (if peer_type a = Ebgp then recv_time a else 0) (if peer_type b = Ebgp then recv_time b else 0) =
      (if peer_type a = Ebgp then compare (recv_time a) (recv_time b) else Equal)"
    if "compare (peer_type a) (peer_type b) = Equal"
    using that by auto
  show ?thesis
    unfolding ra_key_def compare_Pair compare_uminus ra_cmp_def Let_def
    by (intro first_difference_cong refl time [symmetric])
qed

interpretation ra: keyed_cmp ra_cmp ra_key
  by unfold_locales (rule ra_cmp_key)

lemma ra_cmp_Equal_eq: "ra_cmp a b = Equal \<Longrightarrow> ra_eq a b"
  by (auto simp: ra_cmp_key ra_key_def ra_eq_def)

lemma ra_eq_hash: "ra_eq a b \<longleftrightarrow> ra_hash_input a = ra_hash_input b"
  by (auto simp: ra_eq_def ra_hash_input_def)

section \<open>Reading and writing\<close>

lemma flatten_aspath_concat: "flatten_aspath p = concat (map as_list p)"
  by (induction p) simp_all

lemma prepend_invalid: "count_n \<noteq> 0 \<Longrightarrow> \<not> is_valid asn (prepend asn count_n ra)"
  by (simp add: is_valid_def prepend_def flatten_aspath_concat unat_gt_0 [symmetric])

lemma path_len_prepend: "path_len (prepend asn count_n ra) = unat count_n + path_len ra"
  by (simp add: path_len_def prepend_def aspath_segment_len_def)

lemma ra_new_panics:
  fixes src :: "'n path_attribute list"
  shows "panics (ra_new src local_asn rasn rid rip hop now) \<longleftrightarrow> rasn = None \<or> rid = None \<or> rip = None"
proof -
  have "c_next_hop (fold collect_attribute ps c) \<noteq> None" if "c_next_hop c \<noteq> None"
    for ps :: "'n path_attribute list" and c
    using that by (induction ps arbitrary: c)
      (auto simp: collect_attribute_def split: path_attribute_value.splits)
  from this [of _ src] obtain nhop where "c_next_hop (fold collect_attribute src
      \<lparr>c_med = None, c_local_pref = None, c_next_hop = Some (V4 0), c_as_path = [], c_origin = Igp\<rparr>) = Some nhop"
    by force
  then show ?thesis
    by (cases hop) (auto simp: ra_new_def Let_def outcome_simps split: if_splits)
qed

end
