(* ===== verification/Fib.thy ===== *)
theory Fib
  imports Rib
begin

text \<open>
  \<open>src/fib.rs\<close>: the image of the kernel's routing table and what \<open>sync\<close> adds to it.  The netlink
  crates are not part of the repository: a route message is a value of a type \<open>'m\<close>, its attributes
  of a type \<open>'a\<close>, and what the program asks of them and of the kernel are the fields of
  \<open>netlink\<close>, an argument of the definitions.
\<close>

section \<open>The kernel's interface\<close>

record ('m, 'a, 'p) netlink =
  nl_connected :: bool
  nl_dump :: "afi \<Rightarrow> 'm list"
  nl_link_name :: "u32 \<Rightarrow> string option"
  rtm_prefix_length :: "'m \<Rightarrow> u8"
  rtm_protocol :: "'m \<Rightarrow> 'p"
  rtm_attributes :: "'m \<Rightarrow> 'a list"
  attr_destination :: "'a \<Rightarrow> ip_addr option"
  attr_gateway :: "'a \<Rightarrow> ip_addr option"
  attr_oif :: "'a \<Rightarrow> u32 option"

text \<open>\<open>Iterator::find_map\<close>.\<close>

fun find_map :: "('a \<Rightarrow> 'b option) \<Rightarrow> 'a list \<Rightarrow> 'b option" where
  "find_map f [] = None"
| "find_map f (x # xs) = (case f x of None \<Rightarrow> find_map f xs | Some y \<Rightarrow> Some y)"

section \<open>The table\<close>

record ('n, 'm, 'p) fib_entry =
  fe_prefix :: "'n option"
  fe_next_hop :: "ip_addr option"
  fe_dev :: "string option"
  fe_metric :: "u32 option"
  fe_proto :: 'p
  fe_rm :: 'm

record ('n, 'm, 'p) fib =
  fib_af :: address_family
  fib_routes :: "('n, 'm, 'p) fib_entry list"

definition from_rtnl :: "('m, 'a, 'p) netlink \<Rightarrow> 'n ipnet_ops \<Rightarrow> 'm \<Rightarrow> ('n, 'm, 'p) fib_entry option" where
  "from_rtnl N L msg =
     (if \<not> nl_connected N then None
      else
        let plen = rtm_prefix_length N msg; attrs = rtm_attributes N msg;
            prefix = find_map (\<lambda>nla. case attr_destination N nla of
                None \<Rightarrow> None
              | Some (V4 t) \<Rightarrow> ipv4net_new L t plen
              | Some (V6 t) \<Rightarrow> ipv6net_new L t plen) attrs;
            hop = find_map (attr_gateway N) attrs;
            entry = (\<lambda>dev. \<lparr>fe_prefix = prefix, fe_next_hop = hop, fe_dev = dev, fe_metric = None,
                      fe_proto = rtm_protocol N msg, fe_rm = msg\<rparr>)
        in case find_map (attr_oif N) attrs of
             None \<Rightarrow> Some (entry None)
           | Some dev_id \<Rightarrow> (case nl_link_name N dev_id of None \<Rightarrow> None | Some name \<Rightarrow> Some (entry (Some name))))"

definition get_routes ::
    "('m, 'a, 'p) netlink \<Rightarrow> 'n ipnet_ops \<Rightarrow> address_family \<Rightarrow> ('e, ('n, 'm, 'p) fib_entry list) outcome" where
  "get_routes N L fam =
     (if nl_connected N then Ok (List.map_filter (from_rtnl N L) (nl_dump N (afi fam))) else Panic UnwrapErr)"

definition refresh ::
    "('m, 'a, 'p) netlink \<Rightarrow> 'n ipnet_ops \<Rightarrow> ('n, 'm, 'p) fib \<Rightarrow> ('e, ('n, 'm, 'p) fib) outcome" where
  "refresh N L fib = bind_outcome (get_routes N L (fib_af fib)) (\<lambda>v. Ok (fib\<lparr>fib_routes := v\<rparr>))"

definition fib_new ::
    "('m, 'a, 'p) netlink \<Rightarrow> 'n ipnet_ops \<Rightarrow> address_family \<Rightarrow> ('e, ('n, 'm, 'p) fib) outcome" where
  "fib_new N L fam = refresh N L \<lparr>fib_af = fam, fib_routes = []\<rparr>"

definition has_route :: "'n ipnet_ops \<Rightarrow> ('n, 'm, 'p) fib \<Rightarrow> ip_addr \<Rightarrow> bool" where
  "has_route L fib addr = list_ex (\<lambda>fe. case fe_prefix fe of
      None \<Rightarrow> False | Some prefix \<Rightarrow> net_contains L prefix addr) (fib_routes fib)"

definition find_route :: "('n, 'm, 'p) fib \<Rightarrow> 'n \<Rightarrow> ip_addr \<Rightarrow> ('n, 'm, 'p) fib_entry option" where
  "find_route fib subnet nexthop =
     find (\<lambda>fe. fe_prefix fe = Some subnet \<and> fe_next_hop fe = Some nexthop) (fib_routes fib)"

text \<open>What the program asks the kernel: a BGP route to a destination by a gateway.\<close>

datatype kernel_request = Route_Add (dst: ip_addr) (plen: u8) (gateway: ip_addr)

fun add_route :: "'n ipnet_ops \<Rightarrow> 'n \<Rightarrow> ip_addr \<Rightarrow> kernel_request list" where
  "add_route L subnet nexthop =
     (case net_addr L subnet of
        V6 a \<Rightarrow> (case nexthop of V6 n \<Rightarrow> [Route_Add (V6 a) (net_prefix_len L subnet) (V6 n)] | V4 _ \<Rightarrow> [])
      | V4 a \<Rightarrow> (case nexthop of V6 _ \<Rightarrow> [] | V4 n \<Rightarrow> [Route_Add (V4 a) (net_prefix_len L subnet) (V4 n)]))"

text \<open>One entry of the RIB, and the loop over the entries in the order the hash map yields them.
  A failed connection ends \<open>sync\<close> at once; the outcome of a request is ignored.\<close>

definition sync_entry ::
    "'n ipnet_ops \<Rightarrow> ('n, 'm, 'p) fib \<Rightarrow> 'n nlri \<Rightarrow> route_attributes list \<Rightarrow> kernel_request list" where
  "sync_entry L fib n as =
     (case find (\<lambda>a. has_route L fib (next_hop a)) as of
        None \<Rightarrow> []
      | Some a \<Rightarrow> (case find_route fib (net n) (next_hop a) of
            Some _ \<Rightarrow> []
          | None \<Rightarrow> add_route L (net n) (next_hop a)))"

definition sync ::
    "('m, 'a, 'p) netlink \<Rightarrow> 'n ipnet_ops \<Rightarrow> ('n, 'm, 'p) fib \<Rightarrow> 'n rib \<Rightarrow> 'n nlri list \<Rightarrow> kernel_request list" where
  "sync N L fib rib order =
     (if \<not> nl_connected N then []
      else concat (map (\<lambda>n. case rib n of None \<Rightarrow> [] | Some as \<Rightarrow> sync_entry L fib n as) order))"

section \<open>Lemmas\<close>

lemma find_map_Some: "find_map f xs = Some y \<Longrightarrow> \<exists>x \<in> set xs. f x = Some y"
  by (induction xs) (auto split: option.splits)

lemma find_map_None: "find_map f xs = None \<longleftrightarrow> (\<forall>x \<in> set xs. f x = None)"
  by (induction xs) (auto split: option.splits)

lemma has_route_iff:
  "has_route L fib addr \<longleftrightarrow> (\<exists>fe \<in> set (fib_routes fib). \<exists>p. fe_prefix fe = Some p \<and> net_contains L p addr)"
  by (auto simp: has_route_def list_ex_iff split: option.splits)

lemma find_route_None:
  "find_route fib subnet hop = None \<longleftrightarrow>
    (\<forall>fe \<in> set (fib_routes fib). \<not> (fe_prefix fe = Some subnet \<and> fe_next_hop fe = Some hop))"
  by (auto simp: find_route_def find_None_iff)

lemma add_route_eq:
  "add_route L subnet hop =
    (if same_family (net_addr L subnet) hop then [Route_Add (net_addr L subnet) (net_prefix_len L subnet) hop] else [])"
  by (cases "net_addr L subnet"; cases hop) simp_all

lemma sync_entry_eq:
  "set (sync_entry L fib n as) =
    {Route_Add (net_addr L (net n)) (net_prefix_len L (net n)) (next_hop a) | a.
       find (\<lambda>a. has_route L fib (next_hop a)) as = Some a \<and> find_route fib (net n) (next_hop a) = None
       \<and> same_family (net_addr L (net n)) (next_hop a)}"
  by (auto simp: sync_entry_def add_route_eq simp del: add_route.simps split: option.splits)

lemma has_route_family:
  assumes "ipnet_laws L" and "has_route L fib x"
  obtains fe p where "fe \<in> set (fib_routes fib)" and "fe_prefix fe = Some p"
    and "same_family (net_addr L p) x" and "ip_network (net_prefix_len L p) x = net_network L p"
  using assms by (auto simp: has_route_iff ipnet_laws.contains_iff)

lemma get_routes_entries:
  assumes "get_routes N L fam = Ok es"
  shows "fe \<in> set es \<longleftrightarrow> (\<exists>m \<in> set (nl_dump N (afi fam)). from_rtnl N L m = Some fe)"
  using assms by (auto simp: get_routes_def List.map_filter_def image_iff split: if_splits) force+

end
