(* ===== verification/Loc_Rib.thy ===== *)
theory Loc_Rib
  imports Fib
begin

text \<open>
  \<open>src/speaker/manager.rs\<close> and \<open>src/speaker/events.rs\<close>: the RIB manager.  One task per address
  family owns the local RIB; an event adds and withdraws routes, and the prefixes whose best
  reachable route has changed are sent on to the established neighbors.  Where the program walks a
  hash map, the order in which it yields its keys is an argument.
\<close>

section \<open>Events\<close>

record 'n update =
  upd_added :: "'n rib_update option"
  upd_withdrawn :: "'n rib_update option"
  upd_rid :: u32

datatype 'n rib_event = UpdateRoutes "'n update"
datatype fib_event = RibUpdated

type_synonym 'n modified = "('n nlri \<times> route_attributes option) list"

section \<open>Adding and withdrawing\<close>

definition best_reachable ::
    "'n ipnet_ops \<Rightarrow> ('n, 'm, 'p) fib \<Rightarrow> route_attributes list \<Rightarrow> route_attributes option" where
  "best_reachable L fib attributes = find (\<lambda>a. has_route L fib (next_hop a)) attributes"

text \<open>\<open>push\<close>, \<open>sort\<close>, \<open>reverse\<close>.\<close>

definition rank_insert :: "route_attributes \<Rightarrow> route_attributes list \<Rightarrow> route_attributes list" where
  "rank_insert a as = rev (sort_by ra_cmp (as @ [a]))"

definition add_nlri ::
    "'n ipnet_ops \<Rightarrow> ('n, 'm, 'p) fib \<Rightarrow> u16 \<Rightarrow> route_attributes \<Rightarrow> 'n nlri \<Rightarrow> 'n rib \<times> 'n modified
      \<Rightarrow> 'n rib \<times> 'n modified" where
  "add_nlri L fib asn attrs n st =
     (case st of (rib, md) \<Rightarrow>
        (case rib n of
           None \<Rightarrow>
             if is_valid asn attrs
             then (rib(n \<mapsto> [attrs]), if has_route L fib (next_hop attrs) then md @ [(n, Some attrs)] else md)
             else (rib, md)
         | Some as \<Rightarrow>
             if is_valid asn attrs
             then let previous_best = best_reachable L fib as
               in (rib(n \<mapsto> rank_insert attrs as),
                   if has_route L fib (next_hop attrs)
                   then (case previous_best of
                           None \<Rightarrow> md @ [(n, Some attrs)]
                         | Some best \<Rightarrow> if ra_cmp attrs best = Greater then md @ [(n, Some attrs)] else md)
                   else md)
             else (rib, md)))"

definition loc_rib_added ::
    "'n ipnet_ops \<Rightarrow> ('n, 'm, 'p) fib \<Rightarrow> u16 \<Rightarrow> 'n rib_update \<Rightarrow> 'n rib \<Rightarrow> 'n rib \<times> 'n modified" where
  "loc_rib_added L fib asn routes rib = fold (add_nlri L fib asn (ru_attributes routes)) (ru_nlris routes) (rib, [])"

definition withdraw_nlri ::
    "'n ipnet_ops \<Rightarrow> ('n, 'm, 'p) fib \<Rightarrow> u32 \<Rightarrow> 'n nlri \<Rightarrow> 'n rib \<times> 'n modified \<Rightarrow> 'n rib \<times> 'n modified" where
  "withdraw_nlri L fib peer n st =
     (case st of (rib, md) \<Rightarrow>
        (case rib n of
           None \<Rightarrow> (rib, md)
         | Some as \<Rightarrow>
             (let previous_best = best_reachable L fib as;
                  as' = filter (\<lambda>a. \<not> is_from_neighbor peer a) as
              in (if as' = [] then rib(n := None) else rib(n \<mapsto> as'),
                  case previous_best of
                    None \<Rightarrow> md
                  | Some best \<Rightarrow> if peer_rid best = peer then md @ [(n, None)] else md))))"

text \<open>An empty list of prefixes stands for every prefix the peer has a route for.\<close>

definition to_withdraw :: "'n nlri list \<Rightarrow> 'n rib \<Rightarrow> 'n rib_update \<Rightarrow> 'n nlri list" where
  "to_withdraw order rib routes =
     (if ru_nlris routes = []
      then filter (\<lambda>n. case rib n of None \<Rightarrow> False
             | Some as \<Rightarrow> list_ex (\<lambda>a. peer_rid a = peer_rid (ru_attributes routes)) as) order
      else ru_nlris routes)"

definition loc_rib_withdraw ::
    "'n ipnet_ops \<Rightarrow> ('n, 'm, 'p) fib \<Rightarrow> 'n nlri list \<Rightarrow> 'n rib_update \<Rightarrow> 'n rib \<Rightarrow> 'n rib \<times> 'n modified" where
  "loc_rib_withdraw L fib order routes rib =
     fold (withdraw_nlri L fib (peer_rid (ru_attributes routes))) (to_withdraw order rib routes) (rib, [])"

text \<open>Additions come first.  The withdrawals walk the RIB as the additions leave it.\<close>

definition rib_event_step ::
    "'n ipnet_ops \<Rightarrow> ('n, 'm, 'p) fib \<Rightarrow> u16 \<Rightarrow> ('n rib \<Rightarrow> 'n nlri list) \<Rightarrow> 'n rib_event \<Rightarrow> 'n rib \<Rightarrow> 'n rib \<times> 'n modified" where
  "rib_event_step L fib asn order e rib =
     (case e of UpdateRoutes msg \<Rightarrow>
        (let (rib, md) = (case upd_added msg of None \<Rightarrow> (rib, []) | Some routes \<Rightarrow> loc_rib_added L fib asn routes rib);
             (rib, md') = (case upd_withdrawn msg of None \<Rightarrow> (rib, [])
                 | Some routes \<Rightarrow> loc_rib_withdraw L fib (order rib) routes rib)
         in (rib, md @ md')))"

section \<open>The invariant of the RIB\<close>

definition ranked :: "route_attributes list \<Rightarrow> bool" where
  "ranked as \<longleftrightarrow> sorted_wrt (\<lambda>a b. ra_cmp a b \<noteq> Less) as"

text \<open>Every entry holds at least one route, best first, none with the local AS in its path.\<close>

definition rib_ok :: "u16 \<Rightarrow> 'n rib \<Rightarrow> bool" where
  "rib_ok asn rib \<longleftrightarrow> (\<forall>n as. rib n = Some as \<longrightarrow> as \<noteq> [] \<and> ranked as \<and> (\<forall>a \<in> set as. is_valid asn a))"

lemma rib_okD:
  "rib_ok asn rib \<Longrightarrow> rib n = Some as \<Longrightarrow> as \<noteq> [] \<and> ranked as \<and> (\<forall>a \<in> set as. is_valid asn a)"
  by (simp add: rib_ok_def)

lemma rib_ok_upd:
  "rib_ok asn rib \<Longrightarrow> as \<noteq> [] \<Longrightarrow> ranked as \<Longrightarrow> \<forall>a \<in> set as. is_valid asn a \<Longrightarrow> rib_ok asn (rib(n \<mapsto> as))"
  "rib_ok asn rib \<Longrightarrow> rib_ok asn (rib(n := None))"
  by (auto simp: rib_ok_def)

lemma rib_ok_empty [simp]: "rib_ok asn (\<lambda>_. None)"
  by (simp add: rib_ok_def)

lemma ranked_Cons: "ranked (a # as) \<longleftrightarrow> (\<forall>b \<in> set as. ra_cmp a b \<noteq> Less) \<and> ranked as"
  by (simp add: ranked_def)

lemma ranked_single [simp]: "ranked [a]"
  by (simp add: ranked_def)

lemma ranked_filter: "ranked as \<Longrightarrow> ranked (filter P as)"
  by (simp add: ranked_def sorted_wrt_filter)

lemma ra_cmp_flip: "ra_cmp a b = Greater \<longleftrightarrow> ra_cmp b a = Less"
  by (simp add: ra_cmp_key)

lemma ranked_rank_insert: "ranked (rank_insert a as)"
  using ra.sorted_sort_by [of "as @ [a]"] by (simp add: ranked_def rank_insert_def sorted_wrt_rev ra_cmp_flip)

lemma mset_rank_insert: "mset (rank_insert a as) = add_mset a (mset as)"
  by (simp add: rank_insert_def)

lemma set_rank_insert [simp]: "set (rank_insert a as) = insert a (set as)"
  by (simp add: rank_insert_def)

lemma rank_insert_nonempty [simp]: "rank_insert a as \<noteq> []"
  by (metis set_rank_insert insert_not_empty set_empty)

lemma add_nlri_fst:
  "fst (add_nlri L fib asn attrs n (rib, md)) =
    (if is_valid asn attrs
     then rib(n \<mapsto> (case rib n of None \<Rightarrow> [attrs] | Some as \<Rightarrow> rank_insert attrs as)) else rib)"
  by (simp add: add_nlri_def Let_def split: option.splits)

lemma withdraw_nlri_fst:
  "fst (withdraw_nlri L fib peer n (rib, md)) n' =
    (if n' = n then (case rib n of None \<Rightarrow> None | Some as \<Rightarrow>
       let as' = filter (\<lambda>a. peer_rid a \<noteq> peer) as in if as' = [] then None else Some as') else rib n')"
  by (simp add: withdraw_nlri_def Let_def is_from_neighbor_def split: option.splits)

lemma add_nlri_ok: "rib_ok asn (fst st) \<Longrightarrow> rib_ok asn (fst (add_nlri L fib asn attrs n st))"
  using rib_okD [of asn "fst st" n]
  by (cases st) (auto simp: add_nlri_fst ranked_rank_insert intro!: rib_ok_upd split: option.splits)

lemma withdraw_nlri_ok: "rib_ok asn (fst st) \<Longrightarrow> rib_ok asn (fst (withdraw_nlri L fib peer n st))"
  using rib_okD [of asn "fst st" n]
  by (cases st) (auto simp: withdraw_nlri_def Let_def ranked_filter intro!: rib_ok_upd split: option.splits)

lemma fold_invariant: "P s \<Longrightarrow> (\<And>x s. P s \<Longrightarrow> P (f x s)) \<Longrightarrow> P (fold f xs s)"
  by (induction xs arbitrary: s) auto

lemma loc_rib_added_ok: "rib_ok asn rib \<Longrightarrow> rib_ok asn (fst (loc_rib_added L fib asn routes rib))"
  unfolding loc_rib_added_def by (rule fold_invariant) (simp_all add: add_nlri_ok)

lemma loc_rib_withdraw_ok: "rib_ok asn rib \<Longrightarrow> rib_ok asn (fst (loc_rib_withdraw L fib order routes rib))"
  unfolding loc_rib_withdraw_def by (rule fold_invariant) (simp_all add: withdraw_nlri_ok)

lemma rib_event_step_ok: "rib_ok asn rib \<Longrightarrow> rib_ok asn (fst (rib_event_step L fib asn order e rib))"
  using loc_rib_added_ok [of asn rib L fib] loc_rib_withdraw_ok [of asn _ L fib]
  by (cases e) (auto simp: rib_event_step_def split: prod.splits option.splits, (metis fst_conv)+)

section \<open>What the best reachable route is\<close>

lemma best_reachable_Some:
  assumes "ranked as" and "best_reachable L fib as = Some a"
  shows "a \<in> set as \<and> has_route L fib (next_hop a)
    \<and> (\<forall>b \<in> set as. has_route L fib (next_hop b) \<longrightarrow> ra_cmp b a \<noteq> Greater)"
  using assms
proof (induction as)
  case (Cons x as)
  then show ?case
    by (cases "has_route L fib (next_hop x)")
      (auto simp: best_reachable_def ranked_Cons ra_cmp_flip ra.cmp_refl)
qed (simp add: best_reachable_def)

lemma best_reachable_None:
  "best_reachable L fib as = None \<longleftrightarrow> (\<forall>b \<in> set as. \<not> has_route L fib (next_hop b))"
  by (auto simp: best_reachable_def find_None_iff)

lemma best_reachable_filter:
  "best_reachable L fib (filter P as) = find (\<lambda>a. P a \<and> has_route L fib (next_hop a)) as"
  by (induction as) (auto simp: best_reachable_def)

lemma best_reachable_insert_better:
  assumes "ranked as" and "has_route L fib (next_hop a)"
    and "\<forall>b. best_reachable L fib as = Some b \<longrightarrow> ra_cmp a b = Greater"
  shows "best_reachable L fib (rank_insert a as) = Some a"
proof -
  have "best_reachable L fib (rank_insert a as) \<noteq> None"
    using assms(2) by (auto simp: best_reachable_None)
  then obtain c where c: "best_reachable L fib (rank_insert a as) = Some c" by auto
  have c_best: "c = a \<or> c \<in> set as" "has_route L fib (next_hop c)" "ra_cmp a c \<noteq> Greater"
    using best_reachable_Some [OF ranked_rank_insert c] assms(2) by auto
  have "\<not> (c \<in> set as)"
  proof
    assume mem: "c \<in> set as"
    then obtain b where b: "best_reachable L fib as = Some b"
      using c_best(2) by (cases "best_reachable L fib as") (auto simp: best_reachable_None)
    then have "ra_cmp c b \<noteq> Greater" "ra_cmp a b = Greater"
      using best_reachable_Some [OF assms(1) b] mem c_best(2) assms(3) by auto
    then show False using c_best(3) by (auto simp: ra_cmp_key)
  qed
  then show ?thesis using c c_best(1) by simp
qed

lemma best_reachable_insert_worse:
  assumes "ranked as" and "best_reachable L fib as = Some b"
    and "\<not> (has_route L fib (next_hop a) \<and> ra_cmp a b = Greater)"
  shows "\<exists>c. best_reachable L fib (rank_insert a as) = Some c \<and> ra_cmp c b = Equal"
proof -
  note b = best_reachable_Some [OF assms(1,2)]
  have "best_reachable L fib (rank_insert a as) \<noteq> None"
    using b by (auto simp: best_reachable_None)
  then obtain c where c: "best_reachable L fib (rank_insert a as) = Some c" by auto
  have "ra_cmp b c \<noteq> Greater" "ra_cmp c b \<noteq> Greater"
    using best_reachable_Some [OF ranked_rank_insert c] b assms(3) by auto
  then have "ra_cmp c b = Equal"
    by (auto simp: ra_cmp_key)
  with c show ?thesis by blast
qed

section \<open>The RIB after a batch\<close>

definition rib_best :: "'n ipnet_ops \<Rightarrow> ('n, 'm, 'p) fib \<Rightarrow> 'n rib \<Rightarrow> 'n nlri \<Rightarrow> route_attributes option" where
  "rib_best L fib rib n = (case rib n of None \<Rightarrow> None | Some as \<Rightarrow> best_reachable L fib as)"

text \<open>The route is announced: it is usable and better than what was the best reachable one.\<close>

definition improves :: "'n ipnet_ops \<Rightarrow> ('n, 'm, 'p) fib \<Rightarrow> u16 \<Rightarrow> route_attributes \<Rightarrow> 'n rib \<Rightarrow> 'n nlri \<Rightarrow> bool" where
  "improves L fib asn a rib n \<longleftrightarrow> is_valid asn a \<and> has_route L fib (next_hop a)
     \<and> (\<forall>b. rib_best L fib rib n = Some b \<longrightarrow> ra_cmp a b = Greater)"

definition rib_insert :: "route_attributes \<Rightarrow> 'n rib \<Rightarrow> 'n nlri \<Rightarrow> route_attributes list option" where
  "rib_insert a rib n = Some (case rib n of None \<Rightarrow> [a] | Some as \<Rightarrow> rank_insert a as)"

definition rib_prune :: "u32 \<Rightarrow> 'n rib \<Rightarrow> 'n nlri \<Rightarrow> route_attributes list option" where
  "rib_prune peer rib n = (case rib n of None \<Rightarrow> None
     | Some as \<Rightarrow> let as' = filter (\<lambda>a. peer_rid a \<noteq> peer) as in if as' = [] then None else Some as')"

lemma add_nlri_eq:
  "add_nlri L fib asn a n (rib, md) =
    (if is_valid asn a then rib(n := rib_insert a rib n) else rib,
     if improves L fib asn a rib n then md @ [(n, Some a)] else md)"
  by (auto simp: add_nlri_def improves_def rib_insert_def rib_best_def Let_def split: option.splits)

lemma withdraw_nlri_eq:
  "withdraw_nlri L fib peer n (rib, md) =
    (rib(n := rib_prune peer rib n),
     if \<exists>b. rib_best L fib rib n = Some b \<and> peer_rid b = peer then md @ [(n, None)] else md)"
  by (auto simp: withdraw_nlri_def rib_prune_def rib_best_def Let_def is_from_neighbor_def split: option.splits)

lemma fold_add:
  assumes "distinct ns"
  shows "fold (add_nlri L fib asn a) ns (rib, md) =
    (\<lambda>n. if n \<in> set ns \<and> is_valid asn a then rib_insert a rib n else rib n,
     md @ map (\<lambda>n. (n, Some a)) (filter (improves L fib asn a rib) ns))"
  using assms
proof (induction ns arbitrary: rib md)
  case (Cons n ns)
  let ?rib = "if is_valid asn a then rib(n := rib_insert a rib n) else rib"
  have "improves L fib asn a ?rib n' = improves L fib asn a rib n'" if "n' \<in> set ns" for n'
    using that Cons.prems by (auto simp: improves_def rib_best_def)
  then have md: "filter (improves L fib asn a ?rib) ns = filter (improves L fib asn a rib) ns"
    by (simp cong: filter_cong)
  have "(if n' \<in> set ns \<and> is_valid asn a then rib_insert a ?rib n' else ?rib n') =
      (if n' \<in> set (n # ns) \<and> is_valid asn a then rib_insert a rib n' else rib n')" for n'
    using Cons.prems by (auto simp: rib_insert_def)
  with Cons md show ?case
    by (simp add: add_nlri_eq fun_eq_iff)
qed (simp add: fun_eq_iff)

lemma rib_prune_idem: "rib_prune peer (rib(n := rib_prune peer rib n)) n = rib_prune peer rib n"
  by (auto simp: rib_prune_def Let_def split: option.splits)

lemma fold_withdraw:
  assumes "distinct ns"
  shows "fold (withdraw_nlri L fib peer) ns (rib, md) =
    (\<lambda>n. if n \<in> set ns then rib_prune peer rib n else rib n,
     md @ map (\<lambda>n. (n, None)) (filter (\<lambda>n. \<exists>b. rib_best L fib rib n = Some b \<and> peer_rid b = peer) ns))"
  using assms
proof (induction ns arbitrary: rib md)
  case (Cons n ns)
  have "rib_best L fib (rib(n := rib_prune peer rib n)) n' = rib_best L fib rib n'" if "n' \<in> set ns" for n'
    using that Cons.prems by (auto simp: rib_best_def)
  then have "filter (\<lambda>n'. \<exists>b. rib_best L fib (rib(n := rib_prune peer rib n)) n' = Some b \<and> peer_rid b = peer) ns =
      filter (\<lambda>n'. \<exists>b. rib_best L fib rib n' = Some b \<and> peer_rid b = peer) ns"
    by (simp cong: filter_cong)
  with Cons show ?case
    by (auto simp: withdraw_nlri_eq fun_eq_iff rib_prune_def)
qed (simp add: fun_eq_iff)

lemma rib_best_insert:
  assumes "rib_ok asn rib" and "is_valid asn a"
  shows "if improves L fib asn a rib n then rib_best L fib (\<lambda>n. rib_insert a rib n) n = Some a
    else \<forall>b. rib_best L fib rib n = Some b \<longrightarrow>
      (\<exists>c. rib_best L fib (\<lambda>n. rib_insert a rib n) n = Some c \<and> ra_cmp c b = Equal)"
proof (cases "rib n")
  case None
  then show ?thesis
    by (auto simp: improves_def rib_best_def rib_insert_def best_reachable_def)
next
  case (Some as)
  then have r: "ranked as" using rib_okD assms(1) by blast
  show ?thesis
  proof (cases "improves L fib asn a rib n")
    case True
    then show ?thesis
      using best_reachable_insert_better [OF r, of L fib a] Some
      by (simp add: improves_def rib_best_def rib_insert_def)
  next
    case False
    then show ?thesis
      using best_reachable_insert_worse [OF r, of L fib _ a] Some assms(2)
      by (auto simp: improves_def rib_best_def rib_insert_def)
  qed
qed

lemma rib_best_prune:
  "rib_best L fib (\<lambda>n. rib_prune peer rib n) n =
    (case rib n of None \<Rightarrow> None | Some as \<Rightarrow> find (\<lambda>a. peer_rid a \<noteq> peer \<and> has_route L fib (next_hop a)) as)"
proof (cases "rib n")
  case (Some as)
  have "as' = [] \<Longrightarrow> best_reachable L fib as' = None" for as'
    by (simp add: best_reachable_def)
  then show ?thesis
    using Some best_reachable_filter [of L fib "\<lambda>a. peer_rid a \<noteq> peer" as]
    by (auto simp: rib_best_def rib_prune_def Let_def)
qed (simp add: rib_best_def rib_prune_def)

lemma find_skip: "(\<And>b. find Q as = Some b \<Longrightarrow> R b) \<Longrightarrow> find (\<lambda>a. R a \<and> Q a) as = find Q as"
  by (induction as) auto

lemma rib_best_prune_same:
  assumes "\<not> (\<exists>b. rib_best L fib rib n = Some b \<and> peer_rid b = peer)"
  shows "rib_best L fib (\<lambda>n. rib_prune peer rib n) n = rib_best L fib rib n"
  using assms find_skip [of "\<lambda>a. has_route L fib (next_hop a)" "the (rib n)" "\<lambda>a. peer_rid a \<noteq> peer"]
  unfolding rib_best_prune by (auto simp: rib_best_def best_reachable_def split: option.splits)

text \<open>A run of the RIB manager from the empty RIB: every event meets the FIB of its moment.\<close>

fun rib_run ::
    "'n ipnet_ops \<Rightarrow> u16 \<Rightarrow> ('n rib \<Rightarrow> 'n nlri list) \<Rightarrow> (('n, 'm, 'p) fib \<times> 'n rib_event) list \<Rightarrow> 'n rib \<Rightarrow> 'n rib" where
  "rib_run L asn order [] rib = rib"
| "rib_run L asn order ((fib, e) # es) rib = rib_run L asn order es (fst (rib_event_step L fib asn order e rib))"

lemma rib_run_invariant: "rib_ok asn rib \<Longrightarrow> rib_ok asn (rib_run L asn order es rib)"
  by (induction L asn order es rib rule: rib_run.induct) (simp_all add: rib_event_step_ok)

end
