(* ===== verification/Capabilities.thy ===== *)
theory Capabilities
  imports Bgp_Types
begin

text \<open>
  \<open>src/bgp/capabilities.rs\<close>: the optional parameters of an OPEN message and the capabilities inside
  them, printed and parsed; and \<open>src/neighbor/capabilities.rs\<close>: what a session keeps of them.
\<close>

section \<open>Optional parameters\<close>

datatype opt_param_type = Authentication | Capability

primrec opt_param_type_code :: "opt_param_type \<Rightarrow> u8" where
  "opt_param_type_code Authentication = 1"
| "opt_param_type_code Capability = 2"

definition opt_param_type_from_u8 :: "u8 \<Rightarrow> opt_param_type option" where
  "opt_param_type_from_u8 n =
     (if n = 1 then Some Authentication else if n = 2 then Some Capability else None)"

record opt_param =
  param_type :: opt_param_type
  param_length :: nat
  param_value :: bytes

definition opt_param_from_bytes :: "bytes \<Rightarrow> (bgp_error, opt_param) outcome" where
  "opt_param_from_bytes src =
     bind_outcome (slice src 0 1) (\<lambda>t.
     bind_outcome (slice src 1 2) (\<lambda>l.
     bind_outcome (unwrap (opt_param_type_from_u8 (from_be t))) (\<lambda>ty.
     bind_outcome (slice_from src 2) (\<lambda>v.
     Ok \<lparr>param_type = ty, param_length = unat (from_be l :: u8), param_value = v\<rparr>))))"

definition opt_param_to_bytes :: "opt_param \<Rightarrow> bytes" where
  "opt_param_to_bytes p =
     opt_param_type_code (param_type p) # as_u8 (length (param_value p)) # param_value p"

record opt_params =
  op_len :: nat
  params :: "opt_param list"

definition opt_params_new :: "opt_param list \<Rightarrow> opt_params" where
  "opt_params_new ps = \<lparr>op_len = foldl (\<lambda>len p. len + 2 + param_length p) 0 ps, params = ps\<rparr>"

definition opt_params_to_bytes :: "opt_params \<Rightarrow> bytes" where
  "opt_params_to_bytes val = as_u8 (op_len val) # concat (map opt_param_to_bytes (params val))"

definition opt_params_step :: "bytes \<Rightarrow> nat \<Rightarrow> (bgp_error, opt_param \<times> u8) outcome" where
  "opt_params_step src i =
     bind_outcome (slice src (i + 1) (i + 2)) (\<lambda>l.
     let optlen = from_be l :: u8
     in bind_outcome (slice src i (i + (unat optlen + 2))) (\<lambda>bs.
        bind_outcome (opt_param_from_bytes bs) (\<lambda>p. Ok (p, optlen))))"

text \<open>\<open>used += optlen + 2\<close> is arithmetic in \<open>u8\<close>: it panics or wraps with the build.\<close>

function opt_params_loop ::
    "build \<Rightarrow> bytes \<Rightarrow> u8 \<Rightarrow> u8 \<Rightarrow> nat \<Rightarrow> opt_param list \<Rightarrow> (bgp_error, opt_params) outcome" where
  "opt_params_loop b src len used i acc =
     (if used < len
      then bind_outcome (opt_params_step src i) (\<lambda>(p, optlen).
           bind_outcome (add_u8 b optlen 2) (\<lambda>step.
           bind_outcome (add_u8 b used step) (\<lambda>used'.
           opt_params_loop b src len used' (i + (unat optlen + 2)) (acc @ [p]))))
      else Ok \<lparr>op_len = i, params = acc\<rparr>)"
  by pat_completeness auto
termination
  by (relation "measure (\<lambda>(b, src, len, used, i, acc). length src - i)")
    (auto simp: opt_params_step_def outcome_simps Let_def)

declare opt_params_loop.simps [simp del]

definition opt_params_from_bytes :: "build \<Rightarrow> bytes \<Rightarrow> (bgp_error, opt_params) outcome" where
  "opt_params_from_bytes b src =
     bind_outcome (slice src 0 1) (\<lambda>l. opt_params_loop b src (from_be l) 0 1 [])"

section \<open>Capabilities\<close>

datatype capability_code =
    CC_Multiprotocol | CC_RouteRefresh | CC_OutboundRouteFiltering | CC_ExtendedNextHopEncoding
  | CC_GracefulRestart | CC_FourOctectASN | CC_DynamicCapability | CC_MultisessionBGP | CC_AddPath
  | CC_EnhancedRouteRefresh | CC_LongLivedGracefulRestart | CC_FQDNCapability | CC_Unknown

primrec capability_code_code :: "capability_code \<Rightarrow> u8" where
  "capability_code_code CC_Multiprotocol = 1"
| "capability_code_code CC_RouteRefresh = 2"
| "capability_code_code CC_OutboundRouteFiltering = 3"
| "capability_code_code CC_ExtendedNextHopEncoding = 5"
| "capability_code_code CC_GracefulRestart = 64"
| "capability_code_code CC_FourOctectASN = 65"
| "capability_code_code CC_DynamicCapability = 67"
| "capability_code_code CC_MultisessionBGP = 68"
| "capability_code_code CC_AddPath = 69"
| "capability_code_code CC_EnhancedRouteRefresh = 70"
| "capability_code_code CC_LongLivedGracefulRestart = 71"
| "capability_code_code CC_FQDNCapability = 73"
| "capability_code_code CC_Unknown = 255"

definition capability_codes :: "capability_code list" where
  "capability_codes =
    [CC_Multiprotocol, CC_RouteRefresh, CC_OutboundRouteFiltering, CC_ExtendedNextHopEncoding,
     CC_GracefulRestart, CC_FourOctectASN, CC_DynamicCapability, CC_MultisessionBGP, CC_AddPath,
     CC_EnhancedRouteRefresh, CC_LongLivedGracefulRestart, CC_FQDNCapability, CC_Unknown]"

definition capability_code_from_u8 :: "u8 \<Rightarrow> capability_code option" where
  "capability_code_from_u8 n = find (\<lambda>c. capability_code_code c = n) capability_codes"

record capability =
  capability_code :: capability_code
  capability_length :: nat
  capability_value :: bytes

definition empty_capability :: capability where
  "empty_capability =
     \<lparr>capability_code = CC_Multiprotocol, capability_length = 0, capability_value = []\<rparr>"

text \<open>A buffer too short or a code not known gives an empty multiprotocol capability.\<close>

definition capability_from_bytes :: "bytes \<Rightarrow> capability" where
  "capability_from_bytes src =
     (if length src < 2 then empty_capability
      else let code = src ! 0; len = unat (src ! 1)
        in case capability_code_from_u8 code of
             None \<Rightarrow> empty_capability
           | Some c \<Rightarrow>
               \<lparr>capability_code = c, capability_length = len,
                capability_value = (if 2 + len \<le> length src then take len (drop 2 src) else [])\<rparr>)"

definition capability_to_bytes :: "capability \<Rightarrow> bytes" where
  "capability_to_bytes c =
     capability_code_code (capability_code c) # as_u8 (capability_length c) # capability_value c"

record capability_multiprotocol =
  mp_afi :: afi
  mp_safi :: safi

definition capability_multiprotocol_to_bytes :: "capability_multiprotocol \<Rightarrow> bytes" where
  "capability_multiprotocol_to_bytes m = to_be 2 (afi_code (mp_afi m)) @ [0, safi_code (mp_safi m)]"

definition opt_param_default :: opt_param where
  "opt_param_default =
     (let cv = capability_multiprotocol_to_bytes \<lparr>mp_afi = Ipv4, mp_safi = NLRIUnicast\<rparr>;
          pc = capability_to_bytes \<lparr>capability_code = CC_Multiprotocol,
                 capability_length = length cv, capability_value = cv\<rparr>
      in \<lparr>param_type = Capability, param_length = length pc, param_value = pc\<rparr>)"

definition opt_params_default :: opt_params where
  "opt_params_default =
     \<lparr>op_len = unat (param_value opt_param_default ! 1) + 1, params = [opt_param_default]\<rparr>"

text \<open>The capabilities of one parameter.  A capability that claims more than is left ends the
  loop; it is still handed on (with no value) when it claims more than twice what is there.\<close>

function capability_loop :: "bytes \<Rightarrow> nat \<Rightarrow> capability list \<Rightarrow> capability list" where
  "capability_loop data off acc =
     (if off < length data
      then if length data < off + 2 then acc
        else let cap_len = unat (data ! (off + 1))
          in if length data < off + 2 + cap_len
             then let available_data = length data - off - 2
               in if available_data * 2 < cap_len \<and> 0 < available_data
                  then acc @ [capability_from_bytes (drop off data)]
                  else acc
             else capability_loop data (off + (2 + cap_len))
               (acc @ [capability_from_bytes (take (2 + cap_len) (drop off data))])
      else acc)"
  by pat_completeness auto
termination
  by (relation "measure (\<lambda>(data, off, acc). length data - off)") auto

declare capability_loop.simps [simp del]

fun capabilities_from_params :: "opt_param list \<Rightarrow> capability list" where
  "capabilities_from_params [] = []"
| "capabilities_from_params (p # ps) =
     (if param_type p = Capability then capability_loop (param_value p) 0 [] else [])
     @ capabilities_from_params ps"

section \<open>The capabilities of a session\<close>

record neighbor_capabilities =
  multiprotocol :: "address_family list option"
  route_refresh :: bool
  outbound_route_filtering :: bool
  extended_next_hop_encoding :: bool
  graceful_restart :: bool
  four_octect_asn :: "u32 option"

definition capabilities_default :: neighbor_capabilities where
  "capabilities_default = \<lparr>multiprotocol = None, route_refresh = False,
     outbound_route_filtering = False, extended_next_hop_encoding = False,
     graceful_restart = False, four_octect_asn = None\<rparr>"

definition read_af :: "capability \<Rightarrow> (bgp_error, address_family option) outcome" where
  "read_af c =
     bind_outcome (slice (capability_value c) 0 2) (\<lambda>a.
     bind_outcome (slice (capability_value c) 3 4) (\<lambda>s.
     Ok (case (afi_from_u16 (from_be a), safi_from_u8 (from_be s)) of
           (Some a', Some s') \<Rightarrow> Some \<lparr>afi = a', safi = s'\<rparr>
         | _ \<Rightarrow> None)))"

definition capability_step ::
    "capability \<Rightarrow> neighbor_capabilities \<times> address_family list
      \<Rightarrow> (bgp_error, neighbor_capabilities \<times> address_family list) outcome" where
  "capability_step c st =
     (case st of (caps, afs) \<Rightarrow>
        (case capability_code c of
           CC_Multiprotocol \<Rightarrow>
             (if 4 \<le> capability_length c
              then bind_outcome (read_af c) (\<lambda>r. case r of
                     None \<Rightarrow> Ok (caps, afs)
                   | Some fam \<Rightarrow> Ok (caps, afs @ [fam]))
              else Ok (caps, afs))
         | CC_RouteRefresh \<Rightarrow> Ok (caps\<lparr>route_refresh := True\<rparr>, afs)
         | CC_ExtendedNextHopEncoding \<Rightarrow> Ok (caps\<lparr>extended_next_hop_encoding := True\<rparr>, afs)
         | CC_OutboundRouteFiltering \<Rightarrow> Ok (caps\<lparr>outbound_route_filtering := True\<rparr>, afs)
         | CC_GracefulRestart \<Rightarrow> Ok (caps\<lparr>graceful_restart := True\<rparr>, afs)
         | CC_FourOctectASN \<Rightarrow>
             (if capability_length c \<noteq> 4
              then Panic (ExplicitPanic ''Unexpected length of BGP capability'')
              else if length (capability_value c) \<noteq> 4 then Panic SliceOutOfBounds
              else Ok (caps\<lparr>four_octect_asn := Some (from_be (capability_value c))\<rparr>, afs))
         | _ \<Rightarrow> Ok (caps, afs)))"

fun capability_steps ::
    "capability list \<Rightarrow> neighbor_capabilities \<times> address_family list
      \<Rightarrow> (bgp_error, neighbor_capabilities \<times> address_family list) outcome" where
  "capability_steps [] st = Ok st"
| "capability_steps (c # cs) st = bind_outcome (capability_step c st) (capability_steps cs)"

text \<open>\<open>Itertools::unique\<close>: the first occurrence of every element, in order.\<close>

fun unique_from :: "'a list \<Rightarrow> 'a list \<Rightarrow> 'a list" where
  "unique_from seen [] = []"
| "unique_from seen (x # xs) =
     (if x \<in> set seen then unique_from seen xs else x # unique_from (x # seen) xs)"

definition neighbor_capabilities_from ::
    "capability list \<Rightarrow> (bgp_error, neighbor_capabilities) outcome" where
  "neighbor_capabilities_from cs =
     bind_outcome (capability_steps cs (capabilities_default, [])) (\<lambda>(caps, afs).
       Ok (if afs \<noteq> [] then caps\<lparr>multiprotocol := Some (unique_from [] afs)\<rparr> else caps))"

section \<open>Printing and parsing optional parameters\<close>

lemma opt_param_type_from_u8_code [simp]: "opt_param_type_from_u8 (opt_param_type_code t) = Some t"
  by (cases t) (simp_all add: opt_param_type_from_u8_def)

lemma from_be_1 [simp]: "from_be [b] = (b :: u8)"
  by (simp add: from_be_def be_nat_def)

definition valid_opt_param :: "opt_param \<Rightarrow> bool" where
  "valid_opt_param p \<longleftrightarrow> param_length p = length (param_value p) \<and> param_length p \<le> 255"

lemma opt_params_step_enc:
  assumes "valid_opt_param p"
  shows "opt_params_step (pre @ opt_param_to_bytes p @ post) (length pre) =
    Ok (p, as_u8 (param_length p))"
proof -
  have n: "unat (as_u8 (param_length p)) = length (param_value p)"
    using assms by (simp add: valid_opt_param_def unat_as_u8)
  then have "opt_param_from_bytes (opt_param_to_bytes p) = Ok p"
    using assms by (simp add: opt_param_from_bytes_def opt_param_to_bytes_def slice_def slice_from_Ok
        valid_opt_param_def)
  with n assms show ?thesis
    by (simp add: opt_params_step_def opt_param_to_bytes_def slice_def valid_opt_param_def)
qed

lemma opt_params_loop_step:
  assumes "opt_params_step src i = Ok (p, l)" and "1 \<le> i" and "i + (unat l + 2) \<le> n" and "n \<le> 256"
  shows "opt_params_loop b src (as_u8 (n - 1)) (as_u8 (i - 1)) i acc =
    opt_params_loop b src (as_u8 (n - 1)) (as_u8 (i + (unat l + 2) - 1)) (i + (unat l + 2)) (acc @ [p])"
proof -
  have used: "as_u8 (i - 1) < as_u8 (n - 1)"
    using assms by (simp add: word_less_nat_alt unat_as_u8)
  have s1: "unat l + unat (2 :: u8) < 256"
    using assms by simp
  then have l2: "unat (l + 2) = unat l + 2"
    by (simp add: unat_word_ariths)
  then have s2: "unat (as_u8 (i - 1)) + unat (l + 2) < 256"
    using assms by (simp add: unat_as_u8)
  moreover have "as_u8 (i - 1) + (l + 2) = as_u8 (i + (unat l + 2) - 1)"
    using assms s2 l2 by (simp add: word_unat_eq_iff unat_word_ariths unat_as_u8)
  ultimately show ?thesis
    using used s1 assms(1) by (subst opt_params_loop.simps) simp
qed

interpretation opt_params: item_loop
    "\<lambda>src i. bind_outcome (opt_params_step src i) (\<lambda>(p, l). Ok (p, unat l + 2))"
    "\<lambda>src n i acc. opt_params_loop b src (as_u8 (n - 1)) (as_u8 (i - 1)) i acc"
    "\<lambda>n acc. \<lparr>op_len = n, params = acc\<rparr>" "\<lambda>i n. 1 \<le> i \<and> n \<le> 256"
    opt_param_to_bytes "\<lambda>p. p" valid_opt_param for b
proof
  show "opt_params_loop b src (as_u8 (n - 1)) (as_u8 (n - 1)) n acc = Ok \<lparr>op_len = n, params = acc\<rparr>"
    for src n acc by (simp add: opt_params_loop.simps)
  show "opt_params_loop b src (as_u8 (n - 1)) (as_u8 (i - 1)) i acc =
      opt_params_loop b src (as_u8 (n - 1)) (as_u8 (i + k - 1)) (i + k) (acc @ [x])"
    if "1 \<le> i \<and> n \<le> 256" "i < n" "i + k \<le> n"
      "bind_outcome (opt_params_step src i) (\<lambda>(p, l). Ok (p, unat l + 2)) = Ok (x, k)"
    for src n i k acc x
    using that opt_params_loop_step by (auto simp: outcome_simps)
  show "bind_outcome (opt_params_step (pre @ opt_param_to_bytes y @ post) (length pre))
      (\<lambda>(p, l). Ok (p, unat l + 2)) = Ok (y, length (opt_param_to_bytes y))"
    if "valid_opt_param y" for pre y post
    using that opt_params_step_enc [OF that]
    by (simp add: unat_as_u8 valid_opt_param_def opt_param_to_bytes_def)
qed (simp_all add: opt_param_to_bytes_def)

definition params_size :: "opt_param list \<Rightarrow> nat" where
  "params_size ps = length (concat (map opt_param_to_bytes ps))"

lemma opt_params_roundtrip_aux:
  assumes "\<forall>p \<in> set ps. valid_opt_param p" and "params_size ps \<le> 255"
  shows "opt_params_from_bytes b (as_u8 (params_size ps) # concat (map opt_param_to_bytes ps)) =
    Ok \<lparr>op_len = Suc (params_size ps), params = ps\<rparr>"
  using opt_params.loop_concat_0 [OF assms(1), of "Suc (params_size ps)" "[as_u8 (params_size ps)]" 1 b]
    assms(2)
  by (simp add: opt_params_from_bytes_def slice_def params_size_def) (simp add: as_u8_def)

lemma length_opt_param: "valid_opt_param p \<Longrightarrow> length (opt_param_to_bytes p) = 2 + param_length p"
  by (simp add: opt_param_to_bytes_def valid_opt_param_def)

lemma opt_params_new_size:
  assumes "\<forall>p \<in> set ps. valid_opt_param p"
  shows "op_len (opt_params_new ps) = params_size ps"
proof -
  have "foldl (\<lambda>len p. len + 2 + param_length p) n ps = n + params_size ps" for n
    using assms
    by (induction ps arbitrary: n) (simp_all add: params_size_def length_opt_param)
  then show ?thesis by (simp add: opt_params_new_def)
qed

text \<open>A parse that no overflow check stops is the same in a release build.\<close>

lemma opt_params_loop_release:
  "opt_params_loop Debug src len used i acc = Ok v \<Longrightarrow> opt_params_loop Release src len used i acc = Ok v"
proof (induction Debug src len used i acc rule: opt_params_loop.induct)
  case (1 src len used i acc)
  show ?case
  proof (cases "used < len")
    case True
    with "1.prems" obtain p l where step: "opt_params_step src i = Ok (p, l)"
      and "unat l + unat (2 :: u8) < 256" "unat used + unat (l + 2) < 256"
      and "opt_params_loop Debug src len (used + (l + 2)) (i + (unat l + 2)) (acc @ [p]) = Ok v"
      by (subst (asm) opt_params_loop.simps) (auto simp: outcome_simps)
    with True show ?thesis
      using "1.hyps" [OF True step refl _ _] by (simp add: opt_params_loop.simps [of _ src len used])
  next
    case False
    with "1.prems" show ?thesis by (simp add: opt_params_loop.simps)
  qed
qed

section \<open>Printing and parsing capabilities\<close>

lemma capability_code_from_u8_code [simp]:
  "capability_code_from_u8 (capability_code_code c) = Some c"
  by (cases c) (simp_all add: capability_code_from_u8_def capability_codes_def)

definition valid_capability :: "capability \<Rightarrow> bool" where
  "valid_capability c \<longleftrightarrow> capability_length c = length (capability_value c) \<and> capability_length c \<le> 255"

lemma capability_from_to_bytes: "valid_capability c \<Longrightarrow> capability_from_bytes (capability_to_bytes c) = c"
  by (simp add: capability_from_bytes_def capability_to_bytes_def valid_capability_def unat_as_u8)

lemma capability_loop_enc:
  assumes "\<forall>c \<in> set cs. valid_capability c"
  shows "capability_loop (pre @ concat (map capability_to_bytes cs)) (length pre) acc = acc @ cs"
  using assms
proof (induction cs arbitrary: pre acc)
  case Nil
  then show ?case by (simp add: capability_loop.simps)
next
  case (Cons c cs)
  let ?rest = "concat (map capability_to_bytes cs)" and ?b = "capability_to_bytes c"
  have v: "valid_capability c" and n: "unat (as_u8 (capability_length c)) = length (capability_value c)"
    using Cons.prems by (simp_all add: valid_capability_def unat_as_u8)
  have "capability_loop ((pre @ ?b) @ ?rest) (length (pre @ ?b)) (acc @ [c]) = (acc @ [c]) @ cs"
    using Cons.prems by (intro Cons.IH) simp
  moreover have len: "length ?b = 2 + length (capability_value c)"
    by (simp add: capability_to_bytes_def)
  moreover have "(pre @ ?b @ ?rest) ! Suc (length pre) = as_u8 (capability_length c)"
    by (simp add: capability_to_bytes_def nth_append)
  ultimately show ?case
    using capability_from_to_bytes [OF v]
    by (subst capability_loop.simps) (simp add: n Let_def)
qed

lemma capabilities_from_params_enc:
  assumes "\<forall>c \<in> set cs. valid_capability c"
  shows "capabilities_from_params [\<lparr>param_type = Capability, param_length = n,
    param_value = concat (map capability_to_bytes cs)\<rparr>] = cs"
  using capability_loop_enc [OF assms, of "[]"] by simp

section \<open>When a session's capabilities cannot be read\<close>

definition bad_capability :: "capability \<Rightarrow> bool" where
  "bad_capability c \<longleftrightarrow>
     capability_code c = CC_Multiprotocol \<and> 4 \<le> capability_length c \<and> length (capability_value c) < 4
   \<or> capability_code c = CC_FourOctectASN \<and> (capability_length c \<noteq> 4 \<or> length (capability_value c) \<noteq> 4)"

lemma capability_step_panics: "panics (capability_step c st) \<longleftrightarrow> bad_capability c"
  by (cases st; cases "capability_code c")
    (auto simp: capability_step_def bad_capability_def read_af_def outcome_simps split: option.splits)

lemma capability_step_no_Err: "capability_step c st \<noteq> Err e"
  by (cases st; cases "capability_code c")
    (auto simp: capability_step_def read_af_def outcome_simps split: option.splits)

lemma capability_steps_panics: "panics (capability_steps cs st) \<longleftrightarrow> (\<exists>c \<in> set cs. bad_capability c)"
proof (induction cs arbitrary: st)
  case (Cons c cs)
  then show ?case
    by (cases "capability_step c st")
      (auto simp: outcome_simps capability_step_no_Err simp flip: capability_step_panics [of c st])
qed simp

lemma neighbor_capabilities_panics:
  "panics (neighbor_capabilities_from cs) \<longleftrightarrow> (\<exists>c \<in> set cs. bad_capability c)"
  by (auto simp: neighbor_capabilities_from_def outcome_simps capability_steps_panics)

section \<open>Families\<close>

definition family_capability :: "address_family \<Rightarrow> capability" where
  "family_capability fam =
     (let mp = capability_multiprotocol_to_bytes \<lparr>mp_afi = afi fam, mp_safi = safi fam\<rparr>
      in \<lparr>capability_code = CC_Multiprotocol, capability_length = length mp, capability_value = mp\<rparr>)"

lemma valid_family_capability: "valid_capability (family_capability fam)"
  by (simp add: valid_capability_def family_capability_def capability_multiprotocol_to_bytes_def Let_def)

lemma read_af_family: "read_af (family_capability fam) = Ok (Some fam)"
  by (simp add: read_af_def family_capability_def capability_multiprotocol_to_bytes_def Let_def slice_def)

lemma capability_steps_families:
  "capability_steps (map family_capability fams) (caps, afs) = Ok (caps, afs @ fams)"
proof (induction fams arbitrary: afs)
  case (Cons fam fams)
  have "capability_step (family_capability fam) (caps, afs) = Ok (caps, afs @ [fam])"
    using read_af_family [of fam]
    by (simp add: capability_step_def) (simp add: family_capability_def capability_multiprotocol_to_bytes_def Let_def)
  with Cons show ?case by simp
qed simp

lemma set_unique_from: "set (unique_from seen xs) = set xs - set seen"
  by (induction seen xs rule: unique_from.induct) auto

lemma distinct_unique_from: "distinct (unique_from seen xs)"
  by (induction seen xs rule: unique_from.induct) (auto simp: set_unique_from)

lemma unique_from_distinct: "distinct xs \<Longrightarrow> set xs \<inter> set seen = {} \<Longrightarrow> unique_from seen xs = xs"
  by (induction seen xs rule: unique_from.induct) auto

text \<open>The families a list of capabilities names, in its order.\<close>

definition named_family :: "capability \<Rightarrow> address_family list" where
  "named_family c =
     (if capability_code c = CC_Multiprotocol \<and> 4 \<le> capability_length c
      then case read_af c of Ok (Some fam) \<Rightarrow> [fam] | _ \<Rightarrow> []
      else [])"

definition named_families :: "capability list \<Rightarrow> address_family list" where
  "named_families cs = concat (map named_family cs)"

lemma capability_step_families:
  assumes "capability_step c (caps, afs) = Ok (caps', afs')"
  shows "afs' = afs @ named_family c \<and> multiprotocol caps' = multiprotocol caps"
  using assms
  by (cases "capability_code c")
    (auto simp: capability_step_def named_family_def outcome_simps split: if_splits option.splits outcome.splits)

lemma capability_steps_named:
  "capability_steps cs (caps, afs) = Ok (caps', afs') \<Longrightarrow>
    afs' = afs @ named_families cs \<and> multiprotocol caps' = multiprotocol caps"
proof (induction cs arbitrary: caps afs)
  case (Cons c cs)
  then obtain caps1 afs1 where "capability_step c (caps, afs) = Ok (caps1, afs1)"
    and "capability_steps cs (caps1, afs1) = Ok (caps', afs')"
    by (auto simp: outcome_simps)
  from capability_step_families [OF this(1)] Cons.IH [OF this(2)] show ?case
    by (simp add: named_families_def)
qed (simp add: named_families_def)

lemma neighbor_capabilities_families:
  assumes "\<not> panics (neighbor_capabilities_from cs)"
  shows "\<exists>caps. neighbor_capabilities_from cs = Ok caps
    \<and> (case multiprotocol caps of None \<Rightarrow> named_families cs = []
        | Some fams \<Rightarrow> distinct fams \<and> fams \<noteq> [] \<and> set fams = set (named_families cs))"
proof (cases "capability_steps cs (capabilities_default, [])")
  case (Ok st)
  then obtain caps afs where st: "capability_steps cs (capabilities_default, []) = outcome.Ok (caps, afs)"
    by (cases st) simp
  then show ?thesis
    using capability_steps_named [OF st] set_unique_from [of "[]" afs] distinct_unique_from [of "[]" afs]
    by (auto simp: neighbor_capabilities_from_def capabilities_default_def)
next
  case (Err e)
  have "capability_steps cs st \<noteq> outcome.Err e" for st
    by (induction cs arbitrary: st) (auto simp: outcome_simps capability_step_no_Err)
  with Err show ?thesis by simp
qed (use assms in \<open>simp add: neighbor_capabilities_from_def\<close>)

end
