(* ===== verification/Codec.thy ===== *)
theory Codec
  imports Bgp_Types
begin

text \<open>
  \<open>src/bgp/codec.rs\<close>: the framing of the TCP stream.  \<open>decode\<close> looks at the receive buffer and
  takes one frame off its front when a whole one is there; \<open>encode\<close> appends the marker and the
  length to a message and puts it in the send buffer.  A buffer is a byte list; both functions
  return the buffer as they leave it.
\<close>

section \<open>Decoder and encoder\<close>

definition starts_with :: "bytes \<Rightarrow> bytes \<Rightarrow> bool" where
  "starts_with src pre \<longleftrightarrow> take (length pre) src = pre"

definition codec_decode :: "bytes \<Rightarrow> (io_error, bytes option \<times> bytes) outcome" where
  "codec_decode src =
     (if length src < MIN_MESSAGE_LENGTH then Ok (None, src)
      else if \<not> starts_with src MARKER
      then Err (InvalidData ''Invalid BGP marker - message should start with 16 bytes of 0xFF'')
      else if length src < 18 then Ok (None, src)
      else bind_outcome (read_u16 src 16) (\<lambda>w.
        let len = unat w
        in bind_outcome
          (map_err (\<lambda>e. InvalidData (''Invalid BGP message length: '' @ validation_error_text e))
            (validate_message_length len))
          (\<lambda>_. if length src < len then Ok (None, src)
               else bind_outcome
                 (if MIN_MESSAGE_LENGTH \<le> len
                  then bind_outcome (index src 18) (\<lambda>t.
                    if message_type_from_u8 t = None
                    then Err (InvalidData (''Invalid BGP message type: '' @ dec (unat t)))
                    else Ok ())
                  else Ok ())
                 (\<lambda>_. bind_outcome (slice src 0 len) (\<lambda>data. Ok (Some data, drop len src))))))"

definition codec_encode :: "bytes \<Rightarrow> bytes \<Rightarrow> (io_error, bytes) outcome" where
  "codec_encode data buf =
     (let total_length = length data + length MARKER + 2
      in bind_outcome
        (map_err (\<lambda>e. InvalidData (''BGP message too large for encoding: '' @ validation_error_text e))
          (validate_message_length total_length))
        (\<lambda>_. Ok (buf @ MARKER @ to_be 2 (as_u16 total_length) @ data)))"

text \<open>What \<open>Framed\<close> does with the decoder: it decodes until the buffer holds no whole frame.\<close>

function decode_frames :: "bytes \<Rightarrow> (io_error, bytes list \<times> bytes) outcome" where
  "decode_frames src =
     bind_outcome (codec_decode src) (\<lambda>(m, rest).
       case m of
         None \<Rightarrow> Ok ([], rest)
       | Some frame \<Rightarrow>
           (if length rest < length src
            then bind_outcome (decode_frames rest) (\<lambda>(fs, r). Ok (frame # fs, r))
            else Ok ([frame], rest)))"
  by pat_completeness auto
termination
  by (relation "measure length") auto

declare decode_frames.simps [simp del]

text \<open>The stream arrives in pieces; each is appended to what the buffer still holds.\<close>

fun feed :: "bytes \<Rightarrow> bytes list \<Rightarrow> (io_error, bytes list \<times> bytes) outcome" where
  "feed buf [] = Ok ([], buf)"
| "feed buf (c # cs) =
     bind_outcome (decode_frames (buf @ c)) (\<lambda>(fs, r).
     bind_outcome (feed r cs) (\<lambda>(gs, r'). Ok (fs @ gs, r')))"

section \<open>What a frame is\<close>

text \<open>A well-formed frame: the marker, its own length, a known type, a length in range.\<close>

definition frame :: "bytes \<Rightarrow> bool" where
  "frame f \<longleftrightarrow> 19 \<le> length f \<and> length f \<le> 4096 \<and> take 16 f = MARKER
     \<and> unat (from_be (take 2 (drop 16 f)) :: u16) = length f
     \<and> message_type_from_u8 (f ! 18) \<noteq> None"

lemma take_take_drop: "j + k \<le> n \<Longrightarrow> take k (drop j (take n xs)) = take k (drop j xs)"
  by (simp add: drop_take min_def)

text \<open>The decoder on a long enough buffer, with its checks in the order of the source.\<close>

lemma codec_decode_long:
  assumes "19 \<le> length src"
  shows "codec_decode src =
    (let len = unat (from_be (take 2 (drop 16 src)) :: u16) in
     if take 16 src \<noteq> MARKER
     then Err (InvalidData ''Invalid BGP marker - message should start with 16 bytes of 0xFF'')
     else if len < 19
     then Err (InvalidData (''Invalid BGP message length: '' @ validation_error_text (MessageTooShort len 19)))
     else if 4096 < len
     then Err (InvalidData (''Invalid BGP message length: '' @ validation_error_text (MessageTooLong len 4096)))
     else if length src < len then Ok (None, src)
     else if message_type_from_u8 (src ! 18) = None
     then Err (InvalidData (''Invalid BGP message type: '' @ dec (unat (src ! 18))))
     else Ok (Some (take len src), drop len src))"
  using assms
  by (simp add: codec_decode_def starts_with_def read_u16_def slice_def index_def Let_def
      validate_message_length_def MIN_MESSAGE_LENGTH_def MAX_MESSAGE_LENGTH_def)

lemma codec_decode_short: "length src < 19 \<Longrightarrow> codec_decode src = Ok (None, src)"
  by (simp add: codec_decode_def MIN_MESSAGE_LENGTH_def)

lemma codec_decode_no_panic: "\<not> panics (codec_decode src)"
  by (cases "length src < 19") (simp_all add: codec_decode_short codec_decode_long Let_def)

lemma codec_decode_Some:
  assumes "codec_decode src = Ok (Some f, rest)"
  shows "src = f @ rest \<and> frame f"
proof -
  have len: "19 \<le> length src"
    using assms by (cases "length src < 19") (simp_all add: codec_decode_short)
  define n where "n = unat (from_be (take 2 (drop 16 src)) :: u16)"
  have f: "f = take n src" "rest = drop n src" "19 \<le> n" "n \<le> 4096" "n \<le> length src"
    "take 16 src = MARKER" "message_type_from_u8 (src ! 18) \<noteq> None"
    using assms unfolding codec_decode_long [OF len] Let_def n_def [symmetric]
    by (simp_all split: if_splits)
  have "take 2 (drop 16 f) = take 2 (drop 16 src)" "take 16 f = take 16 src" "f ! 18 = src ! 18"
    using f(3) by (simp_all add: f(1) take_take_drop min_def)
  then have "frame f"
    using f by (simp add: frame_def n_def [symmetric])
  then show ?thesis by (simp add: f(1,2))
qed

lemma codec_decode_frame:
  assumes "frame f"
  shows "codec_decode (f @ rest) = Ok (Some f, rest)"
proof -
  have "take 2 (drop 16 (f @ rest)) = take 2 (drop 16 f)" "(f @ rest) ! 18 = f ! 18"
    using assms by (auto simp: frame_def nth_append)
  then show ?thesis
    using assms by (subst codec_decode_long) (auto simp: frame_def Let_def)
qed

lemma codec_decode_prefix:
  assumes "frame (f @ g)" and "g \<noteq> []"
  shows "codec_decode f = Ok (None, f)"
proof (cases "length f < 19")
  case True
  then show ?thesis by (rule codec_decode_short)
next
  case False
  then have "take 2 (drop 16 (f @ g)) = take 2 (drop 16 f)" "take 16 (f @ g) = take 16 f"
    by auto
  moreover have "length f < length (f @ g)" using assms(2) by simp
  ultimately show ?thesis
    using assms(1) False by (subst codec_decode_long) (auto simp: frame_def Let_def)
qed

lemma frame_encode:
  assumes "codec_encode data buf = Ok out" and "data \<noteq> []" and "message_type_from_u8 (hd data) \<noteq> None"
  shows "\<exists>f. out = buf @ f \<and> frame f \<and> drop 18 f = data"
proof -
  let ?n = "length data + 18"
  have n: "19 \<le> ?n" "?n \<le> 4096"
    and out: "out = buf @ MARKER @ to_be 2 (as_u16 ?n) @ data"
    using assms(1) by (auto simp: codec_encode_def outcome_simps Let_def add.commute)
  have "unat (as_u16 ?n) = ?n" using n by (simp add: unat_as_u16)
  then have "frame (MARKER @ to_be 2 (as_u16 ?n) @ data)"
    using n assms(2,3) by (simp add: frame_def nth_append hd_conv_nth)
  then show ?thesis using out by auto
qed

lemma decode_frames_concat:
  assumes "\<forall>f \<in> set fs. frame f" and "codec_decode rest = Ok (None, rest)"
  shows "decode_frames (concat fs @ rest) = Ok (fs, rest)"
  using assms(1)
proof (induction fs)
  case Nil
  then show ?case using assms(2) by (simp add: decode_frames.simps)
next
  case (Cons f fs)
  then have "f \<noteq> []" by (auto simp: frame_def)
  with Cons show ?case
    by (simp add: decode_frames.simps [of "f @ _"] codec_decode_frame)
qed

lemma decode_frames_sound:
  assumes "decode_frames src = Ok (fs, rest)"
  shows "src = concat fs @ rest \<and> (\<forall>f \<in> set fs. frame f) \<and> codec_decode rest = Ok (None, rest)"
  using assms
proof (induction src arbitrary: fs rest rule: decode_frames.induct)
  case (1 src)
  from "1.prems" obtain m r where dec: "codec_decode src = Ok (m, r)"
    by (subst (asm) decode_frames.simps) (auto simp: outcome_simps)
  show ?case
  proof (cases m)
    case None
    then have "r = src"
      using dec codec_decode_long [of src] codec_decode_short [of src]
      by (cases "19 \<le> length src") (auto simp: Let_def split: if_splits)
    with "1.prems" dec None show ?thesis
      by (simp add: decode_frames.simps [of src])
  next
    case (Some f)
    have src: "src = f @ r" and f: "frame f"
      using codec_decode_Some dec Some by auto
    then have less: "length r < length src" by (auto simp: frame_def)
    from "1.prems" obtain fs' where fs: "fs = f # fs'" and rec: "decode_frames r = Ok (fs', rest)"
      using less by (auto simp: decode_frames.simps [of src] dec Some outcome_simps)
    show ?thesis
      using "1.IH" [OF dec refl Some less rec] src f fs by simp
  qed
qed

lemma decode_frames_no_panic: "\<not> panics (decode_frames src)"
  by (induction src rule: decode_frames.induct)
    (subst decode_frames.simps, auto simp: outcome_simps codec_decode_no_panic split: option.splits)

section \<open>The stream may be cut anywhere\<close>

definition partial_frame :: "bytes \<Rightarrow> bool" where
  "partial_frame p \<longleftrightarrow> (\<exists>g. g \<noteq> [] \<and> frame (p @ g))"

lemma partial_frame_decode: "partial_frame p \<Longrightarrow> codec_decode p = Ok (None, p)"
  by (auto simp: partial_frame_def intro: codec_decode_prefix)

lemma partial_frame_prefix: "partial_frame (p @ q) \<Longrightarrow> partial_frame p"
  by (force simp: partial_frame_def)

lemma decode_frames_prefix:
  assumes "\<forall>f \<in> set fs. frame f" and "partial_frame p" and "s @ t = concat fs @ p"
  shows "\<exists>gs hs r. fs = gs @ hs \<and> decode_frames s = Ok (gs, r) \<and> r @ t = concat hs @ p"
  using assms
proof (induction fs arbitrary: s)
  case Nil
  then have "codec_decode s = Ok (None, s)"
    by (metis append_Nil concat.simps(1) partial_frame_prefix partial_frame_decode)
  then show ?case
    using Nil.prems(3) by (simp add: decode_frames.simps)
next
  case (Cons f fs)
  from Cons.prems(3) have eq: "s @ t = f @ concat fs @ p" by simp
  show ?case
  proof (cases "length s < length f")
    case True
    then have "f = s @ take (length f - length s) t"
      using arg_cong [OF eq, of "take (length f)"] by simp
    moreover from this True have "take (length f - length s) t \<noteq> []" by (metis append_Nil2 less_irrefl)
    moreover have "frame f" using Cons.prems(1) by simp
    ultimately have "partial_frame s" by (metis partial_frame_def)
    then have "decode_frames s = Ok ([], s)"
      by (simp add: decode_frames.simps partial_frame_decode)
    then show ?thesis using eq by (intro exI conjI) (rule append_Nil [symmetric], assumption, simp)
  next
    case False
    then have "take (length f) s = f"
      using arg_cong [OF eq, of "take (length f)"] by simp
    then obtain s' where s: "s = f @ s'"
      by (metis append_take_drop_id)
    then have rest: "s' @ t = concat fs @ p" using eq by simp
    obtain gs hs r where IH: "fs = gs @ hs" "decode_frames s' = Ok (gs, r)" "r @ t = concat hs @ p"
      using Cons.IH [OF _ Cons.prems(2) rest] Cons.prems(1) by auto
    have "frame f" "f \<noteq> []" using Cons.prems(1) by (auto simp: frame_def)
    then have "decode_frames s = Ok (f # gs, r)"
      using IH(2) by (simp add: s decode_frames.simps [of "f @ s'"] codec_decode_frame)
    moreover have "f # fs = (f # gs) @ hs" using IH(1) by simp
    ultimately show ?thesis using IH(3) by blast
  qed
qed

lemma feed_concat:
  assumes "\<forall>f \<in> set fs. frame f" and "partial_frame p" and "buf @ concat cs = concat fs @ p"
    and "codec_decode buf = Ok (None, buf)"
  shows "feed buf cs = Ok (fs, p)"
  using assms
proof (induction cs arbitrary: buf fs)
  case Nil
  then have "decode_frames buf = Ok (fs, p)"
    using decode_frames_concat [of fs p] by (simp add: partial_frame_decode)
  with Nil.prems(4) show ?case
    by (simp add: decode_frames.simps [of buf])
next
  case (Cons c cs)
  obtain gs hs r where dec: "fs = gs @ hs" "decode_frames (buf @ c) = Ok (gs, r)"
      "r @ concat cs = concat hs @ p"
    using decode_frames_prefix [OF Cons.prems(1,2), of "buf @ c" "concat cs"] Cons.prems(3) by auto
  have "codec_decode r = Ok (None, r)"
    using decode_frames_sound [OF dec(2)] by simp
  then have "feed r cs = Ok (hs, p)"
    using Cons.IH [of hs r] Cons.prems(1,2) dec by auto
  with dec show ?case by simp
qed

end
