(* ===== verification/Messages.thy ===== *)
theory Messages
  imports Attributes Capabilities Codec
begin

text \<open>
  \<open>src/bgp/messages.rs\<close>: the four messages, each printed and parsed, and the whole message with its
  header.  The parsers take the build (for the \<open>u8\<close> and \<open>usize\<close> arithmetic they can overflow) and
  the \<open>ipnet\<close> operations.
\<close>

section \<open>OPEN\<close>

record open_message =
  om_version :: u8
  om_asn :: u16
  om_hold_time :: u16
  om_router_id :: u32
  om_opt_params :: opt_params

definition open_from_bytes :: "build \<Rightarrow> bytes \<Rightarrow> (bgp_error, open_message) outcome" where
  "open_from_bytes b src =
     bind_outcome (slice src 0 1) (\<lambda>v.
     bind_outcome (read_u16 src 1) (\<lambda>as_n.
     bind_outcome (read_u16 src 3) (\<lambda>hold.
     bind_outcome (read_u32 src 5) (\<lambda>rid.
     bind_outcome (slice_from src 9) (\<lambda>rest.
     bind_outcome (opt_params_from_bytes b rest) (\<lambda>opt.
     Ok \<lparr>om_version = from_be v, om_asn = as_n, om_hold_time = hold, om_router_id = rid,
         om_opt_params = opt\<rparr>))))))"

definition open_to_bytes :: "open_message \<Rightarrow> bytes" where
  "open_to_bytes m = om_version m # to_be 2 (om_asn m) @ to_be 2 (om_hold_time m)
     @ to_be 4 (om_router_id m) @ opt_params_to_bytes (om_opt_params m)"

definition open_byte_len :: "open_message \<Rightarrow> nat" where
  "open_byte_len m = op_len (om_opt_params m) + 10 * 2"

definition open_new :: "u16 \<Rightarrow> u32 \<Rightarrow> u16 \<Rightarrow> neighbor_capabilities \<Rightarrow> open_message" where
  "open_new asn rid hold capabilities =
     (let ps = (case multiprotocol capabilities of
          None \<Rightarrow> [opt_param_default]
        | Some families \<Rightarrow>
            (let caps = map (\<lambda>fam.
                 let mp = capability_multiprotocol_to_bytes \<lparr>mp_afi = afi fam, mp_safi = safi fam\<rparr>
                 in \<lparr>capability_code = CC_Multiprotocol, capability_length = length mp,
                     capability_value = mp\<rparr>) families;
                 cb = concat (map capability_to_bytes caps)
             in [\<lparr>param_type = Capability, param_length = length cb, param_value = cb\<rparr>]))
      in \<lparr>om_version = VERSION, om_asn = asn, om_hold_time = hold, om_router_id = rid,
          om_opt_params = opt_params_new ps\<rparr>)"

section \<open>UPDATE\<close>

record 'n update_message =
  withdrawn_routes :: "'n nlri list"
  path_attributes :: "'n path_attribute list"
  um_nlri :: "'n nlri list"

definition update_new :: "'n update_message" where
  "update_new = \<lparr>withdrawn_routes = [], path_attributes = [], um_nlri = []\<rparr>"

definition update_byte_len :: "'n update_message \<Rightarrow> nat" where
  "update_byte_len m =
     length (withdrawn_routes m) + length (path_attributes m) + length (um_nlri m) + 2 * 2"

primrec attrs_to_bytes :: "'n ipnet_ops \<Rightarrow> 'n path_attribute list \<Rightarrow> (bgp_error, bytes) outcome" where
  "attrs_to_bytes L [] = Ok []"
| "attrs_to_bytes L (a # as) =
     bind_outcome (path_attribute_to_bytes L a) (\<lambda>b.
     bind_outcome (attrs_to_bytes L as) (\<lambda>bs. Ok (b @ bs)))"

definition update_to_bytes :: "'n ipnet_ops \<Rightarrow> 'n update_message \<Rightarrow> (bgp_error, bytes) outcome" where
  "update_to_bytes L m =
     bind_outcome (nlris_to_bytes L (withdrawn_routes m)) (\<lambda>wd.
     bind_outcome (attrs_to_bytes L (path_attributes m)) (\<lambda>pa.
     bind_outcome (nlris_to_bytes L (um_nlri m)) (\<lambda>nl.
     Ok (to_be 2 (as_u16 (length wd)) @ wd @ to_be 2 (as_u16 (length pa)) @ pa @ nl))))"

text \<open>\<open>((prefix_len as f32 / 8.0).ceil() + 1.0) as usize\<close>: the division and the ceiling are exact
  for every \<open>u8\<close>.\<close>

definition float_blen :: "u8 \<Rightarrow> nat" where
  "float_blen p = (unat p + 7) div 8 + 1"

definition message_err :: "validation_error \<Rightarrow> bgp_error" where
  "message_err e = Message (validation_error_text e)"

definition nlri_err :: "bgp_error \<Rightarrow> bgp_error" where
  "nlri_err e = Message (''Failed to parse NLRI: '' @ bgp_error_text e)"

text \<open>One withdrawn prefix.  \<open>i.checked_add(..)\<close> cannot fail on indices into a buffer.\<close>

definition withdrawn_step :: "'n ipnet_ops \<Rightarrow> bytes \<Rightarrow> nat \<Rightarrow> (bgp_error, 'n nlri \<times> nat) outcome" where
  "withdrawn_step L src i =
     bind_outcome (index src i) (\<lambda>plen.
     bind_outcome (map_err message_err (prefix_bytes plen Ipv4)) (\<lambda>plen_bytes.
     let end_i = i + (plen_bytes + 1)
     in if length src < end_i then Err (Message ''NLRI extends beyond buffer'')
        else bind_outcome (slice src i end_i) (\<lambda>octets.
          bind_outcome (map_err nlri_err (nlri_from_ipv4_octets L octets)) (\<lambda>n.
          Ok (n, float_blen (net_prefix_len L (net n)))))))"

function withdrawn_loop ::
    "'n ipnet_ops \<Rightarrow> bytes \<Rightarrow> nat \<Rightarrow> nat \<Rightarrow> nat \<Rightarrow> 'n nlri list
      \<Rightarrow> (bgp_error, 'n nlri list \<times> nat) outcome" where
  "withdrawn_loop L src wdl used i acc =
     (if used < wdl
      then if length src \<le> i then Ok (acc, i)
        else bind_outcome (withdrawn_step L src i) (\<lambda>(n, blen).
          withdrawn_loop L src wdl (used + blen) (i + blen) (acc @ [n]))
      else Ok (acc, i))"
  by pat_completeness auto
termination
  by (relation "measure (\<lambda>(L, src, wdl, used, i, acc). wdl - used)")
    (auto simp: withdrawn_step_def outcome_simps Let_def float_blen_def split: if_splits)

declare withdrawn_loop.simps [simp del]

text \<open>One path attribute, or \<open>None\<close> where the loop breaks off because the buffer is too short.\<close>

definition attr_step ::
    "build \<Rightarrow> 'n ipnet_ops \<Rightarrow> bytes \<Rightarrow> nat \<Rightarrow> (bgp_error, ('n path_attribute \<times> nat) option) outcome"
  where
  "attr_step b L src i =
     bind_outcome (index src i) (\<lambda>flags.
     if \<not> is_extended_len flags
     then if length src < i + 3 then Ok None
       else bind_outcome (index src (i + 2)) (\<lambda>l.
         let atn = unat l
         in if length src < i + 3 + atn then Ok None
            else bind_outcome (slice src i (i + 3 + atn)) (\<lambda>bs.
              bind_outcome (path_attribute_from_bytes b L bs) (\<lambda>a. Ok (Some (a, 3 + atn)))))
     else if length src < i + 4 then Ok None
       else bind_outcome (read_u16 src (i + 2)) (\<lambda>l.
         let atn = unat l
         in if length src < i + 4 + atn then Ok None
            else bind_outcome (slice src i (i + 4 + atn)) (\<lambda>bs.
              bind_outcome (path_attribute_from_bytes b L bs) (\<lambda>a. Ok (Some (a, 4 + atn))))))"

function attr_loop ::
    "build \<Rightarrow> 'n ipnet_ops \<Rightarrow> bytes \<Rightarrow> nat \<Rightarrow> nat \<Rightarrow> nat \<Rightarrow> 'n path_attribute list
      \<Rightarrow> (bgp_error, 'n path_attribute list \<times> nat) outcome" where
  "attr_loop b L src atl used i acc =
     (if used < atl
      then if length src \<le> i then Ok (acc, i)
        else bind_outcome (attr_step b L src i) (\<lambda>r. case r of
            None \<Rightarrow> Ok (acc, i)
          | Some (a, k) \<Rightarrow> attr_loop b L src atl (used + k) (i + k) (acc @ [a]))
      else Ok (acc, i))"
  by pat_completeness auto
termination
  by (relation "measure (\<lambda>(b, L, src, atl, used, i, acc). atl - used)")
    (auto simp: attr_step_def outcome_simps Let_def split: if_splits)

declare attr_loop.simps [simp del]

text \<open>One announced prefix: no check that it ends inside the buffer.\<close>

definition route_step :: "'n ipnet_ops \<Rightarrow> bytes \<Rightarrow> nat \<Rightarrow> (bgp_error, 'n nlri \<times> nat) outcome" where
  "route_step L src i =
     bind_outcome (index src i) (\<lambda>plen.
     bind_outcome (map_err message_err (prefix_bytes plen Ipv4)) (\<lambda>plen_bytes.
     bind_outcome (slice src i (i + (plen_bytes + 1))) (\<lambda>octets.
     bind_outcome (map_err nlri_err (nlri_from_ipv4_octets L octets)) (\<lambda>n.
     Ok (n, float_blen (net_prefix_len L (net n)))))))"

function routes_loop ::
    "'n ipnet_ops \<Rightarrow> bytes \<Rightarrow> nat \<Rightarrow> nat \<Rightarrow> 'n nlri list \<Rightarrow> (bgp_error, 'n nlri list) outcome" where
  "routes_loop L src total_len i acc =
     (if i < total_len
      then bind_outcome (route_step L src i) (\<lambda>(n, blen).
        routes_loop L src total_len (i + blen) (acc @ [n]))
      else Ok acc)"
  by pat_completeness auto
termination
  by (relation "measure (\<lambda>(L, src, total_len, i, acc). total_len - i)")
    (auto simp: route_step_def outcome_simps float_blen_def)

declare routes_loop.simps [simp del]

definition update_from_bytes ::
    "build \<Rightarrow> 'n ipnet_ops \<Rightarrow> bytes \<Rightarrow> (bgp_error, 'n update_message) outcome" where
  "update_from_bytes b L src =
     (if length src < 2 then Err (Message ''Insufficient data for withdrawn routes length'')
      else bind_outcome (read_u16 src 0) (\<lambda>w.
        bind_outcome (withdrawn_loop L src (unat w) 0 2 []) (\<lambda>(wd, i).
        if length src < i + 2 then Err (Message ''Not enough data for path attributes length'')
        else bind_outcome (read_u16 src i) (\<lambda>al.
          let atl = unat al; i = i + 2
          in if length src < i + atl
             then Err (Message ''Path attributes length exceeds available data'')
             else bind_outcome (attr_loop b L src atl 0 i []) (\<lambda>(pa, i).
               bind_outcome (routes_loop L src (length src) i []) (\<lambda>routes.
               Ok \<lparr>withdrawn_routes = wd, path_attributes = pa, um_nlri = routes\<rparr>))))))"

section \<open>NOTIFICATION and KEEPALIVE\<close>

record notification_message =
  nm_error_code :: error_code
  nm_error_subcode :: u8
  nm_data :: bytes

definition notification_new :: "error_code \<Rightarrow> nat \<Rightarrow> notification_message" where
  "notification_new code sub =
     \<lparr>nm_error_code = code, nm_error_subcode = as_u8 sub, nm_data = []\<rparr>"

definition notification_byte_len :: "notification_message \<Rightarrow> nat" where
  "notification_byte_len m = 2 + length (nm_data m)"

definition notification_from_bytes :: "bytes \<Rightarrow> (bgp_error, notification_message) outcome" where
  "notification_from_bytes src =
     bind_outcome (index src 0) (\<lambda>c.
     bind_outcome (unwrap (error_code_from_u8 c)) (\<lambda>e.
     bind_outcome (index src 1) (\<lambda>s.
     Ok \<lparr>nm_error_code = e, nm_error_subcode = s, nm_data = []\<rparr>)))"

definition notification_to_bytes :: "notification_message \<Rightarrow> bytes" where
  "notification_to_bytes m = error_code_code (nm_error_code m) # nm_error_subcode m # nm_data m"

definition keepalive_to_bytes :: "unit \<Rightarrow> bytes" where
  "keepalive_to_bytes m = []"

section \<open>Messages\<close>

datatype 'n message_body =
    MB_Open open_message
  | MB_Update "'n update_message"
  | MB_Notification notification_message
  | MB_Keepalive

fun body_to_bytes :: "'n ipnet_ops \<Rightarrow> 'n message_body \<Rightarrow> (bgp_error, bytes) outcome" where
  "body_to_bytes L (MB_Open m) = Ok (open_to_bytes m)"
| "body_to_bytes L (MB_Update m) = update_to_bytes L m"
| "body_to_bytes L (MB_Notification m) = Ok (notification_to_bytes m)"
| "body_to_bytes L MB_Keepalive = Ok (keepalive_to_bytes ())"

record 'n message =
  message_type :: message_type
  body :: "'n message_body"

definition message_new :: "message_type \<Rightarrow> 'n message_body \<Rightarrow> 'n message" where
  "message_new t m = \<lparr>message_type = t, body = m\<rparr>"

definition message_to_bytes :: "'n ipnet_ops \<Rightarrow> 'n message \<Rightarrow> (bgp_error, bytes) outcome" where
  "message_to_bytes L m =
     bind_outcome (body_to_bytes L (body m)) (\<lambda>v. Ok (message_type_code (message_type m) # v))"

definition body_from_bytes ::
    "build \<Rightarrow> 'n ipnet_ops \<Rightarrow> message_type \<Rightarrow> bytes \<Rightarrow> (bgp_error, 'n message_body) outcome" where
  "body_from_bytes b L t v =
     (case t of
        MT_Open \<Rightarrow> bind_outcome (open_from_bytes b v) (\<lambda>m. Ok (MB_Open m))
      | MT_Update \<Rightarrow> bind_outcome (update_from_bytes b L v) (\<lambda>m. Ok (MB_Update m))
      | MT_Notification \<Rightarrow> bind_outcome (notification_from_bytes v) (\<lambda>m. Ok (MB_Notification m))
      | MT_Keepalive \<Rightarrow> Ok MB_Keepalive)"

definition message_from_bytes ::
    "build \<Rightarrow> 'n ipnet_ops \<Rightarrow> bytes \<Rightarrow> (bgp_error, 'n message) outcome" where
  "message_from_bytes b L src =
     (if length src < 19 then Err (Message ''Message too short'')
      else bind_outcome (slice src 0 16) (\<lambda>marker.
        bind_outcome (map_err (\<lambda>_. Message ''Invalid marker'') (validate_marker marker)) (\<lambda>_.
        bind_outcome (read_u16 src 16) (\<lambda>l.
        let declared_length = unat l
        in if \<not> (19 \<le> declared_length \<and> declared_length \<le> 4096)
           then Err (Message ''Invalid message length'')
           else if length src \<noteq> declared_length then Err (Message ''Message length mismatch'')
           else bind_outcome (index src 18) (\<lambda>t.
             bind_outcome (ok_or (Message ''Invalid message type'') (message_type_from_u8 t)) (\<lambda>mtype.
             bind_outcome (slice src 19 (length src)) (\<lambda>v.
             bind_outcome (body_from_bytes b L mtype v) (\<lambda>m.
             Ok \<lparr>message_type = mtype, body = m\<rparr>))))))))"

section \<open>The three loops of an UPDATE\<close>

text \<open>What an attribute is written as, and what it becomes when it is written and read again: the
  extended-length flag is recomputed from the size of the value.\<close>

definition attr_wire :: "'n ipnet_ops \<Rightarrow> 'n path_attribute \<Rightarrow> bytes" where
  "attr_wire L a = (case path_attribute_to_bytes L a of Ok bs \<Rightarrow> bs | _ \<Rightarrow> [])"

definition attr_norm :: "'n path_attribute \<Rightarrow> 'n path_attribute" where
  "attr_norm a = a\<lparr>extended_length := 255 < value_len (attr_value a)\<rparr>"

lemma attr_wire_Ok: "valid_attr a \<Longrightarrow> path_attribute_to_bytes L a = Ok (attr_wire L a)"
  using path_attribute_to_bytes_Ok [of a L] by (auto simp: attr_wire_def)

lemma attrs_to_bytes_wire:
  "\<forall>a \<in> set as. valid_attr a \<Longrightarrow> attrs_to_bytes L as = Ok (concat (map (attr_wire L) as))"
  by (induction as) (simp_all add: attr_wire_Ok)

lemma path_attribute_from_wire:
  "valid_attr a \<Longrightarrow> path_attribute_from_bytes b L (attr_wire L a) = Ok (attr_norm a)"
  by (simp add: attr_norm_def path_attribute_roundtrip_aux attr_wire_Ok)

lemma is_extended_attr_flags: "is_extended_len (attr_flags e p t opt) = e"
  by (cases e; cases p; cases t; cases opt; simp add: attr_flags_def is_extended_len_def)

lemma value_len_bound: "valid_value v \<Longrightarrow> value_len v < 65536"
  by (cases v) auto

lemma attr_wire_shape:
  assumes "valid_attr a"
  obtains f c vb where "length vb = value_len (attr_value a)" and "is_extended_len f = (255 < length vb)"
    and "attr_wire L a = f # c # (if 255 < length vb then [as_u8 (length vb div 256), as_u8 (length vb)]
      else [as_u8 (length vb)]) @ vb"
proof -
  obtain c vb where enc: "attr_value_to_bytes L (attr_value a) = Ok (c, vb)"
    using attr_wire_Ok [OF assms, of L] by (auto simp: path_attribute_to_bytes_def outcome_simps)
  then have "length vb = value_len (attr_value a)"
    using assms length_attr_value by (auto simp: valid_attr_def)
  moreover have "attr_wire L a = attr_flags (255 < length vb) (partial a) (transitive a) (optional a)
      # c # (if 255 < length vb then [as_u8 (length vb div 256), as_u8 (length vb)]
        else [as_u8 (length vb)]) @ vb"
    by (simp add: attr_wire_def path_attribute_to_bytes_def enc Let_def cong: if_cong)
  ultimately show thesis
    using that is_extended_attr_flags by blast
qed

lemma attr_step_wire:
  assumes "valid_attr a"
  shows "attr_step b L (pre @ attr_wire L a @ post) (length pre) =
    Ok (Some (attr_norm a, length (attr_wire L a)))"
proof -
  obtain f c vb where len: "length vb = value_len (attr_value a)" and ext: "is_extended_len f = (255 < length vb)"
    and wire: "attr_wire L a = f # c # (if 255 < length vb then [as_u8 (length vb div 256), as_u8 (length vb)]
      else [as_u8 (length vb)]) @ vb"
    by (rule attr_wire_shape [OF assms])
  have bound: "length vb < 65536"
    using assms value_len_bound [of "attr_value a"] by (simp add: len valid_attr_def)
  note parse = path_attribute_from_wire [OF assms, of b L]
  show ?thesis
  proof (cases "255 < length vb")
    case True
    define w where "w = f # c # as_u8 (length vb div 256) # as_u8 (length vb) # vb"
    have w: "attr_wire L a = w" by (simp add: wire True w_def)
    have "(read_u16 (pre @ w @ post) (length pre + 2) :: (bgp_error, u16) outcome) =
        Ok (from_be [as_u8 (length vb div 256), as_u8 (length vb)])"
      using read_u16_at [of "pre @ [f, c]"] by (simp add: w_def)
    moreover have "(index (pre @ w @ post) (length pre) :: (bgp_error, u8) outcome) = Ok f"
      by (simp add: w_def index_append_mid)
    moreover have "length w = 4 + length vb" by (simp add: w_def)
    ultimately show ?thesis
      using parse True ext unat_two_bytes [OF bound]
      by (simp add: attr_step_def w Let_def slice_append_mid)
  next
    case False
    define w where "w = f # c # as_u8 (length vb) # vb"
    have w: "attr_wire L a = w" by (simp add: wire False w_def)
    have "(index (pre @ w @ post) (length pre + 2) :: (bgp_error, u8) outcome) = Ok (as_u8 (length vb))"
      by (simp add: w_def index_def nth_append)
    moreover have "(index (pre @ w @ post) (length pre) :: (bgp_error, u8) outcome) = Ok f"
      by (simp add: w_def index_append_mid)
    moreover have "length w = 3 + length vb" by (simp add: w_def)
    moreover have "unat (as_u8 (length vb)) = length vb" using False by (simp add: unat_as_u8)
    ultimately show ?thesis
      using parse False ext by (simp add: attr_step_def w Let_def slice_append_mid)
  qed
qed

interpretation attrs: item_loop
    "\<lambda>src i. bind_outcome (attr_step b L src i) (\<lambda>r. unwrap r)"
    "\<lambda>src n i acc. attr_loop b L src (n - start) (i - start) i acc"
    "\<lambda>n acc. (acc, n)" "\<lambda>i n. start \<le> i" "attr_wire L" attr_norm valid_attr for b L start
proof
  show "attr_loop b L src (n - start) (n - start) n acc = Ok (acc, n)" for src n acc
    by (simp add: attr_loop.simps)
  show "attr_loop b L src (n - start) (i - start) i acc = attr_loop b L src (n - start) (i + k - start) (i + k) (acc @ [x])"
    if "start \<le> i" "i < n" "n \<le> length src" "bind_outcome (attr_step b L src i) (\<lambda>r. unwrap r) = Ok (x, k)"
      "i + k \<le> n" for src n i acc x k
  proof -
    have "attr_step b L src i = Ok (Some (x, k))"
      using that(4) by (auto simp: outcome_simps)
    then show ?thesis
      using that diff_less_mono [of i n start] by (subst attr_loop.simps) simp
  qed
  show "attr_wire L y \<noteq> []" if "valid_attr y" for y
    using attr_wire_shape [OF that, of L] by (metis list.distinct(1))
qed (simp_all add: attr_step_wire)

context ipnet_laws
begin

lemma float_blen_wire: "length (nlri_wire L n) = float_blen (net_prefix_len L (net n))"
  by (simp add: length_nlri_wire float_blen_def)

lemma route_step_wire:
  assumes "nlri_afi L n = Ipv4"
  shows "route_step L (pre @ nlri_wire L n @ post) (length pre) = Ok (nlri_canon L n, length (nlri_wire L n))"
    and "withdrawn_step L (pre @ nlri_wire L n @ post) (length pre) = Ok (nlri_canon L n, length (nlri_wire L n))"
proof -
  let ?p = "net_prefix_len L (net n)"
  obtain w where w: "nlri_wire L n = ?p # w" by (simp add: nlri_wire_def)
  have len: "length w = (unat ?p + 7) div 8" using length_nlri_wire [of n] w by simp
  have facts: "prefix_bytes ?p Ipv4 = Ok ((unat ?p + 7) div 8)"
    "nlri_from_ipv4_octets L (?p # w) = Ok (nlri_canon L n)"
    using assms prefix_bytes_net [of "net n"] nlri_from_octets_wire [of n]
    by (simp_all add: nlri_afi_def nlri_from_octets_def w)
  then show "route_step L (pre @ nlri_wire L n @ post) (length pre) = Ok (nlri_canon L n, length (nlri_wire L n))"
    and "withdrawn_step L (pre @ nlri_wire L n @ post) (length pre) = Ok (nlri_canon L n, length (nlri_wire L n))"
    by (simp_all add: route_step_def withdrawn_step_def w len index_append_mid slice_def nlri_canon_parts float_blen_def)
qed

end

sublocale ipnet_laws \<subseteq> withdrawn: item_loop "withdrawn_step L" "\<lambda>src n i acc. withdrawn_loop L src (n - 2) (i - 2) i acc"
    "\<lambda>n acc. (acc, n)" "\<lambda>i n. 2 \<le> i" "nlri_wire L" "nlri_canon L" "\<lambda>n. nlri_afi L n = Ipv4"
  by unfold_locales (simp_all add: withdrawn_loop.simps route_step_wire)

sublocale ipnet_laws \<subseteq> routes: item_loop "route_step L" "routes_loop L"
    "\<lambda>n acc. acc" "\<lambda>i n. True" "nlri_wire L" "nlri_canon L" "\<lambda>n. nlri_afi L n = Ipv4"
  by unfold_locales (simp_all add: routes_loop.simps route_step_wire)
section \<open>Round trips of the bodies\<close>

definition valid_open :: "open_message \<Rightarrow> bool" where
  "valid_open m \<longleftrightarrow> (\<forall>p \<in> set (params (om_opt_params m)). valid_opt_param p)
     \<and> op_len (om_opt_params m) = params_size (params (om_opt_params m))
     \<and> op_len (om_opt_params m) \<le> 255"

text \<open>What an OPEN becomes when it is written and read again: the parser leaves its index in the
  length of the parameters, one more than their size.\<close>

definition open_norm :: "open_message \<Rightarrow> open_message" where
  "open_norm m = m\<lparr>om_opt_params := (om_opt_params m)\<lparr>op_len := Suc (op_len (om_opt_params m))\<rparr>\<rparr>"

lemma open_roundtrip_aux:
  assumes "valid_open m"
  shows "open_from_bytes b (open_to_bytes m) = Ok (open_norm m)"
proof -
  let ?o = "opt_params_to_bytes (om_opt_params m)"
  define src where "src = open_to_bytes m"
  have src: "src = om_version m # to_be 2 (om_asn m) @ to_be 2 (om_hold_time m) @ to_be 4 (om_router_id m) @ ?o"
    by (simp add: src_def open_to_bytes_def)
  have opt: "opt_params_from_bytes b ?o = Ok ((om_opt_params m)\<lparr>op_len := Suc (op_len (om_opt_params m))\<rparr>)"
    using assms opt_params_roundtrip_aux [of "params (om_opt_params m)" b]
    by (simp add: valid_open_def opt_params_to_bytes_def)
  have parts: "slice src 0 1 = Ok [om_version m]" "read_u16 src 1 = Ok (om_asn m)"
    "read_u16 src 3 = Ok (om_hold_time m)" "read_u32 src 5 = Ok (om_router_id m)"
    "slice_from src 9 = Ok ?o"
    by (simp_all add: src read_u16_def read_u32_def slice_from_def slice_def)
  show ?thesis
    unfolding src_def [symmetric] open_from_bytes_def parts bind_outcome.simps opt
    by (simp add: open_norm_def)
qed

definition valid_update :: "'n ipnet_ops \<Rightarrow> 'n update_message \<Rightarrow> bool" where
  "valid_update L m \<longleftrightarrow> (\<forall>n \<in> set (withdrawn_routes m). nlri_afi L n = Ipv4)
     \<and> (\<forall>n \<in> set (um_nlri m). nlri_afi L n = Ipv4) \<and> (\<forall>a \<in> set (path_attributes m). valid_attr a)"

definition update_norm :: "'n ipnet_ops \<Rightarrow> 'n update_message \<Rightarrow> 'n update_message" where
  "update_norm L m = \<lparr>withdrawn_routes = map (nlri_canon L) (withdrawn_routes m),
     path_attributes = map attr_norm (path_attributes m), um_nlri = map (nlri_canon L) (um_nlri m)\<rparr>"

context ipnet_laws
begin

lemma update_to_bytes_wire:
  assumes "\<forall>a \<in> set (path_attributes m). valid_attr a"
  shows "update_to_bytes L m =
    (let wd = concat (map (nlri_wire L) (withdrawn_routes m));
         pa = concat (map (attr_wire L) (path_attributes m))
     in Ok (to_be 2 (as_u16 (length wd)) @ wd @ to_be 2 (as_u16 (length pa)) @ pa
          @ concat (map (nlri_wire L) (um_nlri m))))"
  using assms by (simp add: update_to_bytes_def nlris_to_bytes_wire attrs_to_bytes_wire Let_def)

text \<open>The parser on the sections a valid message is written as; what follows them is read as
  announced prefixes.\<close>

lemma update_from_sections:
  assumes wd: "\<forall>n \<in> set ws. nlri_afi L n = Ipv4" and pa: "\<forall>a \<in> set as. valid_attr a"
    and lens: "length (concat (map (nlri_wire L) ws)) < 65536" "length (concat (map (attr_wire L) as)) < 65536"
    and hdr: "hdr = to_be 2 (as_u16 (length (concat (map (nlri_wire L) ws)))) @ concat (map (nlri_wire L) ws)
       @ to_be 2 (as_u16 (length (concat (map (attr_wire L) as)))) @ concat (map (attr_wire L) as)"
  shows "update_from_bytes b L (hdr @ rest) =
    bind_outcome (routes_loop L (hdr @ rest) (length (hdr @ rest)) (length hdr) [])
      (\<lambda>routes. Ok \<lparr>withdrawn_routes = map (nlri_canon L) ws, path_attributes = map attr_norm as,
         um_nlri = routes\<rparr>)"
proof -
  let ?wd = "concat (map (nlri_wire L) ws)" and ?pa = "concat (map (attr_wire L) as)"
  let ?lw = "to_be 2 (as_u16 (length ?wd))" and ?lp = "to_be 2 (as_u16 (length ?pa))"
  define src where "src = hdr @ rest"
  have src: "src = ?lw @ ?wd @ ?lp @ ?pa @ rest" by (simp add: src_def hdr)
  have n: "unat (as_u16 (length ?wd)) = length ?wd" "unat (as_u16 (length ?pa)) = length ?pa"
    using lens by (simp_all add: unat_as_u16)
  have r1: "read_u16 src 0 = Ok (as_u16 (length ?wd))"
    by (simp add: src read_u16_def slice_def)
  have r2: "read_u16 src (2 + length ?wd) = Ok (as_u16 (length ?pa))"
    using read_u16_append [of "2 + length ?wd" "?lw @ ?wd"] by (simp add: src)
  have w: "withdrawn_loop L src (length ?wd) 0 2 [] = Ok (map (nlri_canon L) ws, 2 + length ?wd)"
    using withdrawn.loop_concat [OF wd, of ?lw "?lp @ ?pa @ rest" "[]"] by (simp add: src)
  have p: "attr_loop b L src (length ?pa) 0 (2 + length ?wd + 2) [] =
      Ok (map attr_norm as, 2 + length ?wd + 2 + length ?pa)"
    using attrs.loop_concat [OF pa, where start = "2 + length ?wd + 2" and pre = "?lw @ ?wd @ ?lp" and b = b
        and L = L and post = rest and acc = "[]"] by (simp add: src)
  have size: "\<not> length src < 2" "\<not> length src < 2 + length ?wd + 2"
    "\<not> length src < 2 + length ?wd + 2 + length ?pa" "length hdr = 2 + length ?wd + 2 + length ?pa"
    by (simp_all add: src hdr)
  show ?thesis
    unfolding src_def [symmetric] update_from_bytes_def r1 bind_outcome.simps n w prod.case Let_def r2 p
    using size by simp
qed

lemma update_roundtrip_aux:
  assumes "valid_update L m" and "update_to_bytes L m = Ok bs"
    and "length (concat (map (nlri_wire L) (withdrawn_routes m))) < 65536"
    and "length (concat (map (attr_wire L) (path_attributes m))) < 65536"
  shows "update_from_bytes b L bs = Ok (update_norm L m)"
proof -
  let ?wd = "concat (map (nlri_wire L) (withdrawn_routes m))"
    and ?pa = "concat (map (attr_wire L) (path_attributes m))"
    and ?nl = "concat (map (nlri_wire L) (um_nlri m))"
  define hdr where "hdr = to_be 2 (as_u16 (length ?wd)) @ ?wd @ to_be 2 (as_u16 (length ?pa)) @ ?pa"
  have v: "\<forall>n \<in> set (withdrawn_routes m). nlri_afi L n = Ipv4" "\<forall>n \<in> set (um_nlri m). nlri_afi L n = Ipv4"
    "\<forall>a \<in> set (path_attributes m). valid_attr a"
    using assms(1) by (simp_all add: valid_update_def)
  have bs: "bs = hdr @ ?nl"
    using assms(2) update_to_bytes_wire [OF v(3)] by (simp add: Let_def hdr_def)
  have "routes_loop L (hdr @ ?nl) (length (hdr @ ?nl)) (length hdr) [] = Ok (map (nlri_canon L) (um_nlri m))"
    by (rule routes.loop_concat_0 [OF v(2)]) simp_all
  then show ?thesis
    using update_from_sections [OF v(1,3) assms(3,4) hdr_def, of b ?nl]
    by (simp add: bs update_norm_def)
qed

end

lemma notification_roundtrip_aux:
  "notification_from_bytes (notification_to_bytes m) = Ok (m\<lparr>nm_data := []\<rparr>)"
  by (simp add: notification_from_bytes_def notification_to_bytes_def index_def)

section \<open>Whole messages\<close>

fun body_type :: "'n message_body \<Rightarrow> message_type" where
  "body_type (MB_Open _) = MT_Open"
| "body_type (MB_Update _) = MT_Update"
| "body_type (MB_Notification _) = MT_Notification"
| "body_type MB_Keepalive = MT_Keepalive"

fun valid_body :: "'n ipnet_ops \<Rightarrow> 'n message_body \<Rightarrow> bool" where
  "valid_body L (MB_Open m) = valid_open m"
| "valid_body L (MB_Update m) = valid_update L m"
| "valid_body L _ = True"

definition valid_message :: "'n ipnet_ops \<Rightarrow> 'n message \<Rightarrow> bool" where
  "valid_message L m \<longleftrightarrow> message_type m = body_type (body m) \<and> valid_body L (body m)"

fun body_norm :: "'n ipnet_ops \<Rightarrow> 'n message_body \<Rightarrow> 'n message_body" where
  "body_norm L (MB_Open m) = MB_Open (open_norm m)"
| "body_norm L (MB_Update m) = MB_Update (update_norm L m)"
| "body_norm L (MB_Notification m) = MB_Notification (m\<lparr>nm_data := []\<rparr>)"
| "body_norm L MB_Keepalive = MB_Keepalive"

definition message_norm :: "'n ipnet_ops \<Rightarrow> 'n message \<Rightarrow> 'n message" where
  "message_norm L m = m\<lparr>body := body_norm L (body m)\<rparr>"

lemma message_from_frame:
  assumes "frame f"
  shows "message_from_bytes b L f =
    bind_outcome (body_from_bytes b L (the (message_type_from_u8 (f ! 18))) (drop 19 f))
      (\<lambda>m. Ok \<lparr>message_type = the (message_type_from_u8 (f ! 18)), body = m\<rparr>)"
proof -
  have f: "\<not> length f < 19" "19 \<le> length f" "length f \<le> 4096"
    and parts: "slice f 0 16 = Ok MARKER" "read_u16 f 16 = Ok (from_be (take 2 (drop 16 f)))"
      "index f 18 = Ok (f ! 18)" "slice f 19 (length f) = Ok (drop 19 f)"
    and n: "unat (from_be (take 2 (drop 16 f)) :: u16) = length f"
    and m: "validate_marker MARKER = Ok ()"
    using assms by (simp_all add: frame_def slice_def read_u16_def index_def validate_marker_def)
  obtain t where t: "message_type_from_u8 (f ! 18) = Some t"
    using assms by (auto simp: frame_def)
  show ?thesis
    unfolding message_from_bytes_def parts bind_outcome.simps m map_err.simps Let_def n t ok_or_simps
    using f by simp
qed

context ipnet_laws
begin

lemma body_roundtrip:
  assumes "valid_body L m" and "body_to_bytes L m = Ok bs" and "length bs < 65536"
  shows "body_from_bytes b L (body_type m) bs = Ok (body_norm L m)"
proof (cases m)
  case (MB_Update u)
  with assms have u: "valid_update L u" "update_to_bytes L u = Ok bs" by simp_all
  then have "length (concat (map (nlri_wire L) (withdrawn_routes u))) \<le> length bs
      \<and> length (concat (map (attr_wire L) (path_attributes u))) \<le> length bs"
    using update_to_bytes_wire [of u] by (auto simp: valid_update_def Let_def)
  with assms(3) have "update_from_bytes b L bs = Ok (update_norm L u)"
    by (intro update_roundtrip_aux [OF u]) simp_all
  with MB_Update show ?thesis by (simp add: body_from_bytes_def)
next
  case (MB_Open x)
  with assms show ?thesis by (auto simp: body_from_bytes_def open_roundtrip_aux)
next
  case (MB_Notification x)
  with assms show ?thesis by (auto simp: body_from_bytes_def notification_roundtrip_aux)
qed (simp add: body_from_bytes_def)

lemma message_wire_roundtrip:
  assumes "valid_message L m" and "message_to_bytes L m = Ok data" and "codec_encode data buf = Ok out"
  shows "\<exists>f. out = buf @ f \<and> codec_decode (f @ rest) = Ok (Some f, rest)
    \<and> message_from_bytes b L f = Ok (message_norm L m)"
proof -
  obtain bs where bs: "body_to_bytes L (body m) = Ok bs" and data: "data = message_type_code (message_type m) # bs"
    using assms(2) by (auto simp: message_to_bytes_def outcome_simps)
  obtain f where out: "out = buf @ f" and frame: "frame f" and f: "drop 18 f = data"
    using frame_encode [OF assms(3)] data by auto
  have "f ! 18 = hd (drop 18 f)" using frame by (subst hd_drop_conv_nth) (simp_all add: frame_def)
  then have t: "f ! 18 = message_type_code (message_type m)"
    by (simp add: f data)
  have d: "drop 19 f = bs"
    using arg_cong [OF f, of tl] by (simp add: data tl_drop drop_Suc [symmetric] numeral_nat)
  then have "length bs < 65536" using frame by (auto simp: frame_def)
  then have "body_from_bytes b L (message_type m) bs = Ok (body_norm L (body m))"
    using body_roundtrip [OF _ bs] assms(1) by (simp add: valid_message_def)
  then have "message_from_bytes b L f = Ok (message_norm L m)"
    by (simp add: message_from_frame [OF frame] t d message_norm_def)
  with out frame show ?thesis by (blast intro: codec_decode_frame)
qed

end
section \<open>The OPEN of a session\<close>

lemma open_new_params:
  "params (om_opt_params (open_new asn rid hold caps)) =
    [case multiprotocol caps of None \<Rightarrow> opt_param_default
     | Some fams \<Rightarrow> (let cb = concat (map capability_to_bytes (map family_capability fams))
         in \<lparr>param_type = Capability, param_length = length cb, param_value = cb\<rparr>)]"
  by (simp add: open_new_def opt_params_new_def family_capability_def Let_def comp_def split: option.splits)

lemma opt_param_default_family:
  "opt_param_default = (let cb = concat (map capability_to_bytes (map family_capability [\<lparr>afi = Ipv4, safi = NLRIUnicast\<rparr>]))
     in \<lparr>param_type = Capability, param_length = length cb, param_value = cb\<rparr>)"
  by (simp add: opt_param_default_def family_capability_def Let_def)

definition announced_families :: "neighbor_capabilities \<Rightarrow> address_family list" where
  "announced_families caps = (case multiprotocol caps of None \<Rightarrow> [\<lparr>afi = Ipv4, safi = NLRIUnicast\<rparr>] | Some fams \<Rightarrow> fams)"

lemma open_new_announces:
  "params (om_opt_params (open_new asn rid hold caps)) =
    (let cb = concat (map capability_to_bytes (map family_capability (announced_families caps)))
     in [\<lparr>param_type = Capability, param_length = length cb, param_value = cb\<rparr>])"
  by (simp add: open_new_params opt_param_default_family announced_families_def Let_def split: option.splits)

lemma length_family_capabilities:
  "length (concat (map capability_to_bytes (map family_capability fams))) = 6 * length fams"
  by (induction fams) (simp_all add: capability_to_bytes_def family_capability_def
      capability_multiprotocol_to_bytes_def Let_def)

lemma open_new_valid:
  assumes "length (announced_families caps) \<le> 42"
  shows "valid_open (open_new asn rid hold caps)"
proof -
  let ?m = "open_new asn rid hold caps"
  have "length (concat (map capability_to_bytes (map family_capability (announced_families caps)))) \<le> 252"
    using assms by (simp only: length_family_capabilities)
  then have v: "\<forall>p \<in> set (params (om_opt_params ?m)). valid_opt_param p"
    and s: "params_size (params (om_opt_params ?m)) \<le> 255"
    unfolding open_new_announces
    by (simp_all add: Let_def valid_opt_param_def params_size_def opt_param_to_bytes_def)
  have "op_len (om_opt_params ?m) = op_len (opt_params_new (params (om_opt_params ?m)))"
    by (simp add: open_new_def opt_params_new_def Let_def)
  then show ?thesis
    using opt_params_new_size [OF v] v s by (simp add: valid_open_def)
qed

lemma open_new_negotiated:
  assumes "announced_families caps \<noteq> []"
  shows "neighbor_capabilities_from (capabilities_from_params
      (params (om_opt_params (open_norm (open_new asn rid hold caps))))) =
    Ok (capabilities_default\<lparr>multiprotocol := Some (unique_from [] (announced_families caps))\<rparr>)"
proof -
  have "capabilities_from_params (params (om_opt_params (open_norm (open_new asn rid hold caps)))) =
      map family_capability (announced_families caps)"
    using capabilities_from_params_enc [of "map family_capability (announced_families caps)"]
    by (simp add: open_norm_def open_new_announces Let_def valid_family_capability
        del: capabilities_from_params.simps)
  then show ?thesis
    using assms by (simp add: neighbor_capabilities_from_def capability_steps_families)
qed

lemma open_new_fields:
  "om_version (open_new asn rid hold caps) = VERSION" "om_asn (open_new asn rid hold caps) = asn"
  "om_hold_time (open_new asn rid hold caps) = hold" "om_router_id (open_new asn rid hold caps) = rid"
  by (simp_all add: open_new_def Let_def)

section \<open>Truncated prefixes\<close>

lemma withdrawn_step_no_panic: "i < length src \<Longrightarrow> \<not> panics (withdrawn_step L src i)"
  using nlri_from_octets_no_panic [of L Ipv4]
  by (auto simp: withdrawn_step_def outcome_simps Let_def nlri_from_octets_def)

lemma withdrawn_loop_no_panic: "\<not> panics (withdrawn_loop L src wdl used i acc)"
proof (induction L src wdl used i acc rule: withdrawn_loop.induct)
  case (1 L src wdl used i acc)
  then show ?case
    by (subst withdrawn_loop.simps) (auto simp: outcome_simps withdrawn_step_no_panic)
qed

context ipnet_laws
begin

lemma route_step_truncated:
  assumes "nlri_afi L n = Ipv4" and "0 < k" and "k < length (nlri_wire L n)"
  shows "route_step L (pre @ take k (nlri_wire L n)) (length pre) = Panic SliceOutOfBounds"
proof -
  let ?p = "net_prefix_len L (net n)"
  obtain w where w: "nlri_wire L n = ?p # w" by (simp add: nlri_wire_def)
  obtain j where k: "k = Suc j" using assms(2) by (cases k) auto
  have "length w = (unat ?p + 7) div 8" using length_nlri_wire [of n] w by simp
  moreover have "prefix_bytes ?p Ipv4 = Ok ((unat ?p + 7) div 8)"
    using assms(1) prefix_bytes_net [of "net n"] by (simp add: nlri_afi_def)
  ultimately show ?thesis
    using assms(3) by (simp add: route_step_def w k index_append_mid slice_def)
qed

lemma update_truncated_panics:
  assumes "\<forall>n \<in> set ws. nlri_afi L n = Ipv4" and "\<forall>a \<in> set as. valid_attr a"
    and "length (concat (map (nlri_wire L) ws)) < 65536" "length (concat (map (attr_wire L) as)) < 65536"
    and hdr: "hdr = to_be 2 (as_u16 (length (concat (map (nlri_wire L) ws)))) @ concat (map (nlri_wire L) ws)
       @ to_be 2 (as_u16 (length (concat (map (attr_wire L) as)))) @ concat (map (attr_wire L) as)"
    and ns: "\<forall>n \<in> set ns. nlri_afi L n = Ipv4" and n: "nlri_afi L n = Ipv4"
    and k: "0 < k" "k < length (nlri_wire L n)"
  shows "update_from_bytes b L (hdr @ concat (map (nlri_wire L) ns) @ take k (nlri_wire L n)) = Panic SliceOutOfBounds"
proof -
  let ?ns = "concat (map (nlri_wire L) ns)" and ?t = "take k (nlri_wire L n)"
  let ?src = "hdr @ ?ns @ ?t"
  have "0 < length ?t" using k by simp
  then have "routes_loop L ?src (length ?src) (length (hdr @ ?ns)) acc = Panic SliceOutOfBounds" for acc
    using route_step_truncated [OF n k, of "hdr @ ?ns"] by (subst routes_loop.simps) simp
  then have "routes_loop L ?src (length ?src) (length hdr) [] = Panic SliceOutOfBounds"
    using routes.loop_prefix [OF ns TrueI, of hdr "length ?src" ?t "[]"] by simp
  then show ?thesis
    using update_from_sections [OF assms(1-4) hdr, of b "?ns @ ?t"] by simp
qed

end
end
