(* ===== verification/Session.thy ===== *)
theory Session
  imports Loc_Rib Messages
begin

text \<open>
  \<open>src/neighbor/types.rs\<close>, \<open>session.rs\<close>, \<open>connection.rs\<close> and the state of
  \<open>src/speaker/types.rs\<close>: a neighbor and its attributes, the routes received from it, and the
  messages sent to it.  A channel (\<open>tokio::sync::mpsc::Sender\<close>) is a number; \<open>Framed\<close> over a TCP
  stream is the bytes of the sends that succeeded and whether the stream still takes more.  A stream that
  fails may have passed on a part of the frame it failed at, and passes on nothing after it; that part is not
  in \<open>conn_out\<close>.  Errors of \<open>anyhow\<close> are their outermost message.
\<close>

section \<open>Neighbors\<close>

datatype bgp_state = Idle | Connect | Active | OpenSent | OpenConfirm | Established

datatype 'n event =
    ManualStart | ManualStop | AutomaticStart | ManualStartWithPassiveTcpEstablishment
  | AutomaticStartWithPassiveTcpEstablishment | AutomaticStartWithDampPeerOscillations
  | AutomaticStartWithDampPeerOscillationsAndPassiveTcpEstablishment | AutomaticStop
  | ConnectRetryTimerExpires | HoldTimerExpires | KeepaliveTimerExpires | DelayOpenTimerExpires
  | IdleHoldTimerExpires | TcpConnectionValid | TcpCRInvalid | TcpCRAcked | TcpConnectionConfirmed
  | TcpConnectionFails | BGPOpen | BGPOpenWithDelayOpenTimerRunning | BGPHeaderErr | BGPOpenMsgErr
  | OpenCollisionDump | NotifMsgVerErr | NotifMsg | KeepAliveMsg | UpdateMsg | UpdateMsgErr
  | RibUpdate "'n modified"

record session_attributes =
  state :: bgp_state
  hold_time :: u16
  hold_timer :: nat
  keepalive_time :: nat
  keepalive_timer :: nat
  connect_retry_time :: u16
  connect_retry_timer :: nat
  connect_retry_counter :: nat
  accept_connections_unconfigured_peers :: bool
  allow_automatic_start :: bool
  allow_automatic_stop :: bool
  collision_detect_established_state :: bool
  damp_peer_oscillations :: bool
  delay_open :: bool
  delay_open_time :: nat
  delay_open_timer :: nat
  idle_hold_time :: nat
  idle_hold_timer :: nat
  passive_tcp_establishment :: bool
  send_notification_without_open :: bool
  track_tcp_state :: bool

definition session_attributes_default :: session_attributes where
  "session_attributes_default = \<lparr>state = Active, hold_time = 0, hold_timer = 0, keepalive_time = 0,
     keepalive_timer = 0, connect_retry_time = 0, connect_retry_timer = 0, connect_retry_counter = 0,
     accept_connections_unconfigured_peers = False, allow_automatic_start = False,
     allow_automatic_stop = False, collision_detect_established_state = False,
     damp_peer_oscillations = False, delay_open = False, delay_open_time = 0, delay_open_timer = 0,
     idle_hold_time = 0, idle_hold_timer = 0, passive_tcp_establishment = False,
     send_notification_without_open = False, track_tcp_state = False\<rparr>"

type_synonym chan = nat

record 'n neighbor =
  nb_local_ip :: "ip_addr option"
  nb_local_port :: "u16 option"
  nb_local_asn :: u16
  nb_local_rid :: u32
  remote_ip :: "ip_addr option"
  remote_port :: "u16 option"
  remote_asn :: "u16 option"
  remote_rid :: "u32 option"
  capabilities_advertised :: neighbor_capabilities
  capabilities_received :: neighbor_capabilities
  adjrib :: "address_family \<rightharpoonup> 'n rib"
  tx :: "chan option"
  ribtx :: "address_family \<rightharpoonup> chan"
  attributes :: session_attributes
  max_retry_count :: "u16 option"
  exponential_backoff :: bool

definition neighbor_new ::
    "ip_addr option \<Rightarrow> u16 option \<Rightarrow> u16 \<Rightarrow> u32 \<Rightarrow> ip_addr option \<Rightarrow> u16 option \<Rightarrow> u16 option \<Rightarrow> u16 \<Rightarrow> u16
      \<Rightarrow> bgp_state \<Rightarrow> address_family list option \<Rightarrow> (address_family \<rightharpoonup> chan) \<Rightarrow> u16 option \<Rightarrow> bool
      \<Rightarrow> 'n neighbor" where
  "neighbor_new lip lport lasn lrid rip rport rasn hold retry st families rtx max_retry backoff =
     \<lparr>nb_local_ip = lip, nb_local_port = lport, nb_local_asn = lasn, nb_local_rid = lrid,
      remote_ip = rip, remote_port = rport, remote_asn = rasn, remote_rid = None,
      capabilities_advertised = capabilities_default\<lparr>multiprotocol := families\<rparr>,
      capabilities_received = capabilities_default, adjrib = Map.empty, tx = None, ribtx = rtx,
      attributes = session_attributes_default\<lparr>connect_retry_time := retry, hold_time := hold,
        state := st, allow_automatic_start := True\<rparr>,
      max_retry_count = max_retry, exponential_backoff = backoff\<rparr>"

abbreviation nb_state :: "'n neighbor \<Rightarrow> bgp_state" where
  "nb_state nb \<equiv> state (attributes nb)"

definition set_state :: "bgp_state \<Rightarrow> 'n neighbor \<Rightarrow> 'n neighbor" where
  "set_state st nb = nb\<lparr>attributes := (attributes nb)\<lparr>state := st\<rparr>\<rparr>"

definition is_established :: "'n neighbor \<Rightarrow> bool" where
  "is_established nb \<longleftrightarrow> nb_state nb = Established"

section \<open>Routes received from a neighbor\<close>

definition insert_all :: "route_attributes \<Rightarrow> 'n nlri list \<Rightarrow> 'n rib \<Rightarrow> 'n rib" where
  "insert_all a ns rib = fold (\<lambda>n r. r(n \<mapsto> [a])) ns rib"

definition adjrib_add :: "address_family \<Rightarrow> 'n rib_update \<Rightarrow> 'n neighbor \<Rightarrow> 'n neighbor" where
  "adjrib_add fam routes nb =
     (case adjrib nb fam of
        None \<Rightarrow> nb\<lparr>adjrib := (adjrib nb)(fam \<mapsto> insert_all (ru_attributes routes) (ru_nlris routes) Map.empty)\<rparr>
      | Some rib \<Rightarrow> nb\<lparr>adjrib := (adjrib nb)(fam \<mapsto> fold (\<lambda>n r. case r n of
            None \<Rightarrow> r(n \<mapsto> [ru_attributes routes])
          | Some as \<Rightarrow> r(n \<mapsto> [] @ [ru_attributes routes])) (ru_nlris routes) rib)\<rparr>)"

definition adjrib_withdraw :: "address_family \<Rightarrow> 'n rib_update \<Rightarrow> 'n neighbor \<Rightarrow> 'n neighbor" where
  "adjrib_withdraw fam routes nb =
     (case adjrib nb fam of
        None \<Rightarrow> nb
      | Some rib \<Rightarrow> nb\<lparr>adjrib := (adjrib nb)(fam \<mapsto> fold (\<lambda>n r. r(n := None)) (ru_nlris routes) rib)\<rparr>)"

section \<open>Sending\<close>

record conn =
  conn_out :: bytes
  conn_open :: bool

text \<open>\<open>server.send(message).await.context(msg)\<close>.\<close>

definition framed_send :: "string \<Rightarrow> bytes \<Rightarrow> conn \<Rightarrow> (string, conn) outcome" where
  "framed_send msg data c =
     bind_outcome (map_err (\<lambda>_. msg) (codec_encode data (conn_out c))) (\<lambda>out.
       if conn_open c then Ok (c\<lparr>conn_out := out\<rparr>) else Err msg)"

text \<open>\<open>From<Message> for Vec<u8>\<close> has no error to give: an attribute or prefix that cannot be
  written ends in a panic of the writer.\<close>

definition to_wire :: "'n ipnet_ops \<Rightarrow> message_type \<Rightarrow> 'n message_body \<Rightarrow> (string, bytes) outcome" where
  "to_wire L t b = unwrap_result (message_to_bytes L (message_new t b))"

definition send_open ::
    "'n ipnet_ops \<Rightarrow> u16 \<Rightarrow> u32 \<Rightarrow> u16 \<Rightarrow> neighbor_capabilities \<Rightarrow> conn \<Rightarrow> (string, conn) outcome" where
  "send_open L asn rid hold caps c =
     bind_outcome (to_wire L MT_Open (MB_Open (open_new asn rid hold caps)))
       (\<lambda>m. framed_send ''Failed to send OPEN message'' m c)"

definition send_keepalive :: "'n ipnet_ops \<Rightarrow> conn \<Rightarrow> (string, conn) outcome" where
  "send_keepalive L c =
     bind_outcome (to_wire L MT_Keepalive MB_Keepalive) (\<lambda>m. framed_send ''Failed to send KEEPALIVE message'' m c)"

text \<open>\<open>updates.entry(ra).or_default().push(n)\<close>: a group is found by \<open>==\<close> on its attributes and
  keeps those it was made with.\<close>

fun group_push :: "route_attributes \<Rightarrow> 'n nlri \<Rightarrow> (route_attributes \<times> 'n nlri list) list
    \<Rightarrow> (route_attributes \<times> 'n nlri list) list" where
  "group_push ra n [] = [(ra, [n])]"
| "group_push ra n ((k, ns) # gs) = (if ra_eq k ra then (k, ns @ [n]) # gs else (k, ns) # group_push ra n gs)"

definition sort_out :: "u32 \<Rightarrow> 'n nlri \<times> route_attributes option
    \<Rightarrow> 'n nlri list \<times> (route_attributes \<times> 'n nlri list) list
    \<Rightarrow> 'n nlri list \<times> (route_attributes \<times> 'n nlri list) list" where
  "sort_out rid r st =
     (case st of (wd, updates) \<Rightarrow>
        (case r of
           (n, None) \<Rightarrow> (wd @ [n], updates)
         | (n, Some ra) \<Rightarrow> if is_from_neighbor rid ra then (wd, updates) else (wd, group_push ra n updates)))"

text \<open>What becomes of one group: nothing for a route learned from an internal peer that would go to
  another one, or its attributes and prefixes as the peer gets them.\<close>

definition send_group :: "'n neighbor \<Rightarrow> route_attributes \<times> 'n nlri list
    \<Rightarrow> (string, 'n path_attribute list \<times> 'n nlri list) outcome" where
  "send_group nb g =
     (case g of (ra, routes) \<Rightarrow>
        bind_outcome (ok_or ''Local IP not set'' (nb_local_ip nb)) (\<lambda>local_ip.
        bind_outcome (ok_or ''Remote ASN not set'' (remote_asn nb)) (\<lambda>rasn.
        let (ra, should_send) =
            (if nb_local_asn nb \<noteq> rasn then (prepend (nb_local_asn nb) 1 (ra\<lparr>next_hop := local_ip\<rparr>), True)
             else (ra, \<not> is_from_ibgp ra))
        in Ok (if should_send then (filter is_transitive (ra_to_path_attributes ra), routes) else ([], [])))))"

fun send_groups :: "'n neighbor \<Rightarrow> (route_attributes \<times> 'n nlri list) list
    \<Rightarrow> (string, 'n path_attribute list \<times> 'n nlri list) outcome" where
  "send_groups nb [] = Ok ([], [])"
| "send_groups nb (g # gs) =
     bind_outcome (send_group nb g) (\<lambda>(pa, ns).
     bind_outcome (send_groups nb gs) (\<lambda>(pas, nss). Ok (pa @ pas, ns @ nss)))"

text \<open>The UPDATE for a list of changed routes, or \<open>None\<close> when there is nothing to send.  \<open>order\<close> is
  the order in which the hash map of the groups yields them.\<close>

definition update_for ::
    "((route_attributes \<times> 'n nlri list) list \<Rightarrow> (route_attributes \<times> 'n nlri list) list)
      \<Rightarrow> 'n neighbor \<Rightarrow> 'n modified \<Rightarrow> (string, 'n update_message option) outcome" where
  "update_for order nb routes =
     bind_outcome (ok_or ''Remote router ID not set'' (remote_rid nb)) (\<lambda>rid.
     let (wd, updates) = fold (sort_out rid) routes ([], [])
     in if updates = [] \<and> wd = [] then Ok None
        else bind_outcome (send_groups nb (order updates)) (\<lambda>(pas, ns).
          Ok (Some \<lparr>withdrawn_routes = wd, path_attributes = pas, um_nlri = ns\<rparr>)))"

definition send_update ::
    "'n ipnet_ops \<Rightarrow> ((route_attributes \<times> 'n nlri list) list \<Rightarrow> (route_attributes \<times> 'n nlri list) list)
      \<Rightarrow> 'n neighbor \<Rightarrow> 'n modified \<Rightarrow> conn \<Rightarrow> (string, conn) outcome" where
  "send_update L order nb routes c =
     bind_outcome (update_for order nb routes) (\<lambda>u. case u of
         None \<Rightarrow> Ok c
       | Some m \<Rightarrow> bind_outcome (to_wire L MT_Update (MB_Update m)) (\<lambda>data.
           framed_send ''Failed to send UPDATE message'' data c))"

text \<open>Reading: the next frame of the stream and its parsing.\<close>

definition read_message :: "build \<Rightarrow> 'n ipnet_ops \<Rightarrow> bytes \<Rightarrow> (io_error, 'n message option \<times> bytes) outcome" where
  "read_message b L src =
     bind_outcome (codec_decode src) (\<lambda>(m, rest). case m of
         None \<Rightarrow> Ok (None, rest)
       | Some f \<Rightarrow> bind_outcome (map_err (\<lambda>e. InvalidData (''BGP message parse error: '' @ bgp_error_text e))
             (message_from_bytes b L f)) (\<lambda>msg. Ok (Some msg, rest)))"

end
