(* ===== verification/Fsm.thy ===== *)
theory Fsm
  imports Session
begin

text \<open>
  \<open>src/neighbor/fsm.rs\<close> and \<open>timers.rs\<close>: the events of a session.  A handler gets the speaker's
  numbers it reads under the lock (\<open>local\<close>), the neighbor and the connection and returns the two
  as it leaves them.  The random jitter of the retry delay is an argument: \<open>fastrand::u64(0..=r)\<close>
  is \<open>rand r\<close>.
\<close>

section \<open>Retry delay\<close>

text \<open>\<open>u64\<close> arithmetic: no product or sum here reaches \<open>2 ^ 64\<close>, so \<open>saturating_mul\<close> does not
  saturate.\<close>

definition base_delay :: "u16 \<Rightarrow> nat \<Rightarrow> bool \<Rightarrow> nat" where
  "base_delay base counter backoff =
     (if backoff then min (unat base * 2 ^ min counter 10) 3600 else unat base)"

definition calculate_retry_delay :: "(nat \<Rightarrow> nat) \<Rightarrow> u16 \<Rightarrow> nat \<Rightarrow> bool \<Rightarrow> nat" where
  "calculate_retry_delay rand base counter backoff =
     (let base_d = base_delay base counter backoff;
          jitter_range = base_d div 10;
          jitter = rand jitter_range;
          total_delay = base_d + jitter
      in if backoff then min total_delay 3600 else total_delay)"

section \<open>Connecting\<close>

definition init_peer :: "'n neighbor \<Rightarrow> 'n neighbor" where
  "init_peer nb = nb\<lparr>attributes := (attributes nb)\<lparr>connect_retry_counter := 0, state := Active\<rparr>\<rparr>"

definition connect_prepare :: "(address_family \<rightharpoonup> chan) \<Rightarrow> 'n neighbor \<Rightarrow> 'n neighbor" where
  "connect_prepare sp_ribtx nb = nb\<lparr>ribtx := sp_ribtx\<rparr>"

definition connect_failed :: "'n neighbor \<Rightarrow> 'n neighbor" where
  "connect_failed nb = nb\<lparr>attributes := (attributes nb)\<lparr>state := Idle,
     connect_retry_counter := connect_retry_counter (attributes nb) + 1\<rparr>\<rparr>"

text \<open>How long the failed task sleeps before it ends, if it sleeps at all.\<close>

definition retry_sleep :: "(nat \<Rightarrow> nat) \<Rightarrow> 'n neighbor \<Rightarrow> nat option" where
  "retry_sleep rand nb =
     (let counter = connect_retry_counter (attributes nb);
          should_retry = (case max_retry_count nb of Some mx \<Rightarrow> counter < unat mx | None \<Rightarrow> True)
      in if should_retry
         then Some (calculate_retry_delay rand (connect_retry_time (attributes nb)) counter (exponential_backoff nb))
         else None)"

definition connect_succeeded :: "ip_addr \<Rightarrow> u16 \<Rightarrow> 'n neighbor \<Rightarrow> 'n neighbor" where
  "connect_succeeded ip port nb =
     set_state Connect nb\<lparr>nb_local_ip := Some ip, nb_local_port := Some port\<rparr>"

text \<open>What \<open>TcpStream::connect\<close> gives: an error with its text, or a stream, which has a local address unless
  asking for that fails.\<close>

datatype connection =
    Refused string
  | Connected "(ip_addr \<times> u16) option"

text \<open>\<open>connect\<close> up to the spawning of the session.\<close>

definition connect :: "(address_family \<rightharpoonup> chan) \<Rightarrow> connection \<Rightarrow> 'n neighbor
    \<Rightarrow> 'n neighbor \<times> (string, unit) outcome" where
  "connect sp_ribtx socket nb =
     (let nb = connect_prepare sp_ribtx nb
      in if remote_ip nb = None then (nb, Err ''Remote IP not configured'')
         else if remote_port nb = None then (nb, Err ''Remote port not configured'')
         else case socket of
             Refused e \<Rightarrow> (connect_failed nb, Err (''Connection failed: '' @ e))
           | Connected None \<Rightarrow> (set_state Connect nb, Err ''Failed to get local address'')
           | Connected (Some (ip, port)) \<Rightarrow> (connect_succeeded ip port nb, Ok ()))"

section \<open>Events\<close>

record local_info =
  li_asn :: u16
  li_router_id :: u32
  li_hold_time :: u16

text \<open>Sending an OPEN with the speaker's numbers and what the neighbor is to be offered.\<close>

definition send_local_open ::
    "'n ipnet_ops \<Rightarrow> local_info \<Rightarrow> string \<Rightarrow> 'n neighbor \<Rightarrow> conn \<Rightarrow> (string, conn) outcome" where
  "send_local_open L s msg nb c =
     map_err (\<lambda>_. msg) (send_open L (li_asn s) (li_router_id s) (li_hold_time s) (capabilities_advertised nb) c)"

definition process_event_idle :: "'n event \<Rightarrow> 'n neighbor \<Rightarrow> 'n neighbor" where
  "process_event_idle e nb = (case e of AutomaticStart \<Rightarrow> init_peer nb | _ \<Rightarrow> nb)"

definition process_event_connect ::
    "'n ipnet_ops \<Rightarrow> local_info \<Rightarrow> 'n event \<Rightarrow> 'n neighbor \<Rightarrow> conn \<Rightarrow> (string, 'n neighbor \<times> conn) outcome" where
  "process_event_connect L s e nb c =
     (case e of
        KeepaliveTimerExpires \<Rightarrow>
          bind_outcome (map_err (\<lambda>_. ''Failed to send keepalive in CONNECT state'') (send_keepalive L c))
            (\<lambda>c. Ok (nb, c))
      | ManualStart \<Rightarrow>
          bind_outcome (map_err (\<lambda>_. ''Failed to send keepalive on manual start'') (send_keepalive L c))
            (\<lambda>c. Ok (nb, c))
      | AutomaticStart \<Rightarrow> Ok (init_peer nb, c)
      | TcpConnectionValid \<Rightarrow>
          bind_outcome (send_local_open L s ''Failed to send OPEN message in CONNECT state'' nb c)
            (\<lambda>c. Ok (set_state OpenSent nb, c))
      | _ \<Rightarrow> Ok (nb, c))"

definition process_event_active ::
    "'n ipnet_ops \<Rightarrow> local_info \<Rightarrow> 'n event \<Rightarrow> 'n neighbor \<Rightarrow> conn \<Rightarrow> (string, 'n neighbor \<times> conn) outcome" where
  "process_event_active L s e nb c =
     (case e of
        TcpConnectionConfirmed \<Rightarrow>
          bind_outcome (send_local_open L s ''Failed to send OPEN message in ACTIVE state'' nb c)
            (\<lambda>c. Ok (set_state OpenSent nb, c))
      | _ \<Rightarrow> Ok (nb, c))"

definition process_event_opensent :: "'n event \<Rightarrow> 'n neighbor \<Rightarrow> conn \<Rightarrow> (string, 'n neighbor \<times> conn) outcome" where
  "process_event_opensent e nb c = Ok (nb, c)"

definition process_event_openconfirm ::
    "'n ipnet_ops \<Rightarrow> local_info \<Rightarrow> 'n event \<Rightarrow> 'n neighbor \<Rightarrow> conn \<Rightarrow> (string, 'n neighbor \<times> conn) outcome" where
  "process_event_openconfirm L s e nb c =
     (case e of
        KeepaliveTimerExpires \<Rightarrow>
          bind_outcome (map_err (\<lambda>_. ''Failed to send keepalive in OPENCONFIRM state'') (send_keepalive L c))
            (\<lambda>c. Ok (nb, c))
      | BGPOpen \<Rightarrow>
          bind_outcome (send_local_open L s ''Failed to send OPEN message in OPENCONFIRM state'' nb c)
            (\<lambda>c. Ok (nb, c))
      | _ \<Rightarrow> Ok (nb, c))"

text \<open>The errors of \<open>send_update\<close> are dropped; a panic is not.\<close>

definition process_event_established ::
    "'n ipnet_ops \<Rightarrow> ((route_attributes \<times> 'n nlri list) list \<Rightarrow> (route_attributes \<times> 'n nlri list) list)
      \<Rightarrow> 'n event \<Rightarrow> 'n neighbor \<Rightarrow> conn \<Rightarrow> (string, 'n neighbor \<times> conn) outcome" where
  "process_event_established L order e nb c =
     (case e of
        KeepaliveTimerExpires \<Rightarrow>
          bind_outcome (map_err (\<lambda>_. ''Failed to send keepalive in ESTABLISHED state'') (send_keepalive L c))
            (\<lambda>c. Ok (nb, c))
      | RibUpdate routes \<Rightarrow>
          (case send_update L order nb routes c of
             Ok c' \<Rightarrow> Ok (nb, c') | Err _ \<Rightarrow> Ok (nb, c) | Panic p \<Rightarrow> Panic p)
      | _ \<Rightarrow> Ok (nb, c))"

definition process_event ::
    "'n ipnet_ops \<Rightarrow> ((route_attributes \<times> 'n nlri list) list \<Rightarrow> (route_attributes \<times> 'n nlri list) list)
      \<Rightarrow> local_info \<Rightarrow> 'n event \<Rightarrow> 'n neighbor \<Rightarrow> conn \<Rightarrow> (string, 'n neighbor \<times> conn) outcome" where
  "process_event L order s e nb c =
     (case nb_state nb of
        Active \<Rightarrow> process_event_active L s e nb c
      | Connect \<Rightarrow> process_event_connect L s e nb c
      | OpenConfirm \<Rightarrow> process_event_openconfirm L s e nb c
      | OpenSent \<Rightarrow> process_event_opensent e nb c
      | Established \<Rightarrow> process_event_established L order e nb c
      | Idle \<Rightarrow> Ok (nb, c))"

text \<open>Without a connection only an idle neighbor reacts.\<close>

definition process_event_unconnected :: "'n event \<Rightarrow> 'n neighbor \<Rightarrow> 'n neighbor" where
  "process_event_unconnected e nb = (if nb_state nb = Idle then process_event_idle e nb else nb)"

section \<open>The session task\<close>

text \<open>The first event of \<open>fsm_tcp\<close>.  When it fails the task ends there, with the channel in place.\<close>

definition session_start ::
    "'n ipnet_ops \<Rightarrow> ((route_attributes \<times> 'n nlri list) list \<Rightarrow> (route_attributes \<times> 'n nlri list) list)
      \<Rightarrow> local_info \<Rightarrow> chan \<Rightarrow> 'n neighbor \<Rightarrow> conn \<Rightarrow> 'n neighbor \<times> (string, conn) outcome" where
  "session_start L order s ch nb c =
     (let nb = nb\<lparr>tx := Some ch\<rparr>;
          r = (case nb_state nb of
             Active \<Rightarrow> process_event L order s TcpConnectionConfirmed nb c
           | Connect \<Rightarrow> process_event L order s TcpConnectionValid nb c
           | _ \<Rightarrow> Ok (nb, c))
      in case r of Ok (nb', c') \<Rightarrow> (nb', Ok c') | Err e \<Rightarrow> (nb, Err e) | Panic p \<Rightarrow> (nb, Panic p))"

text \<open>What the task leaves when its loop ends.\<close>

definition session_end :: "'n neighbor \<Rightarrow> 'n neighbor" where
  "session_end nb = set_state Idle nb\<lparr>tx := None\<rparr>"

section \<open>Timers\<close>

text \<open>One round of \<open>timer_hold\<close>: how long it sleeps before it reports \<open>KeepaliveTimerExpires\<close>, or
  the error that ends it.\<close>

definition timer_hold_round :: "'n neighbor \<Rightarrow> (string, nat \<times> chan) outcome" where
  "timer_hold_round nb =
     bind_outcome (ok_or ''Timer channel not available for neighbor'' (tx nb))
       (\<lambda>ch. Ok (unat (hold_time (attributes nb)) div 3, ch))"

text \<open>One second of \<open>timer_keepalive\<close>: the neighbor with its counter moved on, whether the timer
  goes on, and whether it reports \<open>KeepaliveTimerExpires\<close>.\<close>

definition timer_keepalive_round :: "'n neighbor \<Rightarrow> 'n neighbor \<times> bool \<times> bool" where
  "timer_keepalive_round nb =
     (let nb = nb\<lparr>attributes := (attributes nb)\<lparr>keepalive_timer := keepalive_timer (attributes nb) + 1\<rparr>\<rparr>
      in if nb_state nb = Idle then (nb, False, False)
         else (nb, True, unat (hold_time (attributes nb)) < keepalive_timer (attributes nb)))"

section \<open>Lemmas\<close>

lemma set_state_simps [simp]:
  "nb_state (set_state st nb) = st" "remote_ip (set_state st nb) = remote_ip nb"
  "remote_rid (set_state st nb) = remote_rid nb" "remote_asn (set_state st nb) = remote_asn nb"
  "tx (set_state st nb) = tx nb" "capabilities_advertised (set_state st nb) = capabilities_advertised nb"
  "capabilities_received (set_state st nb) = capabilities_received nb"
  "adjrib (set_state st nb) = adjrib nb" "ribtx (set_state st nb) = ribtx nb"
  by (simp_all add: set_state_def)

lemma base_delay_cap: "base_delay base counter True \<le> 3600"
  by (simp add: base_delay_def)

lemma retry_delay_bounds:
  assumes "rand (base_delay base counter backoff div 10) \<le> base_delay base counter backoff div 10"
  shows "base_delay base counter backoff \<le> calculate_retry_delay rand base counter backoff"
    and "calculate_retry_delay rand base counter backoff \<le> base_delay base counter backoff * 11 div 10"
    and "backoff \<Longrightarrow> calculate_retry_delay rand base counter backoff \<le> 3600"
proof -
  define d where "d = base_delay base counter backoff"
  have r: "rand (d div 10) \<le> d div 10" and delay: "calculate_retry_delay rand base counter backoff =
      (if backoff then min (d + rand (d div 10)) 3600 else d + rand (d div 10))"
    using assms by (simp_all add: d_def calculate_retry_delay_def Let_def)
  have cap: "backoff \<Longrightarrow> d \<le> 3600" using base_delay_cap [of base counter] by (auto simp: d_def)
  have "(10 * d + d) div 10 = d + d div 10" by (rule div_mult_self4) simp
  then have sum: "d + d div 10 = d * 11 div 10" by (simp add: algebra_simps)
  show "base_delay base counter backoff \<le> calculate_retry_delay rand base counter backoff"
    using cap by (auto simp: delay simp flip: d_def)
  show "calculate_retry_delay rand base counter backoff \<le> base_delay base counter backoff * 11 div 10"
    using r sum by (auto simp: delay simp flip: d_def)
  show "calculate_retry_delay rand base counter backoff \<le> 3600" if backoff
    by (simp only: delay if_P [OF that] min.cobounded2)
qed

end
