(* ===== verification/Message_Handler.thy ===== *)
theory Message_Handler
  imports Fsm
begin

text \<open>
  \<open>src/neighbor/message_handler.rs\<close> and the state of \<open>src/speaker/types.rs\<close>: what a session does
  with a message.  A handler reads the speaker, works on its own neighbor and sends to channels; it
  returns the neighbor as it leaves it, what it sent, in order, and how it ended.  A send to a channel fails
  when the task that receives from it is gone: \<open>alive\<close> tells which receivers are there.  Where the code
  drops the error of a send, the send is listed and goes nowhere.  \<open>now\<close> is the clock.
\<close>

section \<open>The speaker\<close>

record ('n, 'm, 'p) speaker =
  local_asn :: u16
  router_id :: u32
  sp_hold_time :: u16
  local_ips :: "ip_addr list"
  local_port :: u16
  families :: "address_family list"
  sp_rib :: "address_family \<rightharpoonup> 'n rib"
  sp_fib :: "address_family \<rightharpoonup> ('n, 'm, 'p) fib"
  sp_ribtx :: "address_family \<rightharpoonup> chan"
  neighbors :: "'n neighbor list"

datatype 'n action =
    Send_Event chan "'n event"
  | Send_Rib chan "'n rib_event"
  | Start_Keepalive_Timer chan

type_synonym 'n handled = "'n neighbor \<times> 'n action list \<times> (string, unit) outcome"

text \<open>\<open>tx.send(e).await.context(msg)\<close>.\<close>

definition send_event ::
    "(chan \<Rightarrow> bool) \<Rightarrow> string \<Rightarrow> chan \<Rightarrow> 'n event \<Rightarrow> 'n action list \<times> (string, unit) outcome" where
  "send_event alive msg t e = (if alive t then ([Send_Event t e], Ok ()) else ([], Err msg))"

section \<open>Reactions\<close>

definition handle_keepalive :: "'n neighbor \<Rightarrow> 'n neighbor" where
  "handle_keepalive nb = nb\<lparr>attributes := (attributes nb)\<lparr>keepalive_timer := 0\<rparr>\<rparr>"

text \<open>The first neighbor that is opening a session with the same router id decides.\<close>

fun collision_scan :: "u32 \<Rightarrow> u32 \<Rightarrow> 'n neighbor list \<Rightarrow> bool \<times> 'n action list" where
  "collision_scan rid msg_rid [] = (False, [])"
| "collision_scan rid msg_rid (n # ns) =
     (case tx n of
        None \<Rightarrow> collision_scan rid msg_rid ns
      | Some t \<Rightarrow>
          if nb_state n = OpenConfirm \<or> nb_state n = OpenSent
          then if remote_rid n = Some msg_rid
            then (True, if remote_rid n < Some rid then [Send_Event t OpenCollisionDump] else [])
            else collision_scan rid msg_rid ns
          else collision_scan rid msg_rid ns)"

definition collision_detection :: "open_message \<Rightarrow> ('n, 'm, 'p) speaker \<Rightarrow> bool \<times> 'n action list" where
  "collision_detection m sp = collision_scan (router_id sp) (om_router_id m) (neighbors sp)"

definition validate_open :: "open_message \<Rightarrow> 'n neighbor \<Rightarrow> bool" where
  "validate_open m nb = (case remote_asn nb of Some configured_asn \<Rightarrow> configured_asn = om_asn m | None \<Rightarrow> True)"

text \<open>The capabilities are read last; reading them can panic.\<close>

definition update_from_open :: "open_message \<Rightarrow> 'n neighbor \<Rightarrow> 'n neighbor \<times> (string, unit) outcome" where
  "update_from_open m nb =
     (let nb = nb\<lparr>attributes := (attributes nb)\<lparr>hold_time := om_hold_time m, state := OpenConfirm\<rparr>,
           remote_rid := Some (om_router_id m), remote_asn := Some (om_asn m)\<rparr>
      in case neighbor_capabilities_from (capabilities_from_params (params (om_opt_params m))) of
           Ok caps \<Rightarrow> (nb\<lparr>capabilities_received := caps\<rparr>, Ok ())
         | Err e \<Rightarrow> (nb, Err (bgp_error_text e))
         | Panic p \<Rightarrow> (nb, Panic p))"

text \<open>One family of \<open>send_locrib\<close>; \<open>order\<close> is the order of the hash map.\<close>

definition locrib_routes :: "'n rib \<Rightarrow> 'n nlri list \<Rightarrow> (string, 'n modified) outcome" where
  "locrib_routes rib order =
     foldr (\<lambda>n rest. case rib n of
         None \<Rightarrow> rest
       | Some [] \<Rightarrow> Panic (ExpectFailed ''BUG: RIB entry should have at least one route attribute'')
       | Some (a # _) \<Rightarrow> bind_outcome rest (\<lambda>rs. Ok ((n, Some a) # rs))) order (Ok [])"

fun send_locrib_families ::
    "(chan \<Rightarrow> bool) \<Rightarrow> ('n, 'm, 'p) speaker \<Rightarrow> ('n rib \<Rightarrow> 'n nlri list) \<Rightarrow> chan option \<Rightarrow> address_family list
      \<Rightarrow> address_family list \<Rightarrow> 'n action list \<times> (string, unit) outcome" where
  "send_locrib_families alive sp order t rec [] = ([], Ok ())"
| "send_locrib_families alive sp order t rec (fam # fams) =
     (if fam \<in> set rec
      then (case bind_outcome (expect ''BUG: RIB should exist for negotiated address family'' (sp_rib sp fam))
              (\<lambda>rib. bind_outcome (locrib_routes rib (order rib)) (\<lambda>routes.
                bind_outcome (expect ''BUG: Neighbor TX channel should be initialized before establishment'' t) (\<lambda>ch.
                  if alive ch then Ok (Send_Event ch (RibUpdate routes))
                  else Panic (ExpectFailed ''BUG: Failed to send RIB update to established neighbor'')))) of
            Ok a \<Rightarrow> (let (acts, r) = send_locrib_families alive sp order t rec fams in (a # acts, r))
          | Err e \<Rightarrow> ([], Err e)
          | Panic p \<Rightarrow> ([], Panic p))
      else send_locrib_families alive sp order t rec fams)"

definition send_locrib ::
    "(chan \<Rightarrow> bool) \<Rightarrow> ('n, 'm, 'p) speaker \<Rightarrow> ('n rib \<Rightarrow> 'n nlri list) \<Rightarrow> 'n neighbor
      \<Rightarrow> 'n action list \<times> (string, unit) outcome" where
  "send_locrib alive sp order nb =
     (case multiprotocol (capabilities_advertised nb) of
        None \<Rightarrow> ([], Panic (ExpectFailed ''BUG: Advertised capabilities should be set before BGP establishment''))
      | Some adv \<Rightarrow>
          (case multiprotocol (capabilities_received nb) of
             None \<Rightarrow> ([], Panic (ExpectFailed ''BUG: Received capabilities should be set after processing OPEN message''))
           | Some rec \<Rightarrow> send_locrib_families alive sp order (tx nb) rec adv))"

definition ipv4_unicast :: address_family where
  "ipv4_unicast = \<lparr>afi = Ipv4, safi = NLRIUnicast\<rparr>"

text \<open>Every family of the list that has a RIB manager is told to drop the peer's routes.\<close>

definition withdraw_neighbor_routes ::
    "('n, 'm, 'p) speaker \<Rightarrow> u32 \<Rightarrow> nat \<Rightarrow> address_family list \<Rightarrow> 'n action list" where
  "withdraw_neighbor_routes sp peer now fams =
     concat (map (\<lambda>fam. case sp_ribtx sp fam of
         None \<Rightarrow> []
       | Some ch \<Rightarrow> [Send_Rib ch (UpdateRoutes \<lparr>upd_added = None,
           upd_withdrawn = Some \<lparr>ru_nlris = [], ru_attributes = (ra_default now)\<lparr>peer_rid := peer\<rparr>\<rparr>,
           upd_rid = peer\<rparr>)]) fams)"

definition handle_notification ::
    "notification_message \<Rightarrow> ('n, 'm, 'p) speaker \<Rightarrow> nat \<Rightarrow> 'n neighbor \<Rightarrow> 'n neighbor \<times> 'n action list" where
  "handle_notification m sp now nb =
     (let rid = (case remote_rid nb of Some r \<Rightarrow> r | None \<Rightarrow> 0);
          fams = (case multiprotocol (capabilities_advertised nb) of Some fs \<Rightarrow> fs | None \<Rightarrow> [ipv4_unicast]);
          acts = withdraw_neighbor_routes sp rid now fams;
          nb = (set_state Idle nb)\<lparr>adjrib := Map.empty\<rparr>
      in (nb, acts @ (case tx nb of Some t \<Rightarrow> [Send_Event t TcpConnectionFails] | None \<Rightarrow> [])))"

text \<open>The first multiprotocol attribute, by its type code, decides what the UPDATE is about.\<close>

definition update_routes ::
    "'n update_message \<Rightarrow> address_family \<times> 'n nlri list \<times> 'n nlri list \<times> ip_addr option" where
  "update_routes m =
     (case map_option attr_value (find (\<lambda>x. type_code x = PT_MPReachableNLRI \<or> type_code x = PT_MPUnreachableNLRI)
             (path_attributes m)) of
        Some (PV_MPReachableNLRI n) \<Rightarrow> (af n, nlris n, [], Some (nh n))
      | Some (PV_MPUnreachableNLRI n) \<Rightarrow> (un_af n, [], un_nlris n, None)
      | _ \<Rightarrow> (ipv4_unicast, um_nlri m, withdrawn_routes m, None))"

definition handle_update ::
    "'n update_message \<Rightarrow> ('n, 'm, 'p) speaker \<Rightarrow> nat \<Rightarrow> 'n neighbor \<Rightarrow> 'n handled" where
  "handle_update m sp now nb =
     (let (fam, ns, wd, hop) = update_routes m
      in case ra_new (path_attributes m) (ucast (local_asn sp)) (remote_asn nb) (remote_rid nb) (remote_ip nb) hop now of
           Err e \<Rightarrow> (nb, [], Err e)
         | Panic p \<Rightarrow> (nb, [], Panic p)
         | Ok attrs \<Rightarrow>
             (let wd_update = \<lparr>ru_nlris = wd, ru_attributes = attrs\<rparr>;
                  ns_update = \<lparr>ru_nlris = ns, ru_attributes = attrs\<rparr>;
                  nb = (if wd \<noteq> [] then adjrib_withdraw fam wd_update nb else nb);
                  nb = (if ns \<noteq> [] then adjrib_add fam ns_update nb else nb)
              in case remote_rid nb of
                   None \<Rightarrow> (nb, [], Panic (ExpectFailed ''BUG: Remote RID should be set after processing OPEN message''))
                 | Some r \<Rightarrow>
                     (nb, (case ribtx nb fam of
                         None \<Rightarrow> []
                       | Some ch \<Rightarrow> [Send_Rib ch (UpdateRoutes \<lparr>upd_added = (if ns \<noteq> [] then Some ns_update else None),
                           upd_withdrawn = (if wd \<noteq> [] then Some wd_update else None), upd_rid = r\<rparr>)]),
                      Ok ())))"

section \<open>Messages by state\<close>

text \<open>An OPEN in ACTIVE and in OPENSENT: \<open>active\<close> tells which; the two differ in their texts, and ACTIVE
  reports an accepted OPEN to the session's queue.\<close>

definition handle_open ::
    "(chan \<Rightarrow> bool) \<Rightarrow> bool \<Rightarrow> open_message \<Rightarrow> ('n, 'm, 'p) speaker \<Rightarrow> 'n neighbor \<Rightarrow> 'n handled" where
  "handle_open alive active m sp nb =
     (let failed = (if active then ''failed'' else ''Failed'')
      in case tx nb of
        None \<Rightarrow> (nb, [], Err (if active then ''Neighbor TX channel not initialized'' else ''No tx channel available''))
      | Some t \<Rightarrow>
          (case collision_detection m sp of
             (True, acts) \<Rightarrow>
               (let (sent, r) = send_event alive (failed @ '' to send OpenCollisionDump event'') t OpenCollisionDump
                in (nb, acts @ sent, r))
           | (False, acts) \<Rightarrow>
               if \<not> validate_open m nb
               then (let (sent, r) = send_event alive (failed @ '' to send BGPOpenMsgErr event'') t BGPOpenMsgErr
                     in (nb, acts @ sent, r))
               else (case update_from_open m nb of
                   (nb', Ok _) \<Rightarrow>
                     (let (sent, r) = (if active then send_event alive ''failed to send BGPOpen event'' t BGPOpen
                            else ([], Ok ()))
                      in (nb', acts @ Start_Keepalive_Timer t # sent, r))
                 | (nb', r) \<Rightarrow> (nb', acts, r))))"

text \<open>A message that is only reported to the session's queue.\<close>

definition notify :: "(chan \<Rightarrow> bool) \<Rightarrow> string \<Rightarrow> string \<Rightarrow> 'n neighbor \<Rightarrow> 'n handled" where
  "notify alive no_channel failed nb =
     (case tx nb of
        None \<Rightarrow> (nb, [], Err no_channel)
      | Some t \<Rightarrow> (nb, send_event alive failed t NotifMsg))"

definition process_message_opensent ::
    "(chan \<Rightarrow> bool) \<Rightarrow> 'n message_body \<Rightarrow> ('n, 'm, 'p) speaker \<Rightarrow> 'n neighbor \<Rightarrow> 'n handled" where
  "process_message_opensent alive m sp nb =
     (case m of
        MB_Keepalive \<Rightarrow> (handle_keepalive nb, [], Ok ())
      | MB_Open msg \<Rightarrow> handle_open alive False msg sp nb
      | MB_Notification _ \<Rightarrow> (nb, [], Ok ())
      | MB_Update _ \<Rightarrow> notify alive ''No tx channel available'' ''failed to send notifmsg event'' nb)"

definition process_message_active ::
    "(chan \<Rightarrow> bool) \<Rightarrow> 'n message_body \<Rightarrow> ('n, 'm, 'p) speaker \<Rightarrow> 'n neighbor \<Rightarrow> 'n handled" where
  "process_message_active alive m sp nb =
     (case m of
        MB_Open msg \<Rightarrow> handle_open alive True msg sp nb
      | MB_Notification _ \<Rightarrow> notify alive ''No tx channel available'' ''failed to send notifmsg event'' nb
      | _ \<Rightarrow> (nb, [], Ok ()))"

definition process_message_connect :: "'n message_body \<Rightarrow> 'n neighbor \<Rightarrow> 'n handled" where
  "process_message_connect m nb = (nb, [], Ok ())"

definition process_message_openconfirm ::
    "(chan \<Rightarrow> bool) \<Rightarrow> ('n rib \<Rightarrow> 'n nlri list) \<Rightarrow> 'n message_body \<Rightarrow> ('n, 'm, 'p) speaker \<Rightarrow> 'n neighbor
      \<Rightarrow> 'n handled" where
  "process_message_openconfirm alive order m sp nb =
     (case m of
        MB_Keepalive \<Rightarrow>
          (let nb = set_state Established (handle_keepalive nb);
               (acts, r) = send_locrib alive sp order nb
           in (nb, acts, r))
      | MB_Notification _ \<Rightarrow>
          notify alive ''Neighbor TX channel not initialized'' ''Failed to send notification event'' nb
      | _ \<Rightarrow> (nb, [], Ok ()))"

definition process_message_established ::
    "'n message_body \<Rightarrow> ('n, 'm, 'p) speaker \<Rightarrow> nat \<Rightarrow> 'n neighbor \<Rightarrow> 'n handled" where
  "process_message_established m sp now nb =
     (case m of
        MB_Keepalive \<Rightarrow> (handle_keepalive nb, [], Ok ())
      | MB_Notification msg \<Rightarrow> (let (nb, acts) = handle_notification msg sp now nb in (nb, acts, Ok ()))
      | MB_Update msg \<Rightarrow> handle_update msg sp now nb
      | _ \<Rightarrow> (nb, [], Ok ()))"

definition process_message_idle :: "'n message_body \<Rightarrow> 'n neighbor \<Rightarrow> 'n handled" where
  "process_message_idle m nb = (nb, [], Ok ())"

definition process_message ::
    "(chan \<Rightarrow> bool) \<Rightarrow> ('n rib \<Rightarrow> 'n nlri list) \<Rightarrow> 'n message \<Rightarrow> ('n, 'm, 'p) speaker \<Rightarrow> nat \<Rightarrow> 'n neighbor
      \<Rightarrow> 'n handled" where
  "process_message alive order m sp now nb =
     (case nb_state nb of
        Active \<Rightarrow> process_message_active alive (body m) sp nb
      | Connect \<Rightarrow> process_message_connect (body m) nb
      | OpenConfirm \<Rightarrow> process_message_openconfirm alive order (body m) sp nb
      | OpenSent \<Rightarrow> process_message_opensent alive (body m) sp nb
      | Established \<Rightarrow> process_message_established (body m) sp now nb
      | Idle \<Rightarrow> process_message_idle (body m) nb)"

end
