(* ===== verification/Ip_Text.thy ===== *)
theory Ip_Text
  imports Ipnet
begin

text \<open>
  Addresses as text, the way the standard library prints and parses them: \<open>Display\<close> of \<open>Ipv4Addr\<close> and
  \<open>Ipv6Addr\<close> and \<open>FromStr\<close> of \<open>IpAddr\<close>.  The program parses the address of every neighbor of
  its configuration, the default address to listen on and the addresses of gRPC queries, and prints
  the addresses in its answers.  The parser is the library's recursive descent over bytes: every
  \<open>read\<close> function takes the rest of the text and returns what it read and what is left, or
  \<open>None\<close>, upon which the caller goes on from where it was.
\<close>

section \<open>Digits\<close>

definition digit_char :: "nat \<Rightarrow> char" where
  "digit_char d = char_of (if d < 10 then 48 + d else 87 + d)"

text \<open>\<open>char::to_digit\<close>.\<close>

definition digit_value :: "nat \<Rightarrow> char \<Rightarrow> nat option" where
  "digit_value radix c =
     (let k = of_char c :: nat;
          d = (if 48 \<le> k \<and> k < 58 then k - 48
               else if 97 \<le> k \<and> k < 123 then k - 87
               else if 65 \<le> k \<and> k < 91 then k - 55
               else radix)
      in if d < radix then Some d else None)"

fun number_text :: "nat \<Rightarrow> nat \<Rightarrow> string" where
  "number_text radix n =
     (if radix < 2 \<or> n < radix then [digit_char n]
      else number_text radix (n div radix) @ [digit_char (n mod radix)])"

declare number_text.simps [simp del]

lemma dec_number_text: "dec n = number_text 10 n"
proof (induction n rule: less_induct)
  case (less n)
  then show ?case
    by (subst dec.simps, subst number_text.simps) (simp add: digit_char_def)
qed

lemma digit_value_char [simp]:
  assumes "d < radix" and "radix \<le> 36"
  shows "digit_value radix (digit_char d) = Some d"
proof -
  have "87 + d < 256" using assms by linarith
  then show ?thesis using assms by (auto simp: digit_value_def digit_char_def Let_def)
qed

lemma digit_value_None [simp]:
  "radix \<le> 36 \<Longrightarrow> digit_value radix CHR ''.'' = None"
  "radix \<le> 36 \<Longrightarrow> digit_value radix CHR '':'' = None"
  "radix \<le> 36 \<Longrightarrow> digit_value radix CHR ''['' = None"
  by (simp_all add: digit_value_def Let_def)

lemma digit_char_0 [simp]: "digit_char 0 = CHR ''0''"
  by code_simp

section \<open>The parser\<close>

text \<open>The loop of \<open>read_number\<close>: \<open>None\<close> when there are more digits than allowed.\<close>

fun read_digits :: "nat \<Rightarrow> nat \<Rightarrow> nat \<Rightarrow> nat \<Rightarrow> string \<Rightarrow> (nat \<times> nat \<times> string) option" where
  "read_digits radix most count acc [] = Some (acc, count, [])"
| "read_digits radix most count acc (c # s) =
     (case digit_value radix c of
        None \<Rightarrow> Some (acc, count, c # s)
      | Some d \<Rightarrow> if most < count + 1 then None
                  else read_digits radix most (count + 1) (acc * radix + d) s)"

definition read_number :: "nat \<Rightarrow> nat \<Rightarrow> bool \<Rightarrow> nat \<Rightarrow> string \<Rightarrow> (nat \<times> string) option" where
  "read_number radix most zero_prefix bound s =
     (case read_digits radix most 0 0 s of
        None \<Rightarrow> None
      | Some (v, count, rest) \<Rightarrow>
          if count = 0 then None
          else if \<not> zero_prefix \<and> hd s = CHR ''0'' \<and> 1 < count then None
          else if v < bound then Some (v, rest) else None)"

definition read_separator :: "char \<Rightarrow> nat \<Rightarrow> (string \<Rightarrow> ('a \<times> string) option) \<Rightarrow> string \<Rightarrow> ('a \<times> string) option" where
  "read_separator sep i f s =
     (if 0 < i then (case s of [] \<Rightarrow> None | c # s' \<Rightarrow> if c = sep then f s' else None) else f s)"

fun read_octets :: "nat \<Rightarrow> nat \<Rightarrow> string \<Rightarrow> (u8 list \<times> string) option" where
  "read_octets 0 i s = Some ([], s)"
| "read_octets (Suc n) i s =
     (case read_separator CHR ''.'' i (read_number 10 3 False 256) s of
        None \<Rightarrow> None
      | Some (v, s') \<Rightarrow>
          (case read_octets n (i + 1) s' of None \<Rightarrow> None | Some (vs, s'') \<Rightarrow> Some (of_nat v # vs, s'')))"

definition read_ipv4_addr :: "string \<Rightarrow> (u8 list \<times> string) option" where
  "read_ipv4_addr = read_octets 4 0"

text \<open>
  \<open>read_groups\<close>: the groups of a part of an IPv6 address with room for \<open>limit\<close> of them, whether it
  ended in an embedded IPv4 address, and what is left.
\<close>

function read_groups :: "nat \<Rightarrow> nat \<Rightarrow> u16 list \<Rightarrow> string \<Rightarrow> u16 list \<times> bool \<times> string" where
  "read_groups limit i acc s =
     (if i < limit then
        (case if i < limit - 1 then read_separator CHR '':'' i read_ipv4_addr s else None of
           Some (os, s') \<Rightarrow> (acc @ pairs os, True, s')
         | None \<Rightarrow>
             (case read_separator CHR '':'' i (read_number 16 4 True 65536) s of
                Some (g, s') \<Rightarrow> read_groups limit (i + 1) (acc @ [of_nat g]) s'
              | None \<Rightarrow> (acc, False, s)))
      else (acc, False, s))"
  by pat_completeness auto
termination
  by (relation "measure (\<lambda>(limit, i, acc, s). limit - i)") auto

declare read_groups.simps [simp del]

definition read_ipv6_addr :: "string \<Rightarrow> (u16 list \<times> string) option" where
  "read_ipv6_addr s =
     (case read_groups 8 0 [] s of (head, head_ipv4, s1) \<Rightarrow>
        if length head = 8 then Some (head, s1)
        else if head_ipv4 then None
        else (case s1 of
                c # d # s2 \<Rightarrow>
                  if c = CHR '':'' \<and> d = CHR '':'' then
                    (case read_groups (8 - (length head + 1)) 0 [] s2 of (tail, tail_ipv4, s3) \<Rightarrow>
                       Some (head @ replicate (8 - length tail - length head) 0 @ tail, s3))
                  else None
              | _ \<Rightarrow> None))"

definition parse_ip :: "string \<Rightarrow> ip_addr option" where
  "parse_ip s =
     (case read_ipv4_addr s of
        Some (os, rest) \<Rightarrow> if rest = [] then Some (V4 (from_be os)) else None
      | None \<Rightarrow>
          (case read_ipv6_addr s of
             Some (gs, rest) \<Rightarrow> if rest = [] then Some (V6 (ipv6_addr_new gs)) else None
           | None \<Rightarrow> None))"

section \<open>The printer\<close>

fun join :: "char \<Rightarrow> string list \<Rightarrow> string" where
  "join sep [] = []"
| "join sep [x] = x"
| "join sep (x # y # ys) = x @ sep # join sep (y # ys)"

definition show_ipv4 :: "ipv4_addr \<Rightarrow> string" where
  "show_ipv4 a = join CHR ''.'' (map (\<lambda>b. dec (unat b)) (to_be 4 a))"

text \<open>\<open>fmt_subslice\<close>.\<close>

definition show_groups :: "u16 list \<Rightarrow> string" where
  "show_groups gs = join CHR '':'' (map (\<lambda>g. number_text 16 (unat g)) gs)"

text \<open>The longest run of zero segments, the first of them: its start and length.\<close>

record span =
  span_start :: nat
  span_len :: nat

fun zero_spans :: "u16 list \<Rightarrow> nat \<Rightarrow> span \<Rightarrow> span \<Rightarrow> span" where
  "zero_spans [] i longest current = longest"
| "zero_spans (g # gs) i longest current =
     (if g = 0 then
        (let current = (if span_len current = 0 then current\<lparr>span_start := i\<rparr> else current);
             current = current\<lparr>span_len := span_len current + 1\<rparr>
         in zero_spans gs (i + 1) (if span_len longest < span_len current then current else longest) current)
      else zero_spans gs (i + 1) longest \<lparr>span_start = 0, span_len = 0\<rparr>)"

definition longest_zeroes :: "u16 list \<Rightarrow> span" where
  "longest_zeroes gs = zero_spans gs 0 \<lparr>span_start = 0, span_len = 0\<rparr> \<lparr>span_start = 0, span_len = 0\<rparr>"

definition show_ipv6 :: "ipv6_addr \<Rightarrow> string" where
  "show_ipv6 a =
     (let gs = segments a
      in if take 6 gs = [0, 0, 0, 0, 0, 65535] then ''::ffff:'' @ show_ipv4 (from_be (drop 12 (to_be 16 a)))
         else let z = longest_zeroes gs
           in if 1 < span_len z
              then show_groups (take (span_start z) gs) @ ''::'' @ show_groups (drop (span_start z + span_len z) gs)
              else show_groups gs)"

fun show_ip :: "ip_addr \<Rightarrow> string" where
  "show_ip (V4 a) = show_ipv4 a"
| "show_ip (V6 a) = show_ipv6 a"

section \<open>Reading what was printed\<close>

definition stops :: "nat \<Rightarrow> string \<Rightarrow> bool" where
  "stops radix s \<longleftrightarrow> s = [] \<or> digit_value radix (hd s) = None"

lemma stops_Nil [simp]: "stops radix []"
  by (simp add: stops_def)

lemma stops_Cons [simp]: "stops radix (c # s) \<longleftrightarrow> digit_value radix c = None"
  by (simp add: stops_def)

lemma read_digits_stops: "stops radix s \<Longrightarrow> read_digits radix most k acc s = Some (acc, k, s)"
  by (cases s) auto

lemma read_digits_text:
  assumes "2 \<le> radix" and "radix \<le> 36"
  shows "k + length (number_text radix n) \<le> most \<Longrightarrow>
    read_digits radix most k acc (number_text radix n @ s) =
      read_digits radix most (k + length (number_text radix n)) (acc * radix ^ length (number_text radix n) + n) s"
proof (induction n arbitrary: s rule: less_induct)
  case (less n)
  show ?case
  proof (cases "n < radix")
    case True
    then have "number_text radix n = [digit_char n]" by (simp add: number_text.simps)
    then show ?thesis using True less.prems assms by simp
  next
    case False
    let ?t = "number_text radix (n div radix)" and ?d = "n mod radix"
    have nt: "number_text radix n = ?t @ [digit_char ?d]"
      using False assms by (subst number_text.simps) simp
    have d: "?d < radix" and step: "n div radix < n" using False assms by auto
    have "read_digits radix most k acc (?t @ digit_char ?d # s) =
        read_digits radix most (k + length ?t) (acc * radix ^ length ?t + n div radix) (digit_char ?d # s)"
      using less.prems by (intro less.IH [OF step]) (simp add: nt)
    moreover have "(acc * radix ^ length ?t + n div radix) * radix + ?d = acc * (radix * radix ^ length ?t) + n"
      using div_mult_mod_eq [of n radix] by (simp add: algebra_simps)
    ultimately show ?thesis using less.prems d assms by (simp add: nt)
  qed
qed

lemma number_text_length: "2 \<le> radix \<Longrightarrow> 0 < k \<Longrightarrow> n < radix ^ k \<Longrightarrow> length (number_text radix n) \<le> k"
proof (induction k arbitrary: n)
  case (Suc k)
  show ?case
  proof (cases "n < radix")
    case False
    then have "0 < k" using Suc.prems by (cases k) auto
    moreover have "n div radix < radix ^ k"
      using Suc.prems by (simp add: less_mult_imp_div_less mult.commute)
    ultimately show ?thesis
      using Suc.IH [of "n div radix"] Suc.prems False by (subst number_text.simps) simp
  qed (simp add: number_text.simps)
qed simp

lemma number_text_nonempty [simp]: "number_text radix n \<noteq> []"
  by (subst number_text.simps) simp

lemma number_text_hd_zero:
  assumes "2 \<le> radix" and "radix \<le> 36" and "hd (number_text radix n) = CHR ''0''"
  shows "n = 0"
  using assms(3)
proof (induction n rule: less_induct)
  case (less n)
  show ?case
  proof (cases "n < radix")
    case True
    then have "digit_char n = digit_char 0" using less.prems by (simp add: number_text.simps)
    then have "digit_value radix (digit_char n) = digit_value radix (digit_char 0)" by (rule arg_cong)
    then show ?thesis using True assms(1,2) by (simp del: digit_char_0)
  next
    case False
    then have "hd (number_text radix (n div radix)) = CHR ''0''" and "n div radix < n"
      using less.prems assms(1) by (subst (asm) number_text.simps; simp)+
    then have "n div radix = 0" using less.IH by blast
    then show ?thesis using False assms(1) by (simp add: div_eq_0_iff)
  qed
qed

lemma read_number_text:
  assumes "2 \<le> radix" and "radix \<le> 36" and "0 < most" and "n < radix ^ most" and "n < bound" and "stops radix s"
  shows "read_number radix most zero_prefix bound (number_text radix n @ s) = Some (n, s)"
proof -
  have len: "length (number_text radix n) \<le> most"
    using assms by (intro number_text_length) auto
  have "read_digits radix most 0 0 (number_text radix n @ s) = Some (n, length (number_text radix n), s)"
    using read_digits_text [OF assms(1,2), of 0 n most 0 s] len read_digits_stops [OF assms(6)] by simp
  moreover have "length (number_text radix n) = 1" if "hd (number_text radix n) = CHR ''0''"
    using number_text_hd_zero [OF assms(1,2) that] assms(1) by (simp add: number_text.simps)
  ultimately show ?thesis
    using assms(5) by (auto simp: read_number_def)
qed

lemma read_number_stops [simp]: "stops radix s \<Longrightarrow> read_number radix most z bound s = None"
  by (simp add: read_number_def read_digits_stops)

lemma read_octets_text:
  assumes "stops 10 s"
  shows "bs \<noteq> [] \<Longrightarrow> read_octets (length bs) i
    ((if 0 < i then ''.'' else []) @ join CHR ''.'' (map (\<lambda>b. dec (unat b)) bs) @ s) = Some (bs, s)"
proof (induction bs arbitrary: i)
  case (Cons b bs)
  have b: "unat b < 256" "unat b < 10 ^ 3" using u8_bound [of b] by auto
  have num: "read_number 10 3 False 256 (number_text 10 (unat b) @ r) = Some (unat b, r)" if "stops 10 r" for r
    by (rule read_number_text) (use b that in auto)
  show ?case
  proof (cases bs)
    case Nil
    then show ?thesis using assms by (simp add: read_separator_def dec_number_text num)
  next
    case (Cons c cs)
    then have "read_octets (length bs) (i + 1) (''.'' @ join CHR ''.'' (map (\<lambda>b. dec (unat b)) bs) @ s) = Some (bs, s)"
      using Cons.IH [of "i + 1"] by simp
    with Cons show ?thesis by (cases "i = 0") (simp_all add: read_separator_def dec_number_text num)
  qed
qed simp

lemma read_ipv4_show: "stops 10 s \<Longrightarrow> read_ipv4_addr (show_ipv4 a @ s) = Some (to_be 4 a, s)"
  using read_octets_text [of s "to_be 4 a" 0] length_to_be [of 4 a]
  by (cases "to_be 4 a = []") (auto simp: read_ipv4_addr_def show_ipv4_def)

lemma parse_show_ipv4: "parse_ip (show_ip (V4 a)) = Some (V4 a)"
  using read_ipv4_show [of "[]" a] by (simp add: parse_ip_def)

section \<open>IPv6\<close>

lemma number_text_digits: "2 \<le> radix \<Longrightarrow> radix \<le> 36 \<Longrightarrow> c \<in> set (number_text radix n) \<Longrightarrow> digit_value radix c \<noteq> None"
proof (induction n rule: less_induct)
  case (less n)
  show ?case
  proof (cases "n < radix")
    case True
    then show ?thesis using less.prems by (subst (asm) number_text.simps) simp
  next
    case False
    then have "c \<in> set (number_text radix (n div radix)) \<or> c = digit_char (n mod radix)"
      using less.prems by (subst (asm) number_text.simps) auto
    moreover have "n div radix < n" and "n mod radix < radix" using False less.prems by auto
    ultimately show ?thesis using less by auto
  qed
qed

lemma show_groups_no_dot: "CHR ''.'' \<notin> set (show_groups gs)"
proof -
  have "CHR ''.'' \<notin> set (number_text 16 n)" for n
    using number_text_digits [of 16 "CHR ''.''" n] by auto
  moreover have "set (join CHR '':'' xs) \<subseteq> \<Union> (set ` set xs) \<union> {CHR '':''}" for xs
    by (induction "CHR '':''" xs rule: join.induct) auto
  ultimately show ?thesis by (fastforce simp: show_groups_def)
qed

lemma read_digits_rest: "read_digits radix most k acc s = Some (v, n, r) \<Longrightarrow> set r \<subseteq> set s"
  by (induction radix most k acc s rule: read_digits.induct) (fastforce split: option.splits if_splits)+

lemma read_number_rest: "read_number radix most z bound s = Some (v, r) \<Longrightarrow> set r \<subseteq> set s"
  using read_digits_rest [of radix most 0 0 s v]
  by (auto simp: read_number_def split: option.splits if_splits)

lemma read_ipv4_unfold:
  "read_ipv4_addr s =
     (case read_number 10 3 False 256 s of
        None \<Rightarrow> None
      | Some (v, s') \<Rightarrow>
          (case read_octets 3 (Suc 0) s' of None \<Rightarrow> None | Some (vs, s'') \<Rightarrow> Some (of_nat v # vs, s'')))"
proof -
  have "(4::nat) = Suc 3" by simp
  then show ?thesis by (simp only: read_ipv4_addr_def read_octets.simps read_separator_def less_irrefl if_False add_0 One_nat_def)
qed

lemma read_octets_no_dot:
  assumes "CHR ''.'' \<notin> set s"
  shows "read_octets 3 (Suc 0) s = None"
proof -
  have "read_octets (Suc n) (Suc i) s = None" for n i
    using assms by (cases s) (auto simp: read_separator_def)
  from this [of 2 0] show ?thesis by simp
qed

lemma read_ipv4_no_dot:
  assumes "CHR ''.'' \<notin> set s"
  shows "read_ipv4_addr s = None"
proof -
  have "read_octets 3 (Suc 0) r = None" if "read_number 10 3 False 256 s = Some (v, r)" for v r
    using read_number_rest [OF that] assms by (intro read_octets_no_dot) auto
  then show ?thesis by (auto simp: read_ipv4_unfold split: option.splits)
qed

lemma read_ipv4_stops: "stops 10 s \<Longrightarrow> read_ipv4_addr s = None"
  by (simp add: read_ipv4_unfold)

text \<open>What may follow the groups of a part: nothing, or the two colons.\<close>

definition part_end :: "string \<Rightarrow> bool" where
  "part_end s \<longleftrightarrow> s = [] \<or> (\<exists>r. s = CHR '':'' # CHR '':'' # r)"

lemma read_groups_numbers:
  assumes "CHR ''.'' \<notin> set s" and "part_end s"
  shows "i + length gs \<le> limit \<Longrightarrow>
    read_groups limit i acc ((if 0 < i \<and> gs \<noteq> [] then '':'' else []) @ show_groups gs @ s) = (acc @ gs, False, s)"
proof (induction gs arbitrary: i acc)
  case Nil
  have "read_separator CHR '':'' i read_ipv4_addr s = None"
    using assms by (auto simp: read_separator_def part_end_def read_ipv4_stops)
  moreover have "read_separator CHR '':'' i (read_number 16 4 True 65536) s = None"
    using assms by (auto simp: read_separator_def part_end_def)
  ultimately show ?case
    by (subst read_groups.simps) (simp add: show_groups_def)
next
  case (Cons g gs)
  let ?rest = "(if gs \<noteq> [] then '':'' else []) @ show_groups gs @ s"
  let ?here = "number_text 16 (unat g) @ ?rest"
  have input: "(if 0 < i \<and> g # gs \<noteq> [] then '':'' else []) @ show_groups (g # gs) @ s =
      (if 0 < i then '':'' else []) @ ?here"
    by (cases gs) (simp_all add: show_groups_def)
  have "CHR ''.'' \<notin> set ?here"
    using assms(1) show_groups_no_dot [of "[g]"] show_groups_no_dot [of gs] by (simp add: show_groups_def)
  then have v4: "read_separator CHR '':'' i read_ipv4_addr ((if 0 < i then '':'' else []) @ ?here) = None"
    using read_ipv4_no_dot [of ?here] by (simp add: read_separator_def)
  have g: "unat g < 65536" using unsigned_less [of g, where ?'a = nat] by simp
  have "stops 16 ?rest" using assms(2) by (auto simp: part_end_def show_groups_def)
  then have "read_number 16 4 True 65536 ?here = Some (unat g, ?rest)"
    using g by (intro read_number_text) auto
  then have num: "read_separator CHR '':'' i (read_number 16 4 True 65536) ((if 0 < i then '':'' else []) @ ?here) =
      Some (unat g, ?rest)"
    by (simp add: read_separator_def)
  have "read_groups limit (i + 1) (acc @ [g]) ?rest = (acc @ g # gs, False, s)"
    using Cons.IH [of "i + 1" "acc @ [g]"] Cons.prems by simp
  with v4 num show ?case
    unfolding input using Cons.prems by (subst read_groups.simps) simp
qed

lemma read_groups_parts:
  "length gs \<le> limit \<Longrightarrow> read_groups limit 0 [] (show_groups gs) = (gs, False, [])"
  "length gs \<le> limit \<Longrightarrow> CHR ''.'' \<notin> set s \<Longrightarrow>
    read_groups limit 0 [] (show_groups gs @ '':''  @ '':'' @ s) = (gs, False, '':'' @ '':'' @ s)"
  using read_groups_numbers [of "[]" 0 gs limit "[]"] read_groups_numbers [of "'':'' @ '':'' @ s" 0 gs limit "[]"]
  by (simp_all add: part_end_def)

lemma read_ipv6_full: "length gs = 8 \<Longrightarrow> read_ipv6_addr (show_groups gs) = Some (gs, [])"
  by (simp add: read_ipv6_addr_def read_groups_parts)

lemma read_ipv6_compressed:
  assumes "length h + length t < 8"
  shows "read_ipv6_addr (show_groups h @ ''::'' @ show_groups t) =
    Some (h @ replicate (8 - length t - length h) 0 @ t, [])"
  using assms read_groups_parts(2) [of h 8 "show_groups t"] read_groups_parts(1) [of t "7 - length h"]
  by (simp add: read_ipv6_addr_def show_groups_no_dot)

text \<open>The run of zeroes is one.\<close>

definition zero_run :: "u16 list \<Rightarrow> span \<Rightarrow> bool" where
  "zero_run gs z \<longleftrightarrow> span_start z + span_len z \<le> length gs
     \<and> take (span_len z) (drop (span_start z) gs) = replicate (span_len z) 0"

lemma zero_run_append: "zero_run gs z \<Longrightarrow> zero_run (gs @ hs) z"
  by (simp add: zero_run_def)

lemma zero_run_grow:
  assumes "zero_run gs z" and "0 < span_len z \<longrightarrow> span_start z + span_len z = length gs"
    and "z' = (if span_len z = 0 then z\<lparr>span_start := length gs, span_len := 1\<rparr> else z\<lparr>span_len := span_len z + 1\<rparr>)"
  shows "zero_run (gs @ [0]) z' \<and> span_start z' + span_len z' = length (gs @ [0])"
  using assms by (auto simp: zero_run_def replicate_append_same)

lemma zero_spans_run:
  "zero_run pre longest \<Longrightarrow> zero_run pre current \<Longrightarrow>
    0 < span_len current \<longrightarrow> span_start current + span_len current = length pre \<Longrightarrow>
    zero_run (pre @ gs) (zero_spans gs (length pre) longest current)"
proof (induction gs arbitrary: pre longest current)
  case (Cons g gs)
  show ?case
  proof (cases "g = 0")
    case True
    define c where "c = (if span_len current = 0 then current\<lparr>span_start := length pre, span_len := 1\<rparr>
      else current\<lparr>span_len := span_len current + 1\<rparr>)"
    have c: "zero_run (pre @ [0]) c" "span_start c + span_len c = length (pre @ [0])"
      using zero_run_grow [OF Cons.prems(2,3) c_def] by auto
    have "zero_run ((pre @ [0]) @ gs) (zero_spans gs (length (pre @ [0]))
        (if span_len longest < span_len c then c else longest) c)"
      by (rule Cons.IH) (use c Cons.prems(1) in \<open>auto intro: zero_run_append\<close>)
    then show ?thesis using True by (auto simp: c_def Let_def)
  next
    case False
    have "zero_run ((pre @ [g]) @ gs) (zero_spans gs (length (pre @ [g])) longest \<lparr>span_start = 0, span_len = 0\<rparr>)"
      by (rule Cons.IH) (use Cons.prems(1) in \<open>auto intro: zero_run_append simp: zero_run_def\<close>)
    then show ?thesis using False by simp
  qed
qed simp

lemma longest_zeroes_split:
  assumes "longest_zeroes gs = z"
  shows "gs = take (span_start z) gs @ replicate (span_len z) 0 @ drop (span_start z + span_len z) gs"
    and "span_start z + span_len z \<le> length gs"
proof -
  have "zero_run gs z"
    using zero_spans_run [of "[]" "\<lparr>span_start = 0, span_len = 0\<rparr>" "\<lparr>span_start = 0, span_len = 0\<rparr>" gs] assms
    by (simp add: longest_zeroes_def zero_run_def)
  then have run: "take (span_len z) (drop (span_start z) gs) = replicate (span_len z) 0"
    and le: "span_start z + span_len z \<le> length gs"
    by (simp_all add: zero_run_def)
  show "span_start z + span_len z \<le> length gs" by (rule le)
  have "take (span_start z) gs @ take (span_len z) (drop (span_start z) gs)
      @ drop (span_len z) (drop (span_start z) gs) = gs"
    by (simp only: append_take_drop_id)
  then show "gs = take (span_start z) gs @ replicate (span_len z) 0 @ drop (span_start z + span_len z) gs"
    unfolding run drop_drop by (simp only: add.commute)
qed

lemma pairs_drop: "drop n (pairs bs) = pairs (drop (2 * n) bs)"
proof (induction n arbitrary: bs)
  case (Suc n)
  then show ?case by (cases bs rule: pairs.cases) simp_all
qed simp

lemma read_ipv6_mapped:
  assumes "take 6 (segments a) = [0, 0, 0, 0, 0, 65535]"
  shows "read_ipv6_addr (''::ffff:'' @ show_ipv4 (from_be (drop 12 (to_be 16 a)))) = Some (segments a, [])"
proof -
  let ?v = "from_be (drop 12 (to_be 16 a)) :: u32"
  have v: "to_be 4 ?v = drop 12 (to_be 16 a)" by (rule to_be_from_be) simp_all
  have head: "read_groups 8 0 [] (''::ffff:'' @ show_ipv4 ?v) = ([], False, ''::ffff:'' @ show_ipv4 ?v)"
    by (subst read_groups.simps) (simp add: read_separator_def read_ipv4_stops)
  have num: "read_number 16 4 True 65536 (''ffff:'' @ show_ipv4 ?v) = Some (65535, '':'' @ show_ipv4 ?v)"
  proof -
    have "digit_char 15 = CHR ''f''" by code_simp
    then have "number_text 16 65535 = ''ffff''" by (simp add: number_text.simps)
    then show ?thesis using read_number_text [of 16 4 65535 65536 "'':'' @ show_ipv4 ?v" True] by simp
  qed
  have "read_ipv4_addr (''ffff:'' @ show_ipv4 ?v) = None"
    by (rule read_ipv4_stops) (simp add: digit_value_def Let_def)
  then have "read_groups 7 0 [] (''ffff:'' @ show_ipv4 ?v) = read_groups 7 1 [65535] ('':'' @ show_ipv4 ?v)"
    using num by (subst read_groups.simps) (simp add: read_separator_def)
  also have "\<dots> = ([65535] @ pairs (to_be 4 ?v), True, [])"
    using read_ipv4_show [of "[]" ?v] by (subst read_groups.simps) (simp add: read_separator_def)
  finally have tail: "read_groups 7 0 [] (''ffff:'' @ show_ipv4 ?v) = ([65535] @ pairs (to_be 4 ?v), True, [])" .
  have "segments a = [0, 0, 0, 0, 0, 65535] @ pairs (to_be 4 ?v)"
    using append_take_drop_id [of 6 "segments a"] assms by (simp add: v segments_def pairs_drop)
  moreover have "length (pairs (to_be 4 ?v)) = 2" and "replicate 5 (0 :: u16) = [0, 0, 0, 0, 0]"
    by (simp, simp add: numeral_eq_Suc)
  ultimately show ?thesis
    using head tail by (simp add: read_ipv6_addr_def)
qed

lemma parse_show_ipv6: "parse_ip (show_ip (V6 a)) = Some (V6 a)"
proof -
  let ?gs = "segments a" and ?z = "longest_zeroes (segments a)"
  consider (mapped) "take 6 ?gs = [0, 0, 0, 0, 0, 65535]"
    | (compressed) "take 6 ?gs \<noteq> [0, 0, 0, 0, 0, 65535]" "1 < span_len ?z"
    | (full) "take 6 ?gs \<noteq> [0, 0, 0, 0, 0, 65535]" "\<not> 1 < span_len ?z"
    by blast
  then have "read_ipv4_addr (show_ip (V6 a)) = None \<and> read_ipv6_addr (show_ip (V6 a)) = Some (?gs, [])"
  proof cases
    case mapped
    then show ?thesis using read_ipv6_mapped by (simp add: show_ipv6_def read_ipv4_stops)
  next
    case compressed
    let ?h = "take (span_start ?z) ?gs" and ?t = "drop (span_start ?z + span_len ?z) ?gs"
    note z = longest_zeroes_split [of ?gs ?z, OF refl]
    have "8 - length ?t - length ?h = span_len ?z" "length ?h + length ?t < 8"
      using z(2) compressed by auto
    with z(1) have "read_ipv6_addr (show_groups ?h @ ''::'' @ show_groups ?t) = Some (?gs, [])"
      using read_ipv6_compressed [of ?h ?t] by simp
    then show ?thesis
      using compressed by (simp add: show_ipv6_def Let_def read_ipv4_no_dot show_groups_no_dot)
  next
    case full
    then show ?thesis
      using read_ipv6_full [of ?gs] by (simp add: show_ipv6_def Let_def read_ipv4_no_dot show_groups_no_dot)
  qed
  then show ?thesis by (simp add: parse_ip_def)
qed

lemma parse_show_ip: "parse_ip (show_ip ip) = Some ip"
  using parse_show_ipv4 parse_show_ipv6 by (cases ip) simp_all

lemma show_ip_inj: "show_ip ip = show_ip ip' \<longleftrightarrow> ip = ip'"
  by (metis option.inject parse_show_ip)

lemma parse_ip_bracket: "parse_ip (CHR ''['' # s) = None"
proof -
  have "read_groups 8 0 [] (CHR ''['' # s) = ([], False, CHR ''['' # s)"
    by (subst read_groups.simps) (simp add: read_separator_def read_ipv4_stops)
  then show ?thesis
    by (simp add: parse_ip_def read_ipv4_stops read_ipv6_addr_def split: list.splits)
qed

end
