(* ===== verification/Speaker.thy ===== *)
theory Speaker
  imports Message_Handler Ip_Text
begin

text \<open>
  \<open>src/speaker/types.rs\<close>, \<open>src/speaker/connection.rs\<close>, \<open>src/config.rs\<close> and \<open>main\<close>: how a speaker
  is made from its configuration, started, and how it meets a connection.  The file system and the TOML
  parser are arguments: the parser gives the fields a file has, serde's defaults for the others are
  the program's.
\<close>

section \<open>Configuration\<close>

definition BGP_DEFAULT_PORT :: u16 where "BGP_DEFAULT_PORT = 179"
definition BGP_DEFAULT_HOLD_TIME :: u16 where "BGP_DEFAULT_HOLD_TIME = 3"
definition BGP_DEFAULT_LOCAL_IP :: string where "BGP_DEFAULT_LOCAL_IP = ''[::]:0''"

record config_neighbor =
  cn_asn :: u16
  cn_ip :: string
  cn_port :: u16
  cn_hold_time :: "u16 option"
  cn_families :: "address_family list option"
  cn_connect_retry :: "u16 option"
  cn_keepalive_interval :: "u16 option"
  cn_max_retry_count :: "u16 option"
  cn_exponential_backoff :: bool

record config =
  cf_asn :: u16
  cf_rid :: ipv4_addr
  cf_localips :: "ip_addr list option"
  cf_port :: "u16 option"
  cf_hold_time :: "u16 option"
  cf_families :: "address_family list option"
  cf_neighbors :: "config_neighbor list option"

text \<open>What the parser finds in the file: a field that is left out is \<open>None\<close>.\<close>

record toml_neighbor =
  tn_asn :: u16
  tn_ip :: string
  tn_port :: u16
  tn_hold_time :: "u16 option"
  tn_families :: "address_family list option"
  tn_connect_retry :: "u16 option"
  tn_keepalive_interval :: "u16 option"
  tn_max_retry_count :: "u16 option"
  tn_exponential_backoff :: "bool option"

record toml_config =
  tc_asn :: u16
  tc_rid :: ipv4_addr
  tc_localips :: "ip_addr list option"
  tc_port :: "u16 option"
  tc_hold_time :: "u16 option"
  tc_families :: "address_family list option"
  tc_neighbors :: "toml_neighbor list option"

definition default_connect_retry :: "u16 option" where "default_connect_retry = Some 120"
definition default_keepalive_interval :: "u16 option" where "default_keepalive_interval = Some 60"
definition default_max_retry_count :: "u16 option" where "default_max_retry_count = None"
definition default_exponential_backoff :: bool where "default_exponential_backoff = False"

definition option_or :: "'a option \<Rightarrow> 'a option \<Rightarrow> 'a option" where
  "option_or x y = (case x of None \<Rightarrow> y | Some _ \<Rightarrow> x)"

definition decode_neighbor :: "toml_neighbor \<Rightarrow> config_neighbor" where
  "decode_neighbor t = \<lparr>cn_asn = tn_asn t, cn_ip = tn_ip t, cn_port = tn_port t, cn_hold_time = tn_hold_time t,
     cn_families = tn_families t, cn_connect_retry = option_or (tn_connect_retry t) default_connect_retry,
     cn_keepalive_interval = option_or (tn_keepalive_interval t) default_keepalive_interval,
     cn_max_retry_count = option_or (tn_max_retry_count t) default_max_retry_count,
     cn_exponential_backoff = (case tn_exponential_backoff t of None \<Rightarrow> default_exponential_backoff | Some b \<Rightarrow> b)\<rparr>"

definition decode_config :: "toml_config \<Rightarrow> config" where
  "decode_config t = \<lparr>cf_asn = tc_asn t, cf_rid = tc_rid t, cf_localips = tc_localips t, cf_port = tc_port t,
     cf_hold_time = tc_hold_time t, cf_families = tc_families t,
     cf_neighbors = map_option (map decode_neighbor) (tc_neighbors t)\<rparr>"

definition read_config :: "config option \<Rightarrow> (string, config) outcome" where
  "read_config parsed =
     bind_outcome (ok_or ''Failed to parse config file'' parsed) (\<lambda>c.
     let c = c\<lparr>cf_hold_time := option_or (cf_hold_time c) (Some BGP_DEFAULT_HOLD_TIME)\<rparr>;
         c = c\<lparr>cf_port := option_or (cf_port c) (Some BGP_DEFAULT_PORT)\<rparr>;
         c = c\<lparr>cf_localips := option_or (cf_localips c)
                (map_option (\<lambda>ip. [ip]) (parse_ip BGP_DEFAULT_LOCAL_IP))\<rparr>;
         c = c\<lparr>cf_families := option_or (cf_families c) (Some [\<lparr>afi = Ipv4, safi = NLRIUnicast\<rparr>])\<rparr>
     in Ok c)"

section \<open>Making a speaker\<close>

definition speaker_new ::
    "u16 \<Rightarrow> u32 \<Rightarrow> u16 \<Rightarrow> ip_addr list \<Rightarrow> u16 \<Rightarrow> address_family list \<Rightarrow> ('n, 'm, 'p) speaker" where
  "speaker_new asn rid hold ips port fams =
     \<lparr>local_asn = asn, router_id = rid, sp_hold_time = hold, local_ips = ips, local_port = port,
      families = fams, sp_rib = Map.empty, sp_fib = Map.empty, sp_ribtx = Map.empty, neighbors = []\<rparr>"

definition add_neighbor ::
    "config_neighbor \<Rightarrow> (address_family \<rightharpoonup> chan) \<Rightarrow> ('n, 'm, 'p) speaker
      \<Rightarrow> (string, ('n, 'm, 'p) speaker) outcome" where
  "add_neighbor cn rtx sp =
     bind_outcome (expect ''Invalid neighbor IP address in configuration'' (parse_ip (cn_ip cn))) (\<lambda>ip.
     bind_outcome (expect ''Hold time not configured for neighbor'' (cn_hold_time cn)) (\<lambda>hold.
     bind_outcome (expect ''Connect retry time not configured for neighbor'' (cn_connect_retry cn)) (\<lambda>retry.
     Ok (sp\<lparr>neighbors := neighbors sp @ [neighbor_new None None (local_asn sp) (router_id sp) (Some ip)
           (Some (cn_port cn)) (Some (cn_asn cn)) hold retry Idle (cn_families cn) rtx
           (cn_max_retry_count cn) (cn_exponential_backoff cn)]\<rparr>))))"

fun add_neighbors ::
    "address_family list option \<Rightarrow> config_neighbor list \<Rightarrow> ('n, 'm, 'p) speaker
      \<Rightarrow> (string, ('n, 'm, 'p) speaker) outcome" where
  "add_neighbors fams [] sp = Ok sp"
| "add_neighbors fams (n # ns) sp =
     (let n = n\<lparr>cn_families := option_or (cn_families n) fams\<rparr>;
          n = n\<lparr>cn_hold_time := option_or (cn_hold_time n) (Some (sp_hold_time sp))\<rparr>
      in bind_outcome (add_neighbor n Map.empty sp) (add_neighbors fams ns))"

text \<open>\<open>main\<close> up to the start of the tasks.\<close>

definition main_setup ::
    "config option \<Rightarrow> (string, ('n, 'm, 'p) speaker) outcome" where
  "main_setup parsed =
     bind_outcome (map_err (\<lambda>_. ''Failed to read config file'') (read_config parsed)) (\<lambda>c.
     let fams = (case cf_families c of Some fs \<Rightarrow> fs | None \<Rightarrow> [])
     in bind_outcome (ok_or ''Hold time not configured'' (cf_hold_time c)) (\<lambda>hold.
        bind_outcome (ok_or ''Local IPs not configured'' (cf_localips c)) (\<lambda>ips.
        bind_outcome (ok_or ''Port not configured'' (cf_port c)) (\<lambda>port.
        let sp = speaker_new (cf_asn c) (cf_rid c) hold ips port fams
        in case cf_neighbors c of
             None \<Rightarrow> Ok sp
           | Some ns \<Rightarrow> add_neighbors (cf_families c) ns sp))))"

section \<open>Starting\<close>

text \<open>The tasks that are spawned, in order.\<close>

datatype spawned =
    Run_Rib_Mgr address_family
  | Run_Fib_Mgr address_family
  | Run_Connect_Mgr
  | Run_Listen

text \<open>One family of \<open>start\<close>: its RIB, its channel (a fresh number) and its FIB, and its two managers.  A panic
  leaves the speaker as it is then, and the managers of the families before it running.\<close>

definition start_family ::
    "('m, 'a, 'p) netlink \<Rightarrow> 'n ipnet_ops \<Rightarrow> chan \<Rightarrow> address_family \<Rightarrow> ('n, 'm, 'p) speaker
      \<Rightarrow> ('n, 'm, 'p) speaker \<times> spawned list \<times> (string, unit) outcome" where
  "start_family N L ch fam sp =
     (case fib_new N L fam of
        Ok fib \<Rightarrow>
          (sp\<lparr>sp_rib := (sp_rib sp)(fam \<mapsto> Map.empty), sp_ribtx := (sp_ribtx sp)(fam \<mapsto> ch),
              sp_fib := (sp_fib sp)(fam \<mapsto> fib)\<rparr>, [Run_Rib_Mgr fam, Run_Fib_Mgr fam], Ok ())
      | Err e \<Rightarrow> (sp, [], Err e)
      | Panic p \<Rightarrow> (sp, [], Panic p))"

fun start_families ::
    "('m, 'a, 'p) netlink \<Rightarrow> 'n ipnet_ops \<Rightarrow> chan \<Rightarrow> address_family list \<Rightarrow> ('n, 'm, 'p) speaker
      \<Rightarrow> ('n, 'm, 'p) speaker \<times> spawned list \<times> (string, unit) outcome" where
  "start_families N L ch [] sp = (sp, [], Ok ())"
| "start_families N L ch (fam # fams) sp =
     (case start_family N L ch fam sp of
        (sp, ts, Ok _) \<Rightarrow>
          (let (sp, more, r) = start_families N L (Suc ch) fams sp in (sp, ts @ more, r))
      | (sp, ts, r) \<Rightarrow> (sp, ts, r))"

text \<open>The connections come last, when every family is set up.\<close>

definition start :: "('m, 'a, 'p) netlink \<Rightarrow> 'n ipnet_ops \<Rightarrow> ('n, 'm, 'p) speaker
    \<Rightarrow> ('n, 'm, 'p) speaker \<times> spawned list \<times> (string, unit) outcome" where
  "start N L sp =
     (case start_families N L 0 (families sp) sp of
        (sp, ts, Ok _) \<Rightarrow> (sp, ts @ [Run_Connect_Mgr, Run_Listen], Ok ())
      | (sp, ts, r) \<Rightarrow> (sp, ts, r))"

text \<open>\<open>main\<close>: what it passes to its two tasks, and what becomes of the one that starts the speaker, which nobody
  waits for; the other is the gRPC server.  \<open>file\<close> opens and reads a file, \<open>arg\<close> is the option \<open>--config\<close>.\<close>

definition program ::
    "(string \<Rightarrow> (string, string) outcome) \<Rightarrow> (string \<Rightarrow> toml_config option) \<Rightarrow> ('m, 'a, 'p) netlink \<Rightarrow> 'n ipnet_ops
      \<Rightarrow> string option
      \<Rightarrow> (string, ('n, 'm, 'p) speaker \<times> ('n, 'm, 'p) speaker \<times> spawned list \<times> (string, unit) outcome) outcome" where
  "program file toml N L arg =
     (let path = (case arg of None \<Rightarrow> ''ubgpd.conf'' | Some p \<Rightarrow> p)
      in bind_outcome (map_err (\<lambda>_. ''Failed to read config file'') (file path)) (\<lambda>doc.
         bind_outcome (main_setup (map_option decode_config (toml doc))) (\<lambda>sp. Ok (sp, start N L sp))))"

section \<open>Connections\<close>

definition upd_neighbor :: "nat \<Rightarrow> 'n neighbor \<Rightarrow> ('n, 'm, 'p) speaker \<Rightarrow> ('n, 'm, 'p) speaker" where
  "upd_neighbor i nb sp = sp\<lparr>neighbors := (neighbors sp)[i := nb]\<rparr>"

text \<open>The neighbor an incoming connection belongs to: the first one with its address whose lock is
  free (\<open>try_lock\<close>).\<close>

definition match_incoming :: "(nat \<Rightarrow> bool) \<Rightarrow> ip_addr \<Rightarrow> ('n, 'm, 'p) speaker \<Rightarrow> nat option" where
  "match_incoming free ip sp =
     find (\<lambda>i. free i \<and> remote_ip (neighbors sp ! i) = Some ip) [0..<length (neighbors sp)]"

definition should_accept :: "bgp_state \<Rightarrow> bool" where
  "should_accept st = (case st of Idle \<Rightarrow> True | Active \<Rightarrow> True | Connect \<Rightarrow> True
     | OpenSent \<Rightarrow> False | OpenConfirm \<Rightarrow> False | Established \<Rightarrow> False)"

text \<open>The speaker afterwards and the neighbor a session is started for, if any; \<open>local_addr\<close> is what the
  accepted socket says of its own address.\<close>

definition add_incoming ::
    "(nat \<Rightarrow> bool) \<Rightarrow> ip_addr \<Rightarrow> (ip_addr \<times> u16) option \<Rightarrow> ('n, 'm, 'p) speaker
      \<Rightarrow> ('n, 'm, 'p) speaker \<times> (string, nat option) outcome" where
  "add_incoming free ip local_addr sp =
     (case match_incoming free ip sp of
        None \<Rightarrow> (sp, Ok None)
      | Some i \<Rightarrow>
          (let nb = neighbors sp ! i
           in if should_accept (nb_state nb)
              then (case local_addr of
                  None \<Rightarrow> (sp, Panic (ExpectFailed ''BUG: Socket should have a local address after accept''))
                | Some (lip, lport) \<Rightarrow>
                    (upd_neighbor i (set_state Active nb\<lparr>nb_local_ip := Some lip, nb_local_port := Some lport\<rparr>) sp,
                     Ok (Some i)))
              else (sp, Ok None)))"

text \<open>\<open>listen\<close>: the address it binds to, made of the first local address, and its loop.  What the loop meets is
  a list: a connection (with the mutexes that are free, the peer's address and the one it came in on), an error of
  \<open>accept\<close>, which ends it, or other tasks that leave the speaker as given.  The numbers are the
  neighbors a session is started for; the result is \<open>None\<close> while the loop goes on.  A panic of \<open>add_incoming\<close>,
  which the loop waits for, is one of the loop.\<close>

definition listen_address :: "('n, 'm, 'p) speaker \<Rightarrow> ('e, string) outcome" where
  "listen_address sp =
     bind_outcome (index (local_ips sp) 0) (\<lambda>ip. Ok (show_ip ip @ '':'' @ dec (unat (local_port sp))))"

datatype ('n, 'm, 'p) accept_turn =
    Accepted "nat \<Rightarrow> bool" ip_addr "(ip_addr \<times> u16) option"
  | Accept_Failed
  | Meanwhile "('n, 'm, 'p) speaker"

fun listen_loop :: "('n, 'm, 'p) accept_turn list \<Rightarrow> ('n, 'm, 'p) speaker
    \<Rightarrow> ('n, 'm, 'p) speaker \<times> nat list \<times> (string, unit) outcome option" where
  "listen_loop [] sp = (sp, [], None)"
| "listen_loop (Accepted free ip local_addr # ts) sp =
     (case add_incoming free ip local_addr sp of
        (sp, Ok started) \<Rightarrow>
          (let (sp, more, r) = listen_loop ts sp
           in (sp, (case started of None \<Rightarrow> more | Some i \<Rightarrow> i # more), r))
      | (sp, Err e) \<Rightarrow> (sp, [], Some (Err e))
      | (sp, Panic p) \<Rightarrow> (sp, [], Some (Panic p)))"
| "listen_loop (Accept_Failed # ts) sp = (sp, [], Some (Err ''Failed to accept BGP connection''))"
| "listen_loop (Meanwhile sp' # ts) sp = listen_loop ts sp'"

definition listen :: "(string \<Rightarrow> bool) \<Rightarrow> ('n, 'm, 'p) accept_turn list \<Rightarrow> ('n, 'm, 'p) speaker
    \<Rightarrow> (string, ('n, 'm, 'p) speaker \<times> nat list \<times> (string, unit) outcome option) outcome" where
  "listen binds ts sp =
     bind_outcome (listen_address sp) (\<lambda>socket_addr.
       if binds socket_addr then Ok (listen_loop ts sp) else Err (''Failed to bind BGP listener to '' @ socket_addr))"

text \<open>The neighbors \<open>connect_mgr\<close> starts a connection attempt for: each of them, once.\<close>

definition connect_mgr :: "('n, 'm, 'p) speaker \<Rightarrow> nat list" where
  "connect_mgr sp = [0..<length (neighbors sp)]"

definition local_info_of :: "('n, 'm, 'p) speaker \<Rightarrow> local_info" where
  "local_info_of sp = \<lparr>li_asn = local_asn sp, li_router_id = router_id sp, li_hold_time = sp_hold_time sp\<rparr>"

section \<open>The RIB manager of a family\<close>

text \<open>\<open>process_rib_event\<close>: the speaker with the new RIB, whether the FIB manager is woken, and the
  established neighbors with a channel, each of which gets the changes.  \<open>fib_alive\<close> tells whether
  the FIB manager still takes events.\<close>

definition process_rib_event ::
    "'n ipnet_ops \<Rightarrow> ('n rib \<Rightarrow> 'n nlri list) \<Rightarrow> bool \<Rightarrow> address_family \<Rightarrow> 'n rib_event \<Rightarrow> 'n rib \<Rightarrow> ('n, 'm, 'p) fib
      \<Rightarrow> ('n, 'm, 'p) speaker \<Rightarrow> ('n, 'm, 'p) speaker \<times> fib_event list \<times> 'n action list \<times> (string, unit) outcome" where
  "process_rib_event L order fib_alive fam e rib fib sp =
     (let (rib', md) = rib_event_step L fib (local_asn sp) order e rib;
          sp' = sp\<lparr>sp_rib := (sp_rib sp)(fam \<mapsto> rib')\<rparr>
      in if md = [] then (sp', [], [], Ok ())
         else if \<not> fib_alive then (sp', [], [], Err ''Failed to send FIB update event'')
         else (sp', [RibUpdated],
           concat (map (\<lambda>n. if is_established n
             then (case tx n of Some t \<Rightarrow> [Send_Event t (RibUpdate md)] | None \<Rightarrow> []) else []) (neighbors sp)),
           Ok ()))"

section \<open>The listener\<close>

lemma panics_listen: "panics (listen binds ts sp) \<longleftrightarrow> local_ips sp = []"
  by (cases "local_ips sp") (auto simp: listen_def listen_address_def index_def)

text \<open>One connection that could not be accepted is the end of the listener.\<close>

lemma listen_loop_stops: "listen_loop (xs @ Accept_Failed # ys) sp = listen_loop (xs @ [Accept_Failed]) sp"
  by (induction xs sp rule: listen_loop.induct) (simp_all split: prod.split outcome.split)

section \<open>The tasks of \<open>start\<close>\<close>

lemma fib_new_result:
  "(fib_new N L fam :: ('e, ('n, 'm, 'p) fib) outcome) =
    (if nl_connected N then Ok \<lparr>fib_af = fam, fib_routes = List.map_filter (from_rtnl N L) (nl_dump N (afi fam))\<rparr>
     else Panic UnwrapErr)"
  by (simp add: fib_new_def refresh_def get_routes_def)

text \<open>The set-up of the families only fails when netlink cannot be reached, and then at the first family.\<close>

lemma start_families_result:
  fixes sp :: "('n, 'm, 'p) speaker"
  assumes "start_families N L ch fams sp = (sp', ts, r)"
  shows "r = (if nl_connected N \<or> fams = [] then Ok () else Panic UnwrapErr)"
    and "ts = (if nl_connected N then concat (map (\<lambda>fam. [Run_Rib_Mgr fam, Run_Fib_Mgr fam]) fams) else [])"
    and "neighbors sp' = neighbors sp" and "local_ips sp' = local_ips sp" and "local_port sp' = local_port sp"
    and "\<And>fam. sp_rib sp' fam = (if nl_connected N \<and> fam \<in> set fams then Some Map.empty else sp_rib sp fam)"
    and "local_asn sp' = local_asn sp" and "router_id sp' = router_id sp"
proof -
  have "r = (if nl_connected N \<or> fams = [] then Ok () else Panic UnwrapErr)
    \<and> ts = (if nl_connected N then concat (map (\<lambda>fam. [Run_Rib_Mgr fam, Run_Fib_Mgr fam]) fams) else [])
    \<and> neighbors sp' = neighbors sp \<and> local_ips sp' = local_ips sp \<and> local_port sp' = local_port sp
    \<and> (\<forall>fam. sp_rib sp' fam = (if nl_connected N \<and> fam \<in> set fams then Some Map.empty else sp_rib sp fam))
    \<and> local_asn sp' = local_asn sp \<and> router_id sp' = router_id sp"
    using assms
  proof (induction fams arbitrary: ch sp ts)
    case (Cons fam fams)
    show ?case
    proof (cases "nl_connected N")
      case True
      define sp1 where "sp1 = fst (start_family N L ch fam sp)"
      have one: "start_family N L ch fam sp = (sp1, [Run_Rib_Mgr fam, Run_Fib_Mgr fam], Ok ())"
        "neighbors sp1 = neighbors sp" "local_ips sp1 = local_ips sp" "local_port sp1 = local_port sp"
        "local_asn sp1 = local_asn sp" "router_id sp1 = router_id sp"
        "sp_rib sp1 = (sp_rib sp)(fam \<mapsto> Map.empty)"
        using True by (simp_all add: sp1_def start_family_def fib_new_result)
      obtain ts1 where "start_families N L (Suc ch) fams sp1 = (sp', ts1, r)" "ts = [Run_Rib_Mgr fam, Run_Fib_Mgr fam] @ ts1"
        using Cons.prems one(1) by (auto split: prod.splits)
      with Cons.IH [OF this(1)] one True show ?thesis by simp
    next
      case False
      with Cons.prems show ?thesis by (auto simp: start_family_def fib_new_result)
    qed
  qed simp
  then show "r = (if nl_connected N \<or> fams = [] then Ok () else Panic UnwrapErr)"
    "ts = (if nl_connected N then concat (map (\<lambda>fam. [Run_Rib_Mgr fam, Run_Fib_Mgr fam]) fams) else [])"
    "neighbors sp' = neighbors sp" "local_ips sp' = local_ips sp" "local_port sp' = local_port sp"
    "\<And>fam. sp_rib sp' fam = (if nl_connected N \<and> fam \<in> set fams then Some Map.empty else sp_rib sp fam)"
    "local_asn sp' = local_asn sp" "router_id sp' = router_id sp" by blast+
qed

lemma start_result:
  fixes sp :: "('n, 'm, 'p) speaker"
  assumes "start N L sp = (sp', ts, r)"
  shows "r = (if nl_connected N \<or> families sp = [] then Ok () else Panic UnwrapErr)"
    and "ts = (if nl_connected N then concat (map (\<lambda>fam. [Run_Rib_Mgr fam, Run_Fib_Mgr fam]) (families sp)) else [])
      @ (if nl_connected N \<or> families sp = [] then [Run_Connect_Mgr, Run_Listen] else [])"
    and "neighbors sp' = neighbors sp" and "local_ips sp' = local_ips sp" and "local_port sp' = local_port sp"
    and "\<And>fam. sp_rib sp' fam = (if nl_connected N \<and> fam \<in> set (families sp) then Some Map.empty else sp_rib sp fam)"
    and "local_asn sp' = local_asn sp" and "router_id sp' = router_id sp"
proof -
  obtain sp1 ts1 r1 where fams: "start_families N L 0 (families sp) sp = (sp1, ts1, r1)"
    by (cases "start_families N L 0 (families sp) sp") auto
  note first = start_families_result [OF fams]
  have "start N L sp = (sp1, ts1 @ (case r1 of Ok _ \<Rightarrow> [Run_Connect_Mgr, Run_Listen] | _ \<Rightarrow> []), r1)"
    by (cases r1) (simp_all add: start_def fams)
  with assms have eqs: "sp' = sp1" "ts = ts1 @ (case r1 of Ok _ \<Rightarrow> [Run_Connect_Mgr, Run_Listen] | _ \<Rightarrow> [])" "r = r1"
    by auto
  show "r = (if nl_connected N \<or> families sp = [] then Ok () else Panic UnwrapErr)"
    unfolding eqs by (rule first(1))
  show "ts = (if nl_connected N then concat (map (\<lambda>fam. [Run_Rib_Mgr fam, Run_Fib_Mgr fam]) (families sp)) else [])
      @ (if nl_connected N \<or> families sp = [] then [Run_Connect_Mgr, Run_Listen] else [])"
    unfolding eqs first(1,2) by simp
  show "neighbors sp' = neighbors sp" "local_ips sp' = local_ips sp" "local_port sp' = local_port sp"
    "\<And>fam. sp_rib sp' fam = (if nl_connected N \<and> fam \<in> set (families sp) then Some Map.empty else sp_rib sp fam)"
    "local_asn sp' = local_asn sp" "router_id sp' = router_id sp"
    unfolding eqs by (rule first)+
qed

section \<open>The neighbors of a configuration\<close>

definition unusable :: "config_neighbor \<Rightarrow> bool" where
  "unusable n \<longleftrightarrow> parse_ip (cn_ip n) = None \<or> cn_connect_retry n = None"

definition configured :: "('n, 'm, 'p) speaker \<Rightarrow> address_family list option \<Rightarrow> config_neighbor \<Rightarrow> 'n neighbor" where
  "configured sp fams n =
     neighbor_new None None (local_asn sp) (router_id sp) (parse_ip (cn_ip n)) (Some (cn_port n)) (Some (cn_asn n))
       (case cn_hold_time n of Some h \<Rightarrow> h | None \<Rightarrow> sp_hold_time sp)
       (case cn_connect_retry n of Some r \<Rightarrow> r | None \<Rightarrow> 0)
       Idle (option_or (cn_families n) fams) Map.empty (cn_max_retry_count n) (cn_exponential_backoff n)"

lemma add_neighbor_result:
  fixes sp :: "('n, 'm, 'p) speaker" and n :: config_neighbor and fams :: "address_family list option"
  defines "n' \<equiv> n\<lparr>cn_families := option_or (cn_families n) fams,
      cn_hold_time := option_or (cn_hold_time n) (Some (sp_hold_time sp))\<rparr>"
  shows "unusable n \<Longrightarrow> panics (add_neighbor n' Map.empty sp)"
    and "\<not> unusable n \<Longrightarrow> add_neighbor n' Map.empty sp =
      Ok (sp\<lparr>neighbors := neighbors sp @ [configured sp fams n]\<rparr>)"
  by (auto simp: add_neighbor_def n'_def unusable_def configured_def option_or_def expect_def split: option.splits)

lemma add_neighbors_result:
  "(\<exists>n \<in> set ns. unusable n) \<Longrightarrow> panics (add_neighbors fams ns sp)"
  "\<not> (\<exists>n \<in> set ns. unusable n) \<Longrightarrow> add_neighbors fams ns sp =
    Ok (sp\<lparr>neighbors := neighbors sp @ map (configured sp fams) ns\<rparr>)"
proof (induction ns arbitrary: sp)
  case (Cons n ns)
  { case 1
    then show ?case
      using add_neighbor_result [where n = n and fams = fams and sp = sp] Cons.IH(1)
      by (cases "unusable n") (auto simp: panics_bind)
  next
    case 2
    moreover have "configured (sp\<lparr>neighbors := nbs\<rparr>) fams = configured sp fams" for nbs
      by (simp add: configured_def fun_eq_iff split: option.splits)
    ultimately show ?case
      using add_neighbor_result(2) [where n = n and fams = fams and sp = sp] Cons.IH(2) by simp
  }
qed simp_all

lemma main_setup_neighbors:
  assumes "cf_localips c = Some ips"
  shows "\<exists>(sp0 :: ('n, 'm, 'p) speaker) fams. neighbors sp0 = [] \<and> local_asn sp0 = cf_asn c \<and> router_id sp0 = cf_rid c
    \<and> local_ips sp0 = ips \<and> sp_rib sp0 = Map.empty
    \<and> families sp0 = (case cf_families c of None \<Rightarrow> [\<lparr>afi = Ipv4, safi = NLRIUnicast\<rparr>] | Some fs \<Rightarrow> fs)
    \<and> main_setup (Some c) = add_neighbors fams (case cf_neighbors c of None \<Rightarrow> [] | Some ns \<Rightarrow> ns) sp0"
proof -
  have "\<exists>z. option_or x (Some y) = Some z" for x and y :: 'x
    by (cases x) (simp_all add: option_or_def)
  then obtain hold port where hp: "option_or (cf_hold_time c) (Some BGP_DEFAULT_HOLD_TIME) = Some hold"
    "option_or (cf_port c) (Some BGP_DEFAULT_PORT) = Some port"
    by meson
  have ips: "option_or (Some ips) x = Some ips" for x by (simp add: option_or_def)
  obtain c' where read: "read_config (Some c) = Ok c'"
    by (simp add: read_config_def Let_def)
  have c': "read_config (Some c) = Ok c'" "cf_hold_time c' = Some hold" "cf_port c' = Some port"
    "cf_localips c' = Some ips" "cf_asn c' = cf_asn c" "cf_rid c' = cf_rid c" "cf_neighbors c' = cf_neighbors c"
    "cf_families c' = option_or (cf_families c) (Some [\<lparr>afi = Ipv4, safi = NLRIUnicast\<rparr>])"
    using assms read by (auto simp: read_config_def Let_def hp ips)
  define sp0 :: "('n, 'm, 'p) speaker" where "sp0 = speaker_new (cf_asn c) (cf_rid c) hold ips port
    (case cf_families c' of Some fs \<Rightarrow> fs | None \<Rightarrow> [])"
  have "main_setup (Some c) = add_neighbors (cf_families c') (case cf_neighbors c of None \<Rightarrow> [] | Some ns \<Rightarrow> ns) sp0"
    using c' by (simp add: main_setup_def sp0_def Let_def split: option.splits)
  then show ?thesis
    by (intro exI [of _ sp0] exI [of _ "cf_families c'"]) (simp add: sp0_def speaker_new_def c'(8) option_or_def split: option.split)
qed

lemma main_setup_no_localips:
  assumes "\<And>c'. read_config (Some c) = Ok c' \<Longrightarrow> cf_localips c' = None"
  shows "main_setup (Some c) = Err ''Local IPs not configured''"
proof -
  obtain c' where c': "read_config (Some c) = Ok c'" and "cf_hold_time c' \<noteq> None"
    by (simp add: read_config_def Let_def option_or_def split: option.split)
  with assms [OF c'] show ?thesis
    by (auto simp: main_setup_def Let_def)
qed

text \<open>The defaults of serde leave only the address of a neighbor to fail.\<close>

lemma unusable_decoded: "unusable (decode_neighbor t) \<longleftrightarrow> parse_ip (tn_ip t) = None"
  by (auto simp: unusable_def decode_neighbor_def option_or_def default_connect_retry_def split: option.splits)

lemma decode_config_simps [simp]:
  "cf_localips (decode_config t) = tc_localips t" "cf_asn (decode_config t) = tc_asn t" "cf_rid (decode_config t) = tc_rid t"
  "cf_families (decode_config t) = tc_families t" "cf_neighbors (decode_config t) = map_option (map decode_neighbor) (tc_neighbors t)"
  "cn_ip (decode_neighbor n) = tn_ip n" "cn_asn (decode_neighbor n) = tn_asn n" "cn_port (decode_neighbor n) = tn_port n"
  by (simp_all add: decode_config_def decode_neighbor_def)

end
