(* ===== verification/System.thy ===== *)
theory System
  imports Speaker
begin

text \<open>
  The speaker as a whole: the steps its tasks take, one handler at a time, in any order, and what
  holds in every state they reach from a configured speaker.
\<close>

section \<open>Steps\<close>

text \<open>
  A step is one run of one of the program's handlers between two waits: the end of a connection
  attempt, an incoming connection, the start or the end of a session task, an event or a message of
  a session, a second of its keepalive timer, an event of a RIB manager, a refresh of a FIB.  Which
  of them happens, on which neighbor and with which data is up to the environment.  A handler that
  fails or panics leaves the neighbor as it had it then; the session task then ends in a step of its
  own, or, after a panic, does not.
\<close>

inductive sys_step :: "'n ipnet_ops \<Rightarrow> build \<Rightarrow> ('n, 'm, 'p) speaker \<Rightarrow> ('n, 'm, 'p) speaker \<Rightarrow> bool"
  for L :: "'n ipnet_ops" and b :: build
where
  step_connect: "i < length (neighbors sp) \<Longrightarrow> connect (sp_ribtx sp) socket (neighbors sp ! i) = (nb, r) \<Longrightarrow>
    sys_step L b sp (upd_neighbor i nb sp)"
| step_incoming: "add_incoming free ip local_addr sp = (sp', r) \<Longrightarrow> sys_step L b sp sp'"
| step_start: "i < length (neighbors sp) \<Longrightarrow>
    session_start L order (local_info_of sp) ch (neighbors sp ! i) c = (nb, r) \<Longrightarrow>
    sys_step L b sp (upd_neighbor i nb sp)"
| step_event: "i < length (neighbors sp) \<Longrightarrow>
    process_event L order (local_info_of sp) e (neighbors sp ! i) c = Ok (nb, c') \<Longrightarrow>
    sys_step L b sp (upd_neighbor i nb sp)"
| step_unconnected: "i < length (neighbors sp) \<Longrightarrow>
    sys_step L b sp (upd_neighbor i (process_event_unconnected e (neighbors sp ! i)) sp)"
| step_message: "i < length (neighbors sp) \<Longrightarrow> message_from_bytes b L f = Ok m \<Longrightarrow>
    process_message alive (order :: 'n rib \<Rightarrow> 'n nlri list) m sp now (neighbors sp ! i) = (nb, acts, r) \<Longrightarrow>
    sys_step L b sp (upd_neighbor i nb sp)"
| step_end: "i < length (neighbors sp) \<Longrightarrow> sys_step L b sp (upd_neighbor i (session_end (neighbors sp ! i)) sp)"
| step_tick: "i < length (neighbors sp) \<Longrightarrow>
    sys_step L b sp (upd_neighbor i (fst (timer_keepalive_round (neighbors sp ! i))) sp)"
| step_rib: "sp_rib sp fam = Some rib \<Longrightarrow> sp_fib sp fam = Some fib \<Longrightarrow>
    process_rib_event L order alive fam e rib fib sp = (sp', fevs, acts, r) \<Longrightarrow> sys_step L b sp sp'"
| step_fib: "sp_fib sp fam = Some fib \<Longrightarrow> fib_af fib' = fib_af fib \<Longrightarrow>
    sys_step L b sp (sp\<lparr>sp_fib := (sp_fib sp)(fam \<mapsto> fib')\<rparr>)"

text \<open>The states a configured speaker reaches from its start, whether or not all of that succeeded.\<close>

inductive reachable ::
    "'n ipnet_ops \<Rightarrow> build \<Rightarrow> ('m, 'a, 'p) netlink \<Rightarrow> config option
      \<Rightarrow> ('n, 'm, 'p) speaker \<Rightarrow> bool"
  for L b N cfg
where
  reach_init: "main_setup cfg = Ok sp \<Longrightarrow> start N L sp = (sp', ts, r) \<Longrightarrow> reachable L b N cfg sp'"
| reach_step: "reachable L b N cfg sp \<Longrightarrow> sys_step L b sp sp' \<Longrightarrow> reachable L b N cfg sp'"

section \<open>What the handlers do to a neighbor\<close>

text \<open>The transitions of a session.\<close>

definition transition :: "bgp_state \<Rightarrow> bgp_state \<Rightarrow> bool" where
  "transition s t \<longleftrightarrow> s = t \<or> t = Idle \<or> t = Connect
     \<or> (t = Active \<and> s \<in> {Idle, Connect, Active})
     \<or> (t = OpenSent \<and> s \<in> {Active, Connect})
     \<or> (t = OpenConfirm \<and> s \<in> {Active, OpenSent})
     \<or> (t = Established \<and> s = OpenConfirm)"

text \<open>What a neighbor has to know once it has seen the OPEN of its peer, and what it is configured
  with.\<close>

definition neighbor_ok :: "'n neighbor \<Rightarrow> bool" where
  "neighbor_ok nb \<longleftrightarrow> remote_ip nb \<noteq> None \<and> remote_asn nb \<noteq> None
     \<and> multiprotocol (capabilities_advertised nb) \<noteq> None
     \<and> (nb_state nb \<in> {OpenConfirm, Established} \<longrightarrow> remote_rid nb \<noteq> None)"

text \<open>What no handler changes.\<close>

definition same_config :: "'n neighbor \<Rightarrow> 'n neighbor \<Rightarrow> bool" where
  "same_config nb nb' \<longleftrightarrow> remote_ip nb' = remote_ip nb \<and> remote_port nb' = remote_port nb
     \<and> nb_local_asn nb' = nb_local_asn nb \<and> nb_local_rid nb' = nb_local_rid nb
     \<and> capabilities_advertised nb' = capabilities_advertised nb
     \<and> (\<forall>asn. remote_asn nb = Some asn \<longrightarrow> remote_asn nb' = Some asn)"

text \<open>One handler's work on its neighbor.\<close>

definition good_step :: "'n neighbor \<Rightarrow> 'n neighbor \<Rightarrow> bool" where
  "good_step nb nb' \<longleftrightarrow> transition (nb_state nb) (nb_state nb') \<and> same_config nb nb'
     \<and> (nb_state nb' \<noteq> Idle \<and> remote_rid nb \<noteq> None \<longrightarrow> remote_rid nb' \<noteq> None)
     \<and> (nb_state nb \<noteq> OpenConfirm \<and> nb_state nb' = OpenConfirm \<longrightarrow> remote_rid nb' \<noteq> None)"

named_theorems good_steps "every handler is a good step"

lemma good_step_refl [good_steps, simp]: "good_step nb nb"
  by (auto simp: good_step_def transition_def same_config_def)

lemma good_step_ok: "good_step nb nb' \<Longrightarrow> neighbor_ok nb \<Longrightarrow> neighbor_ok nb'"
proof -
  assume step: "good_step nb nb'" and ok: "neighbor_ok nb"
  have "remote_rid nb' \<noteq> None" if "nb_state nb' \<in> {OpenConfirm, Established}"
  proof (cases "nb_state nb \<in> {OpenConfirm, Established}")
    case True
    then show ?thesis using step ok that by (auto simp: good_step_def neighbor_ok_def)
  next
    case False
    then have "nb_state nb' = OpenConfirm"
      using step that by (auto simp: good_step_def transition_def)
    then show ?thesis using step False by (simp add: good_step_def)
  qed
  moreover have "remote_asn nb' \<noteq> None"
    using step ok by (auto simp: good_step_def neighbor_ok_def same_config_def)
  ultimately show ?thesis
    using step ok by (simp add: good_step_def neighbor_ok_def same_config_def)
qed

lemma good_step_set_state [good_steps]:
  "transition (nb_state nb) s \<Longrightarrow> s \<noteq> OpenConfirm \<Longrightarrow> good_step nb (set_state s nb)"
  by (auto simp: good_step_def same_config_def set_state_def)

lemma good_step_connect_parts:
  "good_step nb (connect_prepare rtx nb)" "good_step nb (connect_failed (connect_prepare rtx nb))"
  "good_step nb (connect_succeeded ip port (connect_prepare rtx nb))" "good_step nb (set_state Connect (connect_prepare rtx nb))"
  by (simp_all add: good_step_def transition_def same_config_def connect_prepare_def connect_failed_def
      connect_succeeded_def set_state_def)

lemma good_step_connect [good_steps]:
  assumes "connect rtx socket nb = (nb', r)"
  shows "good_step nb nb'"
proof -
  have "nb' = connect_prepare rtx nb \<or> nb' = connect_failed (connect_prepare rtx nb)
      \<or> nb' = set_state Connect (connect_prepare rtx nb) \<or> (\<exists>ip port. nb' = connect_succeeded ip port (connect_prepare rtx nb))"
    using assms unfolding connect_def Let_def by (simp split: if_splits connection.splits option.splits prod.splits) blast+
  then show ?thesis using good_step_connect_parts by blast
qed

lemma event_connect_result:
  "process_event_connect L s e nb c = Ok (nb', c') \<Longrightarrow> nb' \<in> {nb, set_state OpenSent nb, init_peer nb}"
  by (cases e) (auto simp: process_event_connect_def bind_eq_Ok)

lemma event_active_result:
  "process_event_active L s e nb c = Ok (nb', c') \<Longrightarrow> nb' \<in> {nb, set_state OpenSent nb}"
  by (cases e) (auto simp: process_event_active_def bind_eq_Ok)

lemma event_openconfirm_result: "process_event_openconfirm L s e nb c = Ok (nb', c') \<Longrightarrow> nb' = nb"
  by (cases e) (auto simp: process_event_openconfirm_def bind_eq_Ok)

lemma event_established_result: "process_event_established L order e nb c = Ok (nb', c') \<Longrightarrow> nb' = nb"
  by (cases e) (auto simp: process_event_established_def bind_eq_Ok split: outcome.splits)

lemma event_opensent_result: "process_event_opensent e nb c = Ok (nb', c') \<Longrightarrow> nb' = nb"
  by (simp add: process_event_opensent_def)

lemma init_peer_good: "nb_state nb \<in> {Idle, Connect} \<Longrightarrow> good_step nb (init_peer nb)"
  by (auto simp: init_peer_def good_step_def transition_def same_config_def)

lemma good_step_event [good_steps]:
  "process_event L order s e nb c = Ok (nb', c') \<Longrightarrow> good_step nb nb'"
  by (cases "nb_state nb")
    (auto simp: process_event_def init_peer_good transition_def intro!: good_step_set_state
      dest!: event_connect_result event_active_result event_openconfirm_result
        event_established_result event_opensent_result)

lemma good_step_start [good_steps]: "session_start L order s ch nb c = (nb', r) \<Longrightarrow> good_step nb nb'"
proof -
  assume start: "session_start L order s ch nb c = (nb', r)"
  let ?nb = "nb\<lparr>tx := Some ch\<rparr>"
  have tx: "good_step nb ?nb"
    by (auto simp: good_step_def transition_def same_config_def)
  have "good_step nb nb'" if "process_event L order s e ?nb c = Ok (nb', c')" for e c'
    using good_step_event [OF that] by (auto simp: good_step_def same_config_def)
  with start tx show ?thesis
    by (auto simp: session_start_def Let_def split: outcome.splits bgp_state.splits prod.splits)
qed

lemma good_step_end [good_steps]: "good_step nb (session_end nb)"
  by (auto simp: session_end_def good_step_def transition_def same_config_def set_state_def)

lemma good_step_unconnected [good_steps]: "good_step nb (process_event_unconnected e nb)"
  by (cases e) (auto simp: process_event_unconnected_def process_event_idle_def init_peer_def good_step_def
      transition_def same_config_def)

lemma good_step_tick [good_steps]: "good_step nb (fst (timer_keepalive_round nb))"
  by (auto simp: timer_keepalive_round_def Let_def good_step_def transition_def same_config_def)

lemma good_step_open:
  assumes "handle_open alive active m sp nb = (nb', acts, r)" and "nb_state nb \<in> {Active, OpenSent}"
  shows "good_step nb nb'"
proof -
  have "good_step nb nb'" if "validate_open m nb" and "update_from_open m nb = (nb', q)" for q
    using that assms(2)
    by (auto simp: update_from_open_def Let_def validate_open_def good_step_def transition_def same_config_def
        split: outcome.splits option.splits)
  with assms(1) show ?thesis
    by (auto simp: handle_open_def Let_def split: option.splits prod.splits if_splits outcome.splits bool.splits)
qed

lemma adjrib_config [simp]:
  "good_step nb (adjrib_add fam u nb)" "good_step nb (adjrib_withdraw fam u nb)"
  by (auto simp: adjrib_add_def adjrib_withdraw_def good_step_def transition_def same_config_def split: option.splits)

lemma good_step_keepalive [good_steps]: "good_step nb (handle_keepalive nb)"
  by (auto simp: handle_keepalive_def good_step_def transition_def same_config_def)

lemma good_step_adjrib: "good_step nb (nb\<lparr>adjrib := x\<rparr>)"
  by (simp add: good_step_def transition_def same_config_def)

lemma adjrib_only:
  "\<exists>x. adjrib_add fam u nb = nb\<lparr>adjrib := x\<rparr>" "\<exists>x. adjrib_withdraw fam u nb = nb\<lparr>adjrib := x\<rparr>"
  by (auto simp: adjrib_add_def adjrib_withdraw_def split: option.splits intro: exI [of _ "adjrib nb"])

lemma adjrib_only_if:
  "\<exists>x. (if P then adjrib_add fam u nb else nb) = nb\<lparr>adjrib := x\<rparr>"
  "\<exists>x. (if P then adjrib_withdraw fam u nb else nb) = nb\<lparr>adjrib := x\<rparr>"
  using adjrib_only [of fam u nb] exI [of "\<lambda>x. nb = nb\<lparr>adjrib := x\<rparr>" "adjrib nb"] by auto

lemma handle_update_only:
  assumes "handle_update m sp now nb = (nb', acts, r)"
  shows "\<exists>x. nb' = nb\<lparr>adjrib := x\<rparr>"
proof -
  obtain fam ns wd hop where ur: "update_routes m = (fam, ns, wd, hop)" by (cases "update_routes m") auto
  have same: "\<exists>x. nb = nb\<lparr>adjrib := x\<rparr>" by (rule exI [of _ "adjrib nb"]) simp
  have both: "\<exists>x. (if P then adjrib_add fam u (if Q then adjrib_withdraw fam v nb else nb)
      else (if Q then adjrib_withdraw fam v nb else nb)) = nb\<lparr>adjrib := x\<rparr>" for P Q u v
  proof -
    obtain x where x: "(if Q then adjrib_withdraw fam v nb else nb) = nb\<lparr>adjrib := x\<rparr>"
      using adjrib_only_if(2) by blast
    obtain y where "(if P then adjrib_add fam u (nb\<lparr>adjrib := x\<rparr>) else nb\<lparr>adjrib := x\<rparr>) = nb\<lparr>adjrib := y\<rparr>"
      using adjrib_only_if(1) [of P fam u "nb\<lparr>adjrib := x\<rparr>"] by auto
    then show ?thesis unfolding x by blast
  qed
  show ?thesis
  proof (cases "(ra_new (path_attributes m) (ucast (local_asn sp)) (remote_asn nb) (remote_rid nb) (remote_ip nb)
      hop now :: (string, route_attributes) outcome)")
    case (Ok attrs)
    define nb1 where "nb1 = (if ns \<noteq> [] then adjrib_add fam \<lparr>ru_nlris = ns, ru_attributes = attrs\<rparr>
        (if wd \<noteq> [] then adjrib_withdraw fam \<lparr>ru_nlris = wd, ru_attributes = attrs\<rparr> nb else nb)
      else (if wd \<noteq> [] then adjrib_withdraw fam \<lparr>ru_nlris = wd, ru_attributes = attrs\<rparr> nb else nb))"
    have "nb' = nb1"
      using assms unfolding handle_update_def ur Let_def prod.case Ok outcome.case nb1_def [symmetric]
      by (simp split: option.splits)
    then show ?thesis using both unfolding nb1_def by blast
  qed (use assms same in \<open>simp_all add: handle_update_def ur\<close>)
qed

lemma good_step_notification: "good_step nb (fst (handle_notification m sp now nb))"
  by (simp add: handle_notification_def Let_def good_step_def transition_def same_config_def set_state_def)

lemma good_step_established:
  "process_message_established m sp now nb = (nb', acts, r) \<Longrightarrow> good_step nb nb'"
proof (cases m)
  case (MB_Update u)
  then show "process_message_established m sp now nb = (nb', acts, r) \<Longrightarrow> good_step nb nb'"
    using handle_update_only [of u sp now nb nb' acts r] good_step_adjrib
    by (auto simp: process_message_established_def)
next
  case (MB_Notification u)
  then show "process_message_established m sp now nb = (nb', acts, r) \<Longrightarrow> good_step nb nb'"
    using good_step_notification [of nb u sp now]
    by (auto simp: process_message_established_def split: prod.splits)
qed (auto simp: process_message_established_def good_steps)

lemma good_step_openconfirm:
  assumes "process_message_openconfirm alive order m sp nb = (nb', acts, r)" and "nb_state nb = OpenConfirm"
  shows "good_step nb nb'"
proof (cases m)
  case MB_Keepalive
  then have "nb' = set_state Established (handle_keepalive nb)"
    using assms(1) by (auto simp: process_message_openconfirm_def Let_def split: prod.splits)
  then show ?thesis
    using assms(2) by (simp add: good_step_def transition_def same_config_def set_state_def handle_keepalive_def)
qed (use assms(1) in \<open>auto simp: process_message_openconfirm_def notify_def split: option.splits\<close>)

lemma good_step_opensent:
  assumes "process_message_opensent alive m sp nb = (nb', acts, r)" and "nb_state nb = OpenSent"
  shows "good_step nb nb'"
  by (cases m) (use assms good_step_open [of alive _ _ sp nb nb' acts r] in
    \<open>auto simp: process_message_opensent_def notify_def good_steps split: option.splits\<close>)

lemma good_step_active:
  assumes "process_message_active alive m sp nb = (nb', acts, r)" and "nb_state nb = Active"
  shows "good_step nb nb'"
  by (cases m) (use assms good_step_open [of alive _ _ sp nb nb' acts r] in
    \<open>auto simp: process_message_active_def notify_def split: option.splits\<close>)

lemma good_step_message [good_steps]:
  assumes "process_message alive order m sp now nb = (nb', acts, r)"
  shows "good_step nb nb'"
proof (cases "nb_state nb")
  case Established
  then show ?thesis using assms good_step_established by (simp add: process_message_def)
next
  case OpenConfirm
  then show ?thesis using assms good_step_openconfirm by (simp add: process_message_def)
next
  case OpenSent
  then show ?thesis using assms good_step_opensent by (simp add: process_message_def)
next
  case Active
  then show ?thesis using assms good_step_active by (simp add: process_message_def)
qed (use assms in \<open>auto simp: process_message_def process_message_connect_def process_message_idle_def\<close>)

section \<open>What a step does to the speaker\<close>

definition same_speaker :: "('n, 'm, 'p) speaker \<Rightarrow> ('n, 'm, 'p) speaker \<Rightarrow> bool" where
  "same_speaker sp sp' \<longleftrightarrow> local_asn sp' = local_asn sp \<and> router_id sp' = router_id sp
     \<and> length (neighbors sp') = length (neighbors sp)"

lemma neighbors_upd [simp]:
  "neighbors (upd_neighbor i nb sp) = (neighbors sp)[i := nb]" "local_asn (upd_neighbor i nb sp) = local_asn sp"
  "router_id (upd_neighbor i nb sp) = router_id sp" "sp_rib (upd_neighbor i nb sp) = sp_rib sp"
  "sp_ribtx (upd_neighbor i nb sp) = sp_ribtx sp" "sp_fib (upd_neighbor i nb sp) = sp_fib sp"
  by (simp_all add: upd_neighbor_def)

lemma match_incoming_Some:
  "match_incoming free ip sp = Some i \<Longrightarrow> i < length (neighbors sp) \<and> free i \<and> remote_ip (neighbors sp ! i) = Some ip"
  by (auto simp: match_incoming_def find_Some_iff)

lemma good_step_accept:
  "should_accept (nb_state nb) \<Longrightarrow> good_step nb (set_state Active nb\<lparr>nb_local_ip := x, nb_local_port := y\<rparr>)"
  by (cases "nb_state nb") (simp_all add: should_accept_def good_step_def transition_def same_config_def set_state_def)

lemma process_rib_event_speaker:
  assumes "process_rib_event L order alive fam e rib fib sp = (sp', fevs, acts, r)"
  shows "sp' = sp\<lparr>sp_rib := (sp_rib sp)(fam \<mapsto> fst (rib_event_step L fib (local_asn sp) order e rib))\<rparr>"
  using assms by (auto simp: process_rib_event_def Let_def split: prod.splits if_splits)

definition speaker_step :: "('n, 'm, 'p) speaker \<Rightarrow> ('n, 'm, 'p) speaker \<Rightarrow> bool" where
  "speaker_step sp sp' \<longleftrightarrow> same_speaker sp sp' \<and> (\<forall>i < length (neighbors sp). good_step (neighbors sp ! i) (neighbors sp' ! i))"

lemma speaker_step_refl: "neighbors sp' = neighbors sp \<Longrightarrow> local_asn sp' = local_asn sp \<Longrightarrow> router_id sp' = router_id sp \<Longrightarrow>
    speaker_step sp sp'"
  by (simp add: speaker_step_def same_speaker_def)

lemma speaker_step_upd:
  assumes "good_step (neighbors sp ! i) nb"
  shows "speaker_step sp (upd_neighbor i nb sp)"
proof -
  have "good_step (neighbors sp ! j) ((neighbors sp)[i := nb] ! j)" if "j < length (neighbors sp)" for j
    using assms that by (cases "j = i") simp_all
  then show ?thesis by (simp add: speaker_step_def same_speaker_def)
qed

lemma speaker_step_incoming:
  assumes "add_incoming free ip local_addr sp = (sp', r)"
  shows "speaker_step sp sp'"
proof (cases "match_incoming free ip sp")
  case None
  with assms show ?thesis by (simp add: add_incoming_def speaker_step_refl)
next
  case (Some i)
  with assms speaker_step_upd [OF good_step_accept] show ?thesis
    by (cases "should_accept (nb_state (neighbors sp ! i))")
      (auto simp: add_incoming_def Let_def speaker_step_refl split: option.splits)
qed

lemma speaker_step_rib:
  "process_rib_event L order alive fam e rib fib sp = (sp', fevs, acts, r) \<Longrightarrow> speaker_step sp sp'"
  using process_rib_event_speaker by (fastforce intro: speaker_step_refl)

lemma sys_step_cases_neighbor:
  "sys_step L b sp sp' \<Longrightarrow> same_speaker sp sp' \<and> (\<forall>i < length (neighbors sp). good_step (neighbors sp ! i) (neighbors sp' ! i))"
  unfolding speaker_step_def [symmetric]
  by (induction rule: sys_step.induct)
    (auto intro: speaker_step_upd speaker_step_incoming speaker_step_rib speaker_step_refl good_steps)

section \<open>Entering OPENCONFIRM and ESTABLISHED\<close>

text \<open>Only messages do it: every other handler leaves a neighbor in these states if it was there.\<close>

definition quiet :: "'n neighbor \<Rightarrow> 'n neighbor \<Rightarrow> bool" where
  "quiet nb nb' \<longleftrightarrow> (nb_state nb' \<in> {OpenConfirm, Established} \<longrightarrow> nb_state nb' = nb_state nb)"

lemma quiet_refl [simp]: "quiet nb nb"
  by (simp add: quiet_def)

lemma quiet_parts [simp]:
  "quiet nb (set_state Connect nb')" "quiet nb (set_state OpenSent nb')" "quiet nb (init_peer nb')" "quiet nb (session_end nb')"
  "quiet nb (connect_failed nb')" "quiet nb (connect_succeeded ip port nb')" "quiet nb (nb\<lparr>tx := t\<rparr>)"
  "quiet nb (connect_prepare rtx nb)" "quiet nb (fst (timer_keepalive_round nb))" "quiet nb (process_event_unconnected e nb)"
  "quiet nb (set_state Active nb'\<lparr>nb_local_ip := x, nb_local_port := y\<rparr>)"
  by (auto simp: quiet_def set_state_def init_peer_def session_end_def connect_failed_def connect_succeeded_def
      connect_prepare_def timer_keepalive_round_def process_event_unconnected_def process_event_idle_def Let_def
      split: event.splits)

lemma quiet_connect: "connect rtx socket nb = (nb', r) \<Longrightarrow> quiet nb nb'"
  by (auto simp: connect_def Let_def split: if_splits connection.splits option.splits prod.splits)

lemma quiet_event: "process_event L order s e nb c = Ok (nb', c') \<Longrightarrow> quiet nb nb'"
  by (cases "nb_state nb")
    (auto simp: process_event_def dest!: event_connect_result event_active_result event_openconfirm_result
        event_established_result event_opensent_result)

lemma quiet_start:
  assumes "session_start L order s ch nb c = (nb', r)"
  shows "quiet nb nb'"
proof -
  have "quiet nb nb'" if "process_event L order s e (nb\<lparr>tx := Some ch\<rparr>) c = Ok (nb', c')" for e c'
    using quiet_event [OF that] by (simp add: quiet_def)
  with assms show ?thesis
    by (auto simp: session_start_def Let_def split: outcome.splits bgp_state.splits prod.splits)
qed

lemma quiet_upd:
  assumes "quiet (neighbors sp ! i) nb"
  shows "quiet (neighbors sp ! j) (neighbors (upd_neighbor i nb sp) ! j)"
proof (cases "i < length (neighbors sp) \<and> j = i")
  case True
  with assms show ?thesis by simp
next
  case False
  then have "neighbors (upd_neighbor i nb sp) ! j = neighbors sp ! j"
    by (cases "j = i") (simp_all add: list_update_beyond)
  then show ?thesis by simp
qed

lemma quiet_incoming: "add_incoming free ip local_addr sp = (sp', r) \<Longrightarrow> quiet (neighbors sp ! j) (neighbors sp' ! j)"
  by (auto simp: add_incoming_def Let_def simp del: neighbors_upd split: option.splits if_splits intro!: quiet_upd)

text \<open>A message that is read from bytes and handled.\<close>

definition message_step ::
    "'n ipnet_ops \<Rightarrow> build \<Rightarrow> ('n, 'm, 'p) speaker \<Rightarrow> nat \<Rightarrow> 'n message \<Rightarrow> 'n neighbor \<Rightarrow> bool" where
  "message_step L b sp i m nb \<longleftrightarrow> (\<exists>f alive order now acts r. message_from_bytes b L f = Ok m
     \<and> process_message alive order m sp now (neighbors sp ! i) = (nb, acts, r))"

lemma sys_step_quiet:
  assumes "sys_step L b sp sp'"
  shows "quiet (neighbors sp ! i) (neighbors sp' ! i) \<or> (\<exists>m. message_step L b sp i m (neighbors sp' ! i))"
  using assms
proof cases
  case (step_message j f m alive order now nb acts r)
  show ?thesis
  proof (cases "i = j")
    case True
    with step_message have "message_step L b sp i m (neighbors sp' ! i)"
      unfolding message_step_def by (intro exI [of _ f] exI [of _ alive] exI [of _ order] exI [of _ now] exI [of _ acts] exI [of _ r]) simp
    then show ?thesis by blast
  qed (use step_message in simp)
next
  case (step_incoming free ip local_addr r)
  then show ?thesis using quiet_incoming by blast
next
  case (step_rib fam rib fib order alive e fevs acts r)
  then show ?thesis using process_rib_event_speaker [OF step_rib(3)] by simp
qed (auto simp del: neighbors_upd intro!: quiet_upd dest: quiet_connect quiet_start quiet_event)

lemma handle_open_enters:
  assumes "handle_open alive active m sp nb = (nb', acts, r)" and "nb_state nb' \<noteq> nb_state nb"
  shows "nb_state nb' = OpenConfirm \<and> validate_open m nb \<and> \<not> fst (collision_detection m sp)
    \<and> remote_rid nb' = Some (om_router_id m) \<and> remote_asn nb' = Some (om_asn m)
    \<and> hold_time (attributes nb') = om_hold_time m"
  using assms
  by (auto simp: handle_open_def update_from_open_def Let_def split: option.splits prod.splits if_splits outcome.splits bool.splits)

lemma process_message_enters:
  assumes "process_message alive order msg sp now nb = (nb', acts, r)" and "nb_state nb' \<noteq> nb_state nb"
  shows "(nb_state nb' = OpenConfirm \<longrightarrow> (\<exists>m. body msg = MB_Open m \<and> validate_open m nb \<and> \<not> fst (collision_detection m sp)
      \<and> remote_rid nb' = Some (om_router_id m) \<and> remote_asn nb' = Some (om_asn m)
      \<and> hold_time (attributes nb') = om_hold_time m))
    \<and> (nb_state nb' = Established \<longrightarrow> body msg = MB_Keepalive)"
proof (cases "nb_state nb")
  case Active
  then show ?thesis
    using assms handle_open_enters [of alive True _ sp nb nb' acts r]
    by (cases "body msg") (auto simp: process_message_def process_message_active_def notify_def split: option.splits)
next
  case OpenSent
  then show ?thesis
    using assms handle_open_enters [of alive False _ sp nb nb' acts r]
    by (cases "body msg") (auto simp: process_message_def process_message_opensent_def notify_def handle_keepalive_def
        split: option.splits)
next
  case OpenConfirm
  then show ?thesis
    using assms
    by (cases "body msg") (auto simp: process_message_def process_message_openconfirm_def notify_def Let_def
        split: option.splits prod.splits)
next
  case Established
  have "nb_state nb' = nb_state nb" if "handle_update u sp now nb = (nb', acts, r)" for u
    using handle_update_only [OF that] by auto
  then show ?thesis
    using assms Established
    by (cases "body msg") (auto simp: process_message_def process_message_established_def handle_keepalive_def
        handle_notification_def Let_def)
qed (use assms in \<open>auto simp: process_message_def process_message_connect_def process_message_idle_def\<close>)

section \<open>The invariant\<close>

definition sys_ok :: "('n, 'm, 'p) speaker \<Rightarrow> bool" where
  "sys_ok sp \<longleftrightarrow> (\<forall>nb \<in> set (neighbors sp). neighbor_ok nb)
     \<and> (\<forall>fam rib. sp_rib sp fam = Some rib \<longrightarrow> rib_ok (local_asn sp) rib)"

lemma sys_step_rib:
  assumes "sys_step L b sp sp'" and "\<forall>fam rib. sp_rib sp fam = Some rib \<longrightarrow> rib_ok (local_asn sp) rib"
    and "sp_rib sp' fam = Some rib"
  shows "rib_ok (local_asn sp) rib"
  using assms(1)
proof cases
  case (step_incoming free ip local_addr r)
  then have "sp_rib sp' = sp_rib sp"
    by (auto simp: add_incoming_def Let_def split: option.splits if_splits)
  with assms(2,3) show ?thesis by simp
next
  case (step_rib fam' rib' fib order alive e fevs acts r)
  then show ?thesis
    using process_rib_event_speaker [OF step_rib(3)] assms(2,3)
      rib_event_step_ok [of "local_asn sp" rib' L fib order e]
    by (auto split: if_splits)
qed (use assms(2,3) in auto)

lemma sys_step_ok: "sys_step L b sp sp' \<Longrightarrow> sys_ok sp \<Longrightarrow> sys_ok sp'"
proof -
  assume step: "sys_step L b sp sp'" and ok: "sys_ok sp"
  note nbs = sys_step_cases_neighbor [OF step]
  have "neighbor_ok nb" if "nb \<in> set (neighbors sp')" for nb
  proof -
    obtain i where i: "i < length (neighbors sp)" "nb = neighbors sp' ! i"
      using \<open>nb \<in> set (neighbors sp')\<close> nbs by (auto simp: in_set_conv_nth same_speaker_def)
    then show ?thesis
      using nbs ok good_step_ok by (fastforce simp: sys_ok_def)
  qed
  moreover have "rib_ok (local_asn sp') rib" if "sp_rib sp' fam = Some rib" for fam rib
    using sys_step_rib [OF step _ that] ok nbs by (simp add: sys_ok_def same_speaker_def)
  ultimately show ?thesis by (simp add: sys_ok_def)
qed

lemma add_neighbors_ok:
  assumes "add_neighbors fams ns sp = Ok sp'" and "fams \<noteq> None"
    and "\<forall>nb \<in> set (neighbors sp). neighbor_ok nb \<and> nb_state nb = Idle"
  shows "(\<forall>nb \<in> set (neighbors sp'). neighbor_ok nb \<and> nb_state nb = Idle) \<and> sp_rib sp' = sp_rib sp
    \<and> local_asn sp' = local_asn sp"
  using assms
proof (induction ns arbitrary: sp)
  case (Cons n ns)
  have fams: "option_or x fams \<noteq> None" for x
    using Cons.prems(2) by (auto simp: option_or_def split: option.splits)
  obtain sp1 where sp1: "add_neighbor (n\<lparr>cn_families := option_or (cn_families n) fams,
        cn_hold_time := option_or (cn_hold_time n) (Some (sp_hold_time sp))\<rparr>) Map.empty sp = Ok sp1"
    and rest: "add_neighbors fams ns sp1 = Ok sp'"
    using Cons.prems(1) by (auto simp: bind_eq_Ok)
  have "\<forall>nb \<in> set (neighbors sp1). neighbor_ok nb \<and> nb_state nb = Idle"
    "sp_rib sp1 = sp_rib sp" "local_asn sp1 = local_asn sp"
    using sp1 Cons.prems(3) fams
    by (auto simp: add_neighbor_def bind_eq_Ok expect_eq_Ok neighbor_ok_def neighbor_new_def)
  with Cons.IH [OF rest Cons.prems(2)] show ?case by simp
qed simp

lemma option_or_Some: "option_or x (Some y) = Some z \<longleftrightarrow> z = (case x of None \<Rightarrow> y | Some w \<Rightarrow> w)"
  by (auto simp: option_or_def split: option.splits)

lemma option_or_not_None [simp]: "option_or x (Some y) \<noteq> None"
  by (simp add: option_or_def split: option.splits)

lemma read_config_families: "read_config cfg = Ok c \<Longrightarrow> cf_families c \<noteq> None"
  by (cases cfg) (auto simp: read_config_def option_or_Some)

lemma main_setup_ok:
  fixes sp :: "('n, 'm, 'p) speaker"
  assumes "main_setup cfg = Ok sp"
  shows "(\<forall>nb \<in> set (neighbors sp). neighbor_ok nb \<and> nb_state nb = Idle) \<and> sp_rib sp = Map.empty"
proof -
  obtain c where c: "read_config cfg = Ok c"
    using assms by (auto simp: main_setup_def bind_eq_Ok map_err_eq_Ok)
  obtain hold where hold: "cf_hold_time c = Some hold"
    using assms by (cases "cf_hold_time c") (simp_all add: main_setup_def c Let_def)
  obtain ips where ips: "cf_localips c = Some ips"
    using assms by (cases "cf_localips c") (simp_all add: main_setup_def c hold Let_def)
  obtain port where port: "cf_port c = Some port"
    using assms by (cases "cf_port c") (simp_all add: main_setup_def c hold ips Let_def)
  define sp0 :: "('n, 'm, 'p) speaker" where "sp0 = speaker_new (cf_asn c) (cf_rid c) hold ips port
    (case cf_families c of Some fs \<Rightarrow> fs | None \<Rightarrow> [])"
  have sp0: "neighbors sp0 = []" "sp_rib sp0 = Map.empty"
    by (simp_all add: sp0_def speaker_new_def)
  have sp: "(case cf_neighbors c of None \<Rightarrow> Ok sp0 | Some ns \<Rightarrow> add_neighbors (cf_families c) ns sp0) = Ok sp"
    unfolding sp0_def using assms by (simp add: main_setup_def c hold ips port Let_def)
  show ?thesis
  proof (cases "cf_neighbors c")
    case None
    with sp sp0 show ?thesis by simp
  next
    case (Some ns)
    with sp have "add_neighbors (cf_families c) ns sp0 = Ok sp" by simp
    from add_neighbors_ok [OF this read_config_families [OF c]] sp0 show ?thesis by simp
  qed
qed

lemma reachable_sys_ok: "reachable L b N cfg sp \<Longrightarrow> sys_ok sp"
proof (induction rule: reachable.induct)
  case (reach_init sp sp' ts r)
  then show ?case
    using main_setup_ok [of cfg sp] start_result(3,6) [OF reach_init(2)]
    by (auto simp: sys_ok_def rib_ok_def split: if_splits)
next
  case (reach_step sp sp')
  then show ?case by (simp add: sys_step_ok)
qed

end
