(* ===== verification/Protocol.thy ===== *)
theory Protocol
  imports System
begin

text \<open>
  What two speakers do to each other: the life of a session, the exchange of routes, and the way a
  peer's routes leave.  The lemmas follow messages from the handler of one side over the wire to the
  handler of the other.
\<close>

section \<open>Messages on the wire\<close>

text \<open>What a sender's stream holds more after it sent a message of valid content.\<close>

definition sends :: "conn \<Rightarrow> conn \<Rightarrow> bytes \<Rightarrow> bool" where
  "sends c c' f \<longleftrightarrow> conn_out c' = conn_out c @ f \<and> conn_open c' = conn_open c"

context ipnet_laws
begin

lemma to_wire_eq: "to_wire L t m = Ok data \<longleftrightarrow> message_to_bytes L (message_new t m) = Ok data"
  by (simp add: to_wire_def unwrap_result_eq_Ok)

lemma framed_send_message:
  assumes "valid_message L (message_new t m)" and "to_wire L t m = Ok data"
    and "framed_send msg data c = Ok c'"
  shows "\<exists>f. sends c c' f \<and> (\<forall>b. message_from_bytes b L f = Ok (message_norm L (message_new t m))) \<and>
    (\<forall>b rest. read_message b L (f @ rest) = Ok (Some (message_norm L (message_new t m)), rest))"
proof -
  obtain out where enc: "codec_encode data (conn_out c) = Ok out" and c': "c' = c\<lparr>conn_out := out\<rparr>"
    using assms(3) by (auto simp: framed_send_def outcome_simps split: if_splits)
  have data: "message_to_bytes L (message_new t m) = Ok data"
    using assms(2) by (simp add: to_wire_eq)
  obtain f where out: "out = conn_out c @ f"
    using message_wire_roundtrip [OF assms(1) data enc] by blast
  have "codec_decode (f @ rest) = Ok (Some f, rest)
      \<and> message_from_bytes b L f = Ok (message_norm L (message_new t m))" for b rest
    using message_wire_roundtrip [OF assms(1) data enc, of rest b] out by auto
  then show ?thesis
    by (intro exI [of _ f]) (simp add: sends_def c' out read_message_def)
qed

lemma send_open_wire:
  assumes "length (announced_families caps) \<le> 42" and "send_open L asn rid hold caps c = Ok c'"
  shows "\<exists>f. sends c c' f
    \<and> (\<forall>b. message_from_bytes b L f = Ok \<lparr>message_type = MT_Open, body = MB_Open (open_norm (open_new asn rid hold caps))\<rparr>)
    \<and> (\<forall>b rest. read_message b L (f @ rest) =
      Ok (Some \<lparr>message_type = MT_Open, body = MB_Open (open_norm (open_new asn rid hold caps))\<rparr>, rest))"
proof -
  obtain data where data: "to_wire L MT_Open (MB_Open (open_new asn rid hold caps)) = Ok data"
    and send: "framed_send ''Failed to send OPEN message'' data c = Ok c'"
    using assms(2) by (auto simp: send_open_def outcome_simps)
  have "valid_message L (message_new MT_Open (MB_Open (open_new asn rid hold caps)))"
    using open_new_valid [OF assms(1)] by (simp add: valid_message_def message_new_def)
  from framed_send_message [OF this data send] show ?thesis
    by (simp add: message_norm_def message_new_def)
qed

lemma send_keepalive_wire:
  assumes "send_keepalive L c = Ok c'"
  shows "\<exists>f. sends c c' f
    \<and> (\<forall>b. message_from_bytes b L f = Ok \<lparr>message_type = MT_Keepalive, body = MB_Keepalive\<rparr>)
    \<and> (\<forall>b rest. read_message b L (f @ rest) = Ok (Some \<lparr>message_type = MT_Keepalive, body = MB_Keepalive\<rparr>, rest))"
proof -
  obtain data where data: "to_wire L MT_Keepalive MB_Keepalive = Ok data"
    and send: "framed_send ''Failed to send KEEPALIVE message'' data c = Ok c'"
    using assms by (auto simp: send_keepalive_def outcome_simps)
  have "valid_message L (message_new MT_Keepalive MB_Keepalive)"
    by (simp add: valid_message_def message_new_def)
  from framed_send_message [OF this data send] show ?thesis
    by (simp add: message_norm_def message_new_def)
qed

lemma send_update_wire:
  assumes "update_for order nb routes = Ok (Some u)" and "valid_update L u"
    and "send_update L order nb routes c = Ok c'"
  shows "\<exists>f. sends c c' f \<and> (\<forall>b rest. read_message b L (f @ rest) =
    Ok (Some \<lparr>message_type = MT_Update, body = MB_Update (update_norm L u)\<rparr>, rest))"
proof -
  obtain data where data: "to_wire L MT_Update (MB_Update u) = Ok data"
    and send: "framed_send ''Failed to send UPDATE message'' data c = Ok c'"
    using assms(3) by (auto simp: send_update_def assms(1) outcome_simps)
  have "valid_message L (message_new MT_Update (MB_Update u))"
    using assms(2) by (simp add: valid_message_def message_new_def)
  from framed_send_message [OF this data send] show ?thesis
    by (auto simp: message_norm_def message_new_def)
qed

end

section \<open>An OPEN and a KEEPALIVE can be sent\<close>

lemma length_open_new:
  assumes "length (announced_families caps) \<le> 42"
  shows "length (open_to_bytes (open_new asn rid hold caps)) \<le> 264"
proof -
  have "length (concat (map capability_to_bytes (map family_capability (announced_families caps)))) \<le> 252"
    using assms by (simp only: length_family_capabilities)
  then show ?thesis
    by (simp add: open_to_bytes_def opt_params_to_bytes_def open_new_announces Let_def opt_param_to_bytes_def)
qed

lemma framed_send_ok:
  assumes "conn_open c" and "data \<noteq> []" and "length data \<le> 4078"
  shows "\<exists>c'. framed_send msg data c = Ok c' \<and> conn_open c'"
proof -
  have "1 \<le> length data" "data \<noteq> []" using assms(2) by (cases data; simp)+
  then have "\<exists>out. codec_encode data (conn_out c) = Ok out"
    using assms(3) by (simp add: codec_encode_def validate_message_length_def MIN_MESSAGE_LENGTH_def
        MAX_MESSAGE_LENGTH_def Let_def)
  then show ?thesis using assms(1) by (auto simp: framed_send_def)
qed

lemma send_open_ok:
  assumes "conn_open c" and "length (announced_families caps) \<le> 42"
  shows "\<exists>c'. send_open L asn rid hold caps c = Ok c' \<and> conn_open c'"
  using framed_send_ok [OF assms(1), of "message_type_code MT_Open # open_to_bytes (open_new asn rid hold caps)"]
    length_open_new [OF assms(2), of asn rid hold]
  by (simp add: send_open_def to_wire_def message_to_bytes_def message_new_def)

lemma send_keepalive_ok: "conn_open c \<Longrightarrow> \<exists>c'. send_keepalive L c = Ok c' \<and> conn_open c'"
  using framed_send_ok [of c "[message_type_code MT_Keepalive]"]
  by (simp add: send_keepalive_def to_wire_def message_to_bytes_def message_new_def keepalive_to_bytes_def)

section \<open>Collisions\<close>

definition is_opening :: "u32 \<Rightarrow> 'n neighbor \<Rightarrow> bool" where
  "is_opening rid nb \<longleftrightarrow> tx nb \<noteq> None \<and> nb_state nb \<in> {OpenSent, OpenConfirm} \<and> remote_rid nb = Some rid"

lemma collision_scan_iff: "fst (collision_scan rid msg_rid ns) \<longleftrightarrow> (\<exists>n \<in> set ns. is_opening msg_rid n)"
  by (induction ns) (auto simp: is_opening_def split: option.splits)

lemma collision_scan_none: "\<not> fst (collision_scan rid msg_rid ns) \<Longrightarrow> snd (collision_scan rid msg_rid ns) = []"
  by (induction ns) (auto split: option.splits if_splits)

lemma collision_detection_iff: "fst (collision_detection m sp) \<longleftrightarrow> (\<exists>n \<in> set (neighbors sp). is_opening (om_router_id m) n)"
  by (simp add: collision_detection_def collision_scan_iff)

lemma no_collision:
  assumes "\<forall>n \<in> set (neighbors sp). \<not> is_opening (om_router_id m) n"
  shows "collision_detection m sp = (False, [])"
proof -
  have "\<not> fst (collision_detection m sp)" using assms by (simp add: collision_detection_iff)
  moreover from this have "snd (collision_detection m sp) = []"
    by (simp add: collision_detection_def collision_scan_none)
  ultimately show ?thesis by (cases "collision_detection m sp") simp
qed

section \<open>Opening a session\<close>

text \<open>What a neighbor is after it took an OPEN.\<close>

definition opened :: "open_message \<Rightarrow> neighbor_capabilities \<Rightarrow> 'n neighbor \<Rightarrow> 'n neighbor" where
  "opened m caps nb = nb\<lparr>attributes := (attributes nb)\<lparr>hold_time := om_hold_time m, state := OpenConfirm\<rparr>,
     remote_rid := Some (om_router_id m), remote_asn := Some (om_asn m), capabilities_received := caps\<rparr>"

lemma handle_open_accepts:
  assumes "tx nb = Some t" and "\<forall>n \<in> set (neighbors sp). \<not> is_opening (om_router_id m) n"
    and "remote_asn nb = Some (om_asn m) \<or> remote_asn nb = None"
    and "neighbor_capabilities_from (capabilities_from_params (params (om_opt_params m))) = Ok caps"
  shows "handle_open alive False m sp nb = (opened m caps nb, [Start_Keepalive_Timer t], Ok ())"
  using assms no_collision [OF assms(2)]
  by (auto simp: handle_open_def validate_open_def update_from_open_def opened_def Let_def)

lemma handle_open_rejects:
  assumes "(\<exists>n \<in> set (neighbors sp). is_opening (om_router_id m) n)
      \<or> (\<exists>asn. remote_asn nb = Some asn \<and> asn \<noteq> om_asn m)"
  shows "fst (handle_open alive active m sp nb) = nb"
proof (cases "fst (collision_detection m sp)")
  case True
  then show ?thesis
    by (cases "collision_detection m sp") (simp add: handle_open_def Let_def split: option.split prod.split)
next
  case False
  then have "\<not> validate_open m nb"
    using assms by (auto simp: collision_detection_iff validate_open_def)
  with False show ?thesis
    by (cases "collision_detection m sp") (simp add: handle_open_def Let_def split: option.split prod.split)
qed

section \<open>The Loc-RIB of a new session\<close>

lemma locrib_routes_ok:
  assumes "rib_ok asn rib"
  shows "locrib_routes rib order =
    Ok (map (\<lambda>n. (n, Some (hd (the (rib n))))) (filter (\<lambda>n. rib n \<noteq> None) order))"
proof (induction order)
  case (Cons n ns)
  show ?case
  proof (cases "rib n")
    case (Some as)
    then obtain a as' where "as = a # as'" using rib_okD [OF assms Some] by (cases as) auto
    with Cons Some show ?thesis by (simp add: locrib_routes_def)
  qed (use Cons in \<open>simp add: locrib_routes_def\<close>)
qed (simp add: locrib_routes_def)

lemma send_locrib_families_ok:
  assumes "\<forall>fam \<in> set adv. fam \<in> set rec \<longrightarrow> (\<exists>rib. sp_rib sp fam = Some rib \<and> rib_ok (local_asn sp) rib)"
    and "alive t"
  shows "send_locrib_families alive sp order (Some t) rec adv =
    (map (\<lambda>fam. let rib = the (sp_rib sp fam) in
        Send_Event t (RibUpdate (map (\<lambda>n. (n, Some (hd (the (rib n))))) (filter (\<lambda>n. rib n \<noteq> None) (order rib)))))
      (filter (\<lambda>fam. fam \<in> set rec) adv), Ok ())"
  using assms
proof (induction adv)
  case (Cons fam fams)
  show ?case
  proof (cases "fam \<in> set rec")
    case True
    then obtain rib where "sp_rib sp fam = Some rib" and "rib_ok (local_asn sp) rib"
      using Cons.prems by auto
    with True Cons show ?thesis by (simp add: locrib_routes_ok Let_def)
  qed (use Cons in simp)
qed simp

text \<open>A family both sides have but the speaker has no RIB for ends the session's task.\<close>

lemma send_locrib_no_rib:
  assumes "multiprotocol (capabilities_advertised nb) = Some (fam # adv)"
    and "multiprotocol (capabilities_received nb) = Some rec" and "fam \<in> set rec" and "sp_rib sp fam = None"
  shows "send_locrib alive sp order nb =
    ([], Panic (ExpectFailed ''BUG: RIB should exist for negotiated address family''))"
  using assms by (simp add: send_locrib_def)

lemma send_locrib_no_multiprotocol:
  assumes "multiprotocol (capabilities_received nb) = None"
  shows "panics (snd (send_locrib alive sp order nb))"
  using assms by (simp add: send_locrib_def split: option.splits)

section \<open>Sending a route to an external peer\<close>

text \<open>The attributes of a route as an external peer with a 4-byte next hop gets them, and what it
  makes of them.\<close>

definition sent_path :: "u16 \<Rightarrow> route_attributes \<Rightarrow> aspath" where
  "sent_path asn ra = \<lparr>segment_type = AsSequence, as_list = [asn]\<rparr> # as_path ra"

definition sent_attributes :: "u16 \<Rightarrow> ipv4_addr \<Rightarrow> route_attributes \<Rightarrow> 'n path_attribute list" where
  "sent_attributes asn hop ra = [pa_nexthop hop, pa_origin (origin ra), pa_aspath (sent_path asn ra)]"

definition received_route ::
    "u16 \<Rightarrow> ipv4_addr \<Rightarrow> u32 \<Rightarrow> ip_addr \<Rightarrow> nat \<Rightarrow> route_attributes \<Rightarrow> route_attributes" where
  "received_route asn hop peer ip now ra = ra\<lparr>as_path := sent_path asn ra, next_hop := V4 hop, local_pref := None,
     multi_exit_disc := None, path_type := External, peer_type := Ebgp, recv_time := now, peer_rid := peer,
     peer_ip := ip\<rparr>"

text \<open>The path can be printed and read again.\<close>

definition path_fits :: "aspath \<Rightarrow> bool" where
  "path_fits path \<longleftrightarrow> (\<forall>s \<in> set path. valid_segment s) \<and> length (concat (map aspath_segment_to_bytes path)) < 65536"

lemma filter_sent:
  "filter is_transitive (ra_to_path_attributes (prepend asn 1 (ra\<lparr>next_hop := V4 hop\<rparr>))) = sent_attributes asn hop ra"
  by (simp add: ra_to_path_attributes_def prepend_def sent_attributes_def sent_path_def is_transitive_def
      pa_nexthop_def pa_origin_def pa_aspath_def pa_local_pref_def pa_med_def split: option.splits)

lemma send_group_external:
  assumes "nb_local_ip nb = Some (V4 hop)" and "remote_asn nb = Some rasn" and "nb_local_asn nb \<noteq> rasn"
  shows "send_group nb (ra, ns) = Ok (sent_attributes (nb_local_asn nb) hop ra, ns)"
  using assms by (simp add: send_group_def filter_sent Let_def)

lemma ra_eq_refl [simp]: "ra_eq a a"
  by (simp add: ra_eq_def)

lemma fold_sort_out_same:
  assumes "\<not> is_from_neighbor rid ra"
  shows "fold (sort_out rid) (map (\<lambda>n. (n, Some ra)) ns) (wd, (ra, ms) # gs) = (wd, (ra, ms @ ns) # gs)"
  using assms by (induction ns arbitrary: ms) (simp_all add: sort_out_def)

lemma update_for_same:
  assumes "remote_rid nb = Some rid" and "\<not> is_from_neighbor rid ra" and "ns \<noteq> []"
    and "nb_local_ip nb = Some (V4 hop)" and "remote_asn nb = Some rasn" and "nb_local_asn nb \<noteq> rasn"
    and "mset (order [(ra, ns)]) = {#(ra, ns)#}"
  shows "update_for order nb (map (\<lambda>n. (n, Some ra)) ns) =
    Ok (Some \<lparr>withdrawn_routes = [], path_attributes = sent_attributes (nb_local_asn nb) hop ra, um_nlri = ns\<rparr>)"
proof -
  obtain n ns' where ns: "ns = n # ns'" using assms(3) by (cases ns) auto
  have "fold (sort_out rid) (map (\<lambda>n. (n, Some ra)) ns) ([], []) = ([], [(ra, ns)])"
    using assms(2) fold_sort_out_same [OF assms(2), of ns' "[]" "[n]" "[]"] by (simp add: ns sort_out_def)
  moreover have "order [(ra, ns)] = [(ra, ns)]"
    using assms(7) by simp
  ultimately show ?thesis
    using send_group_external [OF assms(4-6)] by (simp add: update_for_def assms(1))
qed

lemma valid_sent_attributes: "path_fits (sent_path asn ra) \<Longrightarrow> a \<in> set (sent_attributes asn hop ra) \<Longrightarrow> valid_attr a"
  by (auto simp: sent_attributes_def path_fits_def valid_attr_def pa_nexthop_def pa_origin_def pa_aspath_def)

section \<open>Receiving it\<close>

text \<open>Neither the extended-length flag nor anything in front of the three attributes matters.\<close>

lemma collect_norm: "collect_attribute (attr_norm a) = collect_attribute a"
  by (simp add: collect_attribute_def attr_norm_def fun_eq_iff)

lemma fold_collect_norm: "fold collect_attribute (map attr_norm as) c = fold collect_attribute as c"
  by (induction as arbitrary: c) (simp_all add: collect_norm)

lemma fold_collect_sent:
  "fold collect_attribute (sent_attributes asn hop ra) c =
    c\<lparr>c_next_hop := Some (V4 hop), c_origin := origin ra, c_as_path := sent_path asn ra\<rparr>"
  by (simp add: sent_attributes_def collect_attribute_def pa_nexthop_def pa_origin_def pa_aspath_def)

text \<open>Of several groups of attributes in one message the last one wins.\<close>

lemma fold_collect_groups:
  "fold collect_attribute (concat (map (sent_attributes asn hop) (ras @ [ra]))) c =
    c\<lparr>c_next_hop := Some (V4 hop), c_origin := origin ra, c_as_path := sent_path asn ra\<rparr>"
  by (induction ras arbitrary: c) (simp_all add: fold_collect_sent)

definition sent_update :: "u16 \<Rightarrow> ipv4_addr \<Rightarrow> route_attributes list \<Rightarrow> 'n nlri list \<Rightarrow> 'n update_message" where
  "sent_update asn hop ras ns = \<lparr>withdrawn_routes = [],
     path_attributes = map attr_norm (concat (map (sent_attributes asn hop) ras)), um_nlri = ns\<rparr>"

lemma sent_no_multiprotocol:
  "find (\<lambda>x. type_code x = PT_MPReachableNLRI \<or> type_code x = PT_MPUnreachableNLRI)
    (map attr_norm (concat (map (sent_attributes asn hop) ras))) = None"
  by (auto simp: find_None_iff sent_attributes_def attr_norm_def pa_nexthop_def pa_origin_def pa_aspath_def)

lemma ra_new_sent:
  assumes "lasn \<noteq> ucast rasn"
  shows "ra_new (map attr_norm (concat (map (sent_attributes asn hop) (ras @ [ra])))) lasn (Some rasn) (Some peer)
    (Some ip) None now = Ok (received_route asn hop peer ip now ra)"
  using assms
  by (simp add: ra_new_def fold_collect_norm fold_collect_groups received_route_def del: map_append)

lemma ucast_u16_u32: "(ucast (x :: u16) :: u32) = ucast y \<longleftrightarrow> x = y"
proof -
  have "unat (ucast z :: u32) = unat z" for z :: u16
    using unsigned_less [of z, where ?'a = nat] by (simp add: unsigned_ucast_eq take_bit_nat_eq_self)
  then show ?thesis by (metis word_unat_eq_iff)
qed

lemma receive_external:
  assumes "remote_asn nb = Some rasn" and "local_asn sp \<noteq> rasn" and "remote_rid nb = Some peer"
    and "remote_ip nb = Some ip" and "ribtx nb ipv4_unicast = Some ch" and "ns \<noteq> []"
    and u: "u = \<lparr>ru_nlris = ns, ru_attributes = received_route asn hop peer ip now ra\<rparr>"
  shows "handle_update (sent_update asn hop (ras @ [ra]) ns) sp now nb =
    (adjrib_add ipv4_unicast u nb,
     [Send_Rib ch (UpdateRoutes \<lparr>upd_added = Some u, upd_withdrawn = None, upd_rid = peer\<rparr>)], Ok ())"
proof -
  have ur: "update_routes (sent_update asn hop (ras @ [ra]) ns) = (ipv4_unicast, ns, [], None)"
    unfolding update_routes_def sent_update_def update_message.simps sent_no_multiprotocol by simp
  have new: "ra_new (path_attributes (sent_update asn hop (ras @ [ra]) ns)) (ucast (local_asn sp)) (remote_asn nb)
      (remote_rid nb) (remote_ip nb) None now = Ok (received_route asn hop peer ip now ra)"
    unfolding assms(1,3,4) sent_update_def update_message.simps
    by (rule ra_new_sent) (use assms(2) in \<open>simp add: ucast_u16_u32\<close>)
  have "remote_rid (adjrib_add ipv4_unicast u nb) = Some peer" "ribtx (adjrib_add ipv4_unicast u nb) = ribtx nb"
    using assms(3) by (simp_all add: adjrib_add_def split: option.splits)
  then show ?thesis
    unfolding handle_update_def ur prod.case Let_def new outcome.case using assms(5,6) by (simp add: u)
qed

section \<open>Several groups in one message\<close>

lemma update_for_groups:
  assumes "remote_rid nb = Some rid" and "\<not> is_from_neighbor rid ra" and "\<not> is_from_neighbor rid rb"
    and "\<not> ra_eq ra rb"
    and "nb_local_ip nb = Some (V4 hop)" and "remote_asn nb = Some rasn" and "nb_local_asn nb \<noteq> rasn"
    and "order [(ra, [m]), (rb, [n])] = [(ra, [m]), (rb, [n])]"
  shows "update_for order nb [(m, Some ra), (n, Some rb)] =
    Ok (Some \<lparr>withdrawn_routes = [], path_attributes = concat (map (sent_attributes (nb_local_asn nb) hop) [ra, rb]),
      um_nlri = [m, n]\<rparr>)"
  using assms send_group_external [OF assms(5-7)]
  by (simp add: update_for_def sort_out_def)

section \<open>What is never sent\<close>

text \<open>The routes of an update that did not come from the peer itself, and the one whose attributes stand for
  those of a route: the first of them that is equal to it.\<close>

definition outgoing :: "u32 \<Rightarrow> 'n modified \<Rightarrow> ('n nlri \<times> route_attributes) list" where
  "outgoing rid routes = [(n, a). (n, Some a) \<leftarrow> routes, \<not> is_from_neighbor rid a]"

definition leader :: "('n nlri \<times> route_attributes) list \<Rightarrow> route_attributes \<Rightarrow> route_attributes option" where
  "leader os a = find (\<lambda>k. ra_eq k a) (map snd os)"

lemma fold_sort_out:
  "fold (sort_out rid) routes (wd, gs) =
    (wd @ [n. (n, None) \<leftarrow> routes], fold (\<lambda>(n, a) gs. group_push a n gs) (outgoing rid routes) gs)"
proof (induction routes arbitrary: wd gs)
  case (Cons r routes)
  then show ?case by (cases r; cases "snd r") (auto simp: sort_out_def outgoing_def)
qed (simp add: outgoing_def)

text \<open>A group is found by its first equal, or made.\<close>

lemma group_push_cases:
  "(\<exists>pre k ns post. gs = pre @ (k, ns) # post \<and> ra_eq k a \<and> group_push a n gs = pre @ (k, ns @ [n]) # post)
    \<or> (\<forall>g \<in> set gs. \<not> ra_eq (fst g) a) \<and> group_push a n gs = gs @ [(a, [n])]"
proof (induction gs)
  case (Cons g gs)
  obtain k ns where g: "g = (k, ns)" by (cases g)
  show ?case
  proof (cases "ra_eq k a")
    case True
    then have "g # gs = [] @ (k, ns) # gs \<and> ra_eq k a \<and> group_push a n (g # gs) = [] @ (k, ns @ [n]) # gs" by (simp add: g)
    then show ?thesis by blast
  next
    case False
    from Cons.IH show ?thesis
    proof
      assume "\<exists>pre k' ns' post. gs = pre @ (k', ns') # post \<and> ra_eq k' a \<and> group_push a n gs = pre @ (k', ns' @ [n]) # post"
      then obtain pre k' ns' post where "gs = pre @ (k', ns') # post" "ra_eq k' a"
        "group_push a n gs = pre @ (k', ns' @ [n]) # post" by blast
      then have "g # gs = (g # pre) @ (k', ns') # post \<and> ra_eq k' a
          \<and> group_push a n (g # gs) = (g # pre) @ (k', ns' @ [n]) # post" using False by (simp add: g)
      then show ?thesis by blast
    qed (use False in \<open>simp add: g\<close>)
  qed
qed simp

lemma ra_eq_equiv: "ra_eq a b \<longleftrightarrow> ra_hash_input a = ra_hash_input b"
  by (rule ra_eq_hash)

lemma leader_snoc:
  "leader (os @ [(n, a)]) x = (case leader os x of Some k \<Rightarrow> Some k | None \<Rightarrow> if ra_eq a x then Some a else None)"
proof -
  have "find P (xs @ [y]) = (case find P xs of Some k \<Rightarrow> Some k | None \<Rightarrow> if P y then Some y else None)"
    for P and xs :: "route_attributes list" and y by (induction xs) simp_all
  then show ?thesis by (simp add: leader_def)
qed

lemma leader_cong: "ra_eq a b \<Longrightarrow> leader os a = leader os b"
  by (simp add: leader_def ra_eq_equiv)

lemma leader_Some: "leader os a = Some k \<Longrightarrow> ra_eq k a"
  by (auto simp: leader_def find_Some_iff)

text \<open>The groups of a list of routes: each is headed by the leader of all its prefixes' routes, and every route
  is in the group of its leader.\<close>

definition grouped :: "('n nlri \<times> route_attributes) list \<Rightarrow> (route_attributes \<times> 'n nlri list) list \<Rightarrow> bool" where
  "grouped os gs \<longleftrightarrow> (\<forall>(k, ns) \<in> set gs. leader os k = Some k
      \<and> (\<forall>n \<in> set ns. \<exists>a. (n, a) \<in> set os \<and> leader os a = Some k))
    \<and> (\<forall>(n, a) \<in> set os. \<exists>k ns. leader os a = Some k \<and> (k, ns) \<in> set gs \<and> n \<in> set ns)"

lemma groupedD:
  assumes "grouped os gs"
  shows "(k, ns) \<in> set gs \<Longrightarrow> leader os k = Some k"
    and "(k, ns) \<in> set gs \<Longrightarrow> n \<in> set ns \<Longrightarrow> \<exists>a. (n, a) \<in> set os \<and> leader os a = Some k"
    and "(n, a) \<in> set os \<Longrightarrow> \<exists>k ns. leader os a = Some k \<and> (k, ns) \<in> set gs \<and> n \<in> set ns"
  using assms unfolding grouped_def by blast+

lemma leader_old: "leader os x = Some k \<Longrightarrow> leader (os @ [(n, a)]) x = Some k"
  by (simp add: leader_snoc)

lemma groupedI:
  assumes "\<And>k ns. (k, ns) \<in> set gs \<Longrightarrow> leader os k = Some k"
    and "\<And>k ns n. (k, ns) \<in> set gs \<Longrightarrow> n \<in> set ns \<Longrightarrow> \<exists>a. (n, a) \<in> set os \<and> leader os a = Some k"
    and "\<And>n a. (n, a) \<in> set os \<Longrightarrow> \<exists>k ns. leader os a = Some k \<and> (k, ns) \<in> set gs \<and> n \<in> set ns"
  shows "grouped os gs"
  using assms unfolding grouped_def by blast

lemma grouped_old:
  assumes "grouped os gs"
  shows "(k, ns) \<in> set gs \<Longrightarrow> leader (os @ [x]) k = Some k"
    and "(k, ns) \<in> set gs \<Longrightarrow> m \<in> set ns \<Longrightarrow> \<exists>a. (m, a) \<in> set (os @ [x]) \<and> leader (os @ [x]) a = Some k"
    and "(m, a) \<in> set os \<Longrightarrow> \<exists>k ns. leader (os @ [x]) a = Some k \<and> (k, ns) \<in> set gs \<and> m \<in> set ns"
proof -
  have old: "leader os a = Some k \<Longrightarrow> leader (os @ [x]) a = Some k" for a k
    by (cases x) (simp add: leader_old)
  show "(k, ns) \<in> set gs \<Longrightarrow> leader (os @ [x]) k = Some k"
    using groupedD(1) [OF assms] old by blast
  show "(k, ns) \<in> set gs \<Longrightarrow> m \<in> set ns \<Longrightarrow> \<exists>a. (m, a) \<in> set (os @ [x]) \<and> leader (os @ [x]) a = Some k"
    using groupedD(2) [OF assms, of k ns m] old by auto
  show "(m, a) \<in> set os \<Longrightarrow> \<exists>k ns. leader (os @ [x]) a = Some k \<and> (k, ns) \<in> set gs \<and> m \<in> set ns"
    using groupedD(3) [OF assms, of m a] old by blast
qed

lemma grouped_found:
  assumes ok: "grouped os (pre @ (k, ns) # post)" and k: "ra_eq k a"
  shows "grouped (os @ [(n, a)]) (pre @ (k, ns @ [n]) # post)"
proof (rule groupedI)
  let ?gs = "pre @ (k, ns) # post" and ?os = "os @ [(n, a)]"
  have a: "leader ?os a = Some k"
    using grouped_old(1) [OF ok, of k ns "(n, a)"] leader_cong [OF k, of ?os] by simp
  show "leader ?os k' = Some k'" if "(k', ms) \<in> set (pre @ (k, ns @ [n]) # post)" for k' ms
    using that grouped_old(1) [OF ok, of k' _ "(n, a)"] by auto
  show "\<exists>x. (m, x) \<in> set ?os \<and> leader ?os x = Some k'"
    if "(k', ms) \<in> set (pre @ (k, ns @ [n]) # post)" "m \<in> set ms" for k' ms m
  proof (cases "(k', ms) \<in> set ?gs")
    case True
    from grouped_old(2) [OF ok this that(2)] show ?thesis .
  next
    case False
    with that(1) have new: "k' = k" "ms = ns @ [n]" by auto
    show ?thesis
    proof (cases "m \<in> set ns")
      case True
      then show ?thesis using grouped_old(2) [OF ok, of k ns m] new by auto
    qed (use that(2) new a in auto)
  qed
  show "\<exists>k' ms. leader ?os x = Some k' \<and> (k', ms) \<in> set (pre @ (k, ns @ [n]) # post) \<and> m \<in> set ms"
    if x: "(m, x) \<in> set ?os" for m x
  proof (cases "(m, x) \<in> set os")
    case True
    from grouped_old(3) [OF ok this] obtain k' ms where *: "leader ?os x = Some k'" "(k', ms) \<in> set ?gs" "m \<in> set ms"
      by blast
    show ?thesis
    proof (cases "(k', ms) = (k, ns)")
      case True
      with * have "(k', ms @ [n]) \<in> set (pre @ (k, ns @ [n]) # post)" "m \<in> set (ms @ [n])" by simp_all
      with *(1) show ?thesis by blast
    qed (use * in auto)
  next
    case False
    with x a show ?thesis by auto
  qed
qed

lemma grouped_new:
  assumes ok: "grouped os gs" and new: "\<forall>g \<in> set gs. \<not> ra_eq (fst g) a"
  shows "grouped (os @ [(n, a)]) (gs @ [(a, [n])])"
proof (rule groupedI)
  let ?os = "os @ [(n, a)]"
  have "leader os a = None"
  proof (rule ccontr)
    assume "leader os a \<noteq> None"
    then obtain k where k: "leader os a = Some k" by blast
    then have "k \<in> set (map snd os)" by (auto simp: leader_def find_Some_iff)
    then obtain m where "(m, k) \<in> set os" by auto
    from groupedD(3) [OF ok this] leader_cong [OF leader_Some [OF k], of os] k
    obtain ns where "(k, ns) \<in> set gs" by auto
    with new leader_Some [OF k] show False by fastforce
  qed
  then have a: "leader ?os a = Some a" by (simp add: leader_snoc)
  show "leader ?os k = Some k" if "(k, ms) \<in> set (gs @ [(a, [n])])" for k ms
    using that grouped_old(1) [OF ok] a by auto
  show "\<exists>x. (m, x) \<in> set ?os \<and> leader ?os x = Some k" if "(k, ms) \<in> set (gs @ [(a, [n])])" "m \<in> set ms" for k ms m
    using that grouped_old(2) [OF ok, of k ms m] a by (cases "(k, ms) \<in> set gs") auto
  show "\<exists>k ms. leader ?os x = Some k \<and> (k, ms) \<in> set (gs @ [(a, [n])]) \<and> m \<in> set ms" if "(m, x) \<in> set ?os" for m x
  proof (cases "(m, x) \<in> set os")
    case True
    from grouped_old(3) [OF ok this] show ?thesis by (metis UnCI set_append)
  next
    case False
    with that a show ?thesis by auto
  qed
qed

lemma grouped_push: "grouped os gs \<Longrightarrow> grouped (os @ [(n, a)]) (group_push a n gs)"
  using group_push_cases [of gs a n] grouped_found grouped_new by fastforce

lemma grouped_all: "grouped os (fold (\<lambda>(n, a) gs. group_push a n gs) os [])"
proof (induction os rule: rev_induct)
  case (snoc x os)
  then show ?case by (cases x) (simp add: grouped_push)
qed (simp add: grouped_def)

lemma send_groups_nlris:
  "send_groups nb gs = Ok (pas, ns) \<Longrightarrow>
    n \<in> set ns \<longleftrightarrow> (\<exists>k ms. (k, ms) \<in> set gs \<and> n \<in> set ms \<and> (remote_asn nb = Some (nb_local_asn nb) \<longrightarrow> \<not> is_from_ibgp k))"
proof (induction gs arbitrary: pas ns)
  case (Cons g gs)
  obtain k ms where g: "g = (k, ms)" by (cases g)
  obtain pa ns1 pas2 ns2 where *: "send_group nb (k, ms) = Ok (pa, ns1)" "send_groups nb gs = Ok (pas2, ns2)"
    and ns: "ns = ns1 @ ns2"
    using Cons.prems(1) by (auto simp: g bind_eq_Ok)
  have "n \<in> set ns1 \<longleftrightarrow> n \<in> set ms \<and> (remote_asn nb = Some (nb_local_asn nb) \<longrightarrow> \<not> is_from_ibgp k)"
    using *(1) by (auto simp: send_group_def bind_eq_Ok ok_or_eq_Ok Let_def split: if_splits)
  then show ?case using Cons.IH [OF *(2)] by (auto simp: g ns)
qed simp

lemma update_for_announces:
  assumes "update_for order nb routes = Ok (Some u)" and "remote_rid nb = Some rid"
    and perm: "\<And>gs. set (order gs) = set gs"
  shows "withdrawn_routes u = [n. (n, None) \<leftarrow> routes]"
    and "n \<in> set (um_nlri u) \<longleftrightarrow> (\<exists>a k. (n, a) \<in> set (outgoing rid routes) \<and> leader (outgoing rid routes) a = Some k
      \<and> (remote_asn nb = Some (nb_local_asn nb) \<longrightarrow> \<not> is_from_ibgp k))"
proof -
  define gs where "gs = fold (\<lambda>(n, a) gs. group_push a n gs) (outgoing rid routes) []"
  have st: "fold (sort_out rid) routes ([], []) = ([n. (n, None) \<leftarrow> routes], gs)"
    by (simp add: fold_sort_out gs_def)
  obtain pas where pas: "send_groups nb (order gs) = Ok (pas, um_nlri u)" and wd: "withdrawn_routes u = [n. (n, None) \<leftarrow> routes]"
    using assms(1,2) by (auto simp: update_for_def st bind_eq_Ok split: if_splits)
  show "withdrawn_routes u = [n. (n, None) \<leftarrow> routes]" by (rule wd)
  have ok: "grouped (outgoing rid routes) gs" unfolding gs_def by (rule grouped_all)
  have "(\<exists>ms. (k, ms) \<in> set gs \<and> n \<in> set ms) \<longleftrightarrow>
      (\<exists>a. (n, a) \<in> set (outgoing rid routes) \<and> leader (outgoing rid routes) a = Some k)" for k
    using groupedD(2,3) [OF ok] by (metis option.inject)
  then show "n \<in> set (um_nlri u) \<longleftrightarrow> (\<exists>a k. (n, a) \<in> set (outgoing rid routes) \<and> leader (outgoing rid routes) a = Some k
      \<and> (remote_asn nb = Some (nb_local_asn nb) \<longrightarrow> \<not> is_from_ibgp k))"
    unfolding send_groups_nlris [OF pas] perm by blast
qed

section \<open>Flushing a peer's routes\<close>

lemma rib_flush:
  assumes "rib_ok asn rib" and "set (order rib) = dom rib" and "distinct (order rib)"
  shows "fst (rib_event_step L fib asn order (UpdateRoutes \<lparr>upd_added = None,
      upd_withdrawn = Some \<lparr>ru_nlris = [], ru_attributes = w\<rparr>, upd_rid = r\<rparr>) rib) = rib_prune (peer_rid w) rib"
proof
  fix n
  let ?ns = "to_withdraw (order rib) rib \<lparr>ru_nlris = [], ru_attributes = w\<rparr>"
  have "rib_prune (peer_rid w) rib n = rib n" if "n \<notin> set ?ns"
  proof (cases "rib n")
    case (Some as)
    then have "\<forall>a \<in> set as. peer_rid a \<noteq> peer_rid w"
      using that assms(2) by (auto simp: to_withdraw_def list_ex_iff)
    then have "filter (\<lambda>a. peer_rid a \<noteq> peer_rid w) as = as" by (simp add: filter_id_conv)
    then show ?thesis using Some rib_okD [OF assms(1) Some] by (simp add: rib_prune_def)
  qed (simp add: rib_prune_def)
  moreover have "distinct ?ns" using assms(3) by (simp add: to_withdraw_def)
  ultimately show "fst (rib_event_step L fib asn order (UpdateRoutes \<lparr>upd_added = None,
      upd_withdrawn = Some \<lparr>ru_nlris = [], ru_attributes = w\<rparr>, upd_rid = r\<rparr>) rib) n = rib_prune (peer_rid w) rib n"
    using fold_withdraw [of ?ns L fib "peer_rid w" rib "[]"]
    by (auto simp: rib_event_step_def loc_rib_withdraw_def)
qed

lemma rib_prune_Some:
  "rib_prune peer rib n = Some as \<longleftrightarrow> (\<exists>bs. rib n = Some bs \<and> as = filter (\<lambda>a. peer_rid a \<noteq> peer) bs \<and> as \<noteq> [])"
  by (auto simp: rib_prune_def Let_def split: option.splits)

section \<open>UPDATEs of a peer that has been opened\<close>

lemma ra_new_no_Err: "ra_new src lasn rasn rid rip hop now \<noteq> Err e"
  by (auto simp: ra_new_def Let_def bind_eq_Err expect_def split: option.splits if_splits)

lemma ra_new_total:
  assumes "rasn \<noteq> None" and "rid \<noteq> None" and "rip \<noteq> None"
  shows "\<exists>attrs. (ra_new src lasn rasn rid rip hop now :: ('e, route_attributes) outcome) = Ok attrs"
proof (cases "ra_new src lasn rasn rid rip hop now :: ('e, route_attributes) outcome")
  case (Panic p)
  then have "panics (ra_new src lasn rasn rid rip hop now :: ('e, route_attributes) outcome)" by simp
  with assms show ?thesis by (auto simp: ra_new_panics)
qed (simp_all add: ra_new_no_Err)

text \<open>What a neighbor keeps of a family, and what an UPDATE makes of it.\<close>

definition kept :: "'n neighbor \<Rightarrow> address_family \<Rightarrow> 'n nlri \<Rightarrow> route_attributes list option" where
  "kept nb fam n = (case adjrib nb fam of None \<Rightarrow> None | Some rib \<Rightarrow> rib n)"

lemma fold_upd_all: "fold (\<lambda>n r. r(n \<mapsto> x)) ns r n = (if n \<in> set ns then Some x else r n)"
  by (induction ns arbitrary: r) auto

lemma fold_del_all: "fold (\<lambda>n r. r(n := None)) ns r n = (if n \<in> set ns then None else r n)"
  by (induction ns arbitrary: r) auto

lemma kept_add:
  "kept (adjrib_add fam u nb) fam' n = (if fam' = fam \<and> n \<in> set (ru_nlris u) then Some [ru_attributes u] else kept nb fam' n)"
proof -
  have same: "(case r n of None \<Rightarrow> r(n \<mapsto> [a]) | Some as \<Rightarrow> r(n \<mapsto> [] @ [a])) = r(n \<mapsto> [a])" for r :: "'a rib" and n a
    by (simp split: option.split)
  show ?thesis
    unfolding adjrib_add_def insert_all_def same by (simp add: kept_def fold_upd_all split: option.split)
qed

lemma kept_withdraw:
  "kept (adjrib_withdraw fam u nb) fam' n = (if fam' = fam \<and> n \<in> set (ru_nlris u) then None else kept nb fam' n)"
  by (simp add: adjrib_withdraw_def kept_def fold_del_all split: option.split)

lemma handle_update_total:
  assumes "remote_ip nb = Some ip" and "remote_asn nb \<noteq> None" and rid: "remote_rid nb = Some rid"
    and ur: "update_routes m = (fam, ns, wd, hop)"
  shows "\<exists>rib attrs. handle_update m sp now nb = (nb\<lparr>adjrib := rib\<rparr>,
      (case ribtx nb fam of
         None \<Rightarrow> []
       | Some ch \<Rightarrow> [Send_Rib ch (UpdateRoutes \<lparr>
           upd_added = (if ns = [] then None else Some \<lparr>ru_nlris = ns, ru_attributes = attrs\<rparr>),
           upd_withdrawn = (if wd = [] then None else Some \<lparr>ru_nlris = wd, ru_attributes = attrs\<rparr>), upd_rid = rid\<rparr>)]), Ok ())
    \<and> peer_rid attrs = rid \<and> peer_ip attrs = ip
    \<and> (\<forall>fam' n. kept (nb\<lparr>adjrib := rib\<rparr>) fam' n = (if fam' = fam \<and> n \<in> set ns then Some [attrs]
        else if fam' = fam \<and> n \<in> set wd then None else kept nb fam' n))"
proof -
  obtain attrs :: route_attributes where attrs: "(ra_new (path_attributes m) (ucast (local_asn sp)) (remote_asn nb)
      (remote_rid nb) (remote_ip nb) hop now :: (string, route_attributes) outcome) = Ok attrs"
    using ra_new_total [OF assms(2), of "remote_rid nb" "remote_ip nb"] assms(1,3) by blast
  have from_peer: "peer_rid attrs = rid" "peer_ip attrs = ip"
    using attrs assms(1,3) by (auto simp: ra_new_def Let_def bind_eq_Ok expect_eq_Ok split: if_splits)
  define u where "u = \<lparr>ru_nlris = wd, ru_attributes = attrs\<rparr>"
  define v where "v = \<lparr>ru_nlris = ns, ru_attributes = attrs\<rparr>"
  define nb1 where "nb1 = (if wd \<noteq> [] then adjrib_withdraw fam u nb else nb)"
  define nb2 where "nb2 = (if ns \<noteq> [] then adjrib_add fam v nb1 else nb1)"
  have same: "remote_rid nb2 = Some rid" "ribtx nb2 = ribtx nb"
    by (simp_all add: nb2_def nb1_def rid adjrib_add_def adjrib_withdraw_def split: option.splits)
  let ?acts = "case ribtx nb fam of None \<Rightarrow> [] | Some ch \<Rightarrow> [Send_Rib ch (UpdateRoutes \<lparr>
    upd_added = (if ns = [] then None else Some v), upd_withdrawn = (if wd = [] then None else Some u), upd_rid = rid\<rparr>)]"
  have h: "handle_update m sp now nb = (nb2, ?acts, Ok ())"
    unfolding handle_update_def ur prod.case Let_def attrs outcome.case u_def [symmetric] v_def [symmetric]
      nb1_def [symmetric] nb2_def [symmetric] same option.case
    by (simp split: option.split)
  obtain rib where nb2: "nb2 = nb\<lparr>adjrib := rib\<rparr>" using handle_update_only [OF h] by blast
  have "kept nb2 fam' n = (if fam' = fam \<and> n \<in> set ns then Some [attrs]
        else if fam' = fam \<and> n \<in> set wd then None else kept nb fam' n)" for fam' n
    by (auto simp: nb2_def nb1_def kept_add kept_withdraw u_def v_def)
  with h from_peer show ?thesis unfolding nb2 u_def v_def by blast
qed

section \<open>A session can always be opened\<close>

lemma match_incoming_only:
  "i < length (neighbors sp) \<Longrightarrow> remote_ip (neighbors sp ! i) = Some ip \<Longrightarrow>
    match_incoming (\<lambda>j. j = i) ip sp = Some i"
  unfolding match_incoming_def find_Some_iff by (rule exI [of _ i]) (simp add: nth_upt)

lemma upd_neighbor_nth [simp]:
  "i < length (neighbors sp) \<Longrightarrow> neighbors (upd_neighbor i nb sp) ! i = nb"
  "j \<noteq> i \<Longrightarrow> neighbors (upd_neighbor i nb sp) ! j = neighbors sp ! j"
  "length (neighbors (upd_neighbor i nb sp)) = length (neighbors sp)"
  by simp_all

lemma upd_neighbor_twice [simp]: "upd_neighbor i nb (upd_neighbor i nb' sp) = upd_neighbor i nb sp"
  by (simp add: upd_neighbor_def)

lemma session_start_active:
  assumes "nb_state nb = Active" and "length (announced_families (capabilities_advertised nb)) \<le> 42" and "conn_open c"
  shows "\<exists>c'. session_start L order s ch nb c = (set_state OpenSent (nb\<lparr>tx := Some ch\<rparr>), Ok c')
    \<and> send_open L (li_asn s) (li_router_id s) (li_hold_time s) (capabilities_advertised nb) c = Ok c'"
proof -
  obtain c' where "send_open L (li_asn s) (li_router_id s) (li_hold_time s) (capabilities_advertised nb) c = Ok c'"
    using send_open_ok [OF assms(3,2)] by blast
  then show ?thesis
    using assms(1) by (simp add: session_start_def process_event_def process_event_active_def send_local_open_def)
qed

lemma open_accepted:
  assumes "nb_state nb = OpenSent" and "tx nb = Some t" and "body m = MB_Open msg"
    and "\<forall>n \<in> set (neighbors sp). \<not> is_opening (om_router_id msg) n" and "remote_asn nb = Some (om_asn msg)"
    and "neighbor_capabilities_from (capabilities_from_params (params (om_opt_params msg))) = Ok caps"
  shows "process_message alive order m sp now nb = (opened msg caps nb, [Start_Keepalive_Timer t], Ok ())"
  unfolding process_message_def assms(1) process_message_opensent_def
  by (simp add: assms handle_open_accepts)

text \<open>The OPEN of a speaker is one of these.\<close>

lemma open_norm_fields:
  "om_asn (open_norm (open_new asn rid hold caps)) = asn" "om_router_id (open_norm (open_new asn rid hold caps)) = rid"
  "om_hold_time (open_norm (open_new asn rid hold caps)) = hold"
  using open_new_fields [of asn rid hold caps] by (simp_all add: open_norm_def)

lemma keepalive_establishes:
  assumes "nb_state nb = OpenConfirm" and "body m = MB_Keepalive"
  shows "process_message alive order m sp now nb = (set_state Established (handle_keepalive nb),
    send_locrib alive sp order (set_state Established (handle_keepalive nb)))"
  using assms by (simp add: process_message_def process_message_openconfirm_def Let_def)

text \<open>A neighbor a connection has been accepted for, and one that has sent its OPEN.\<close>

definition accepted :: "ip_addr \<Rightarrow> u16 \<Rightarrow> 'n neighbor \<Rightarrow> 'n neighbor" where
  "accepted lip lport nb = set_state Active nb\<lparr>nb_local_ip := Some lip, nb_local_port := Some lport\<rparr>"

definition waiting :: "chan \<Rightarrow> 'n neighbor \<Rightarrow> 'n neighbor" where
  "waiting ch nb = set_state OpenSent (nb\<lparr>tx := Some ch\<rparr>)"

lemma accepted_waiting [simp]:
  "nb_state (accepted lip lport nb) = Active" "capabilities_advertised (accepted lip lport nb) = capabilities_advertised nb"
  "remote_asn (accepted lip lport nb) = remote_asn nb" "remote_rid (accepted lip lport nb) = remote_rid nb"
  "nb_state (waiting ch nb) = OpenSent" "capabilities_advertised (waiting ch nb) = capabilities_advertised nb"
  "remote_asn (waiting ch nb) = remote_asn nb" "remote_rid (waiting ch nb) = remote_rid nb" "tx (waiting ch nb) = Some ch"
  by (simp_all add: accepted_def waiting_def)

lemma incoming_accepted:
  assumes "match_incoming free ip sp = Some i" and "nb_state (neighbors sp ! i) \<in> {Idle, Active, Connect}"
  shows "add_incoming free ip (Some (lip, lport)) sp = (upd_neighbor i (accepted lip lport (neighbors sp ! i)) sp, Ok (Some i))"
  using assms by (auto simp: add_incoming_def accepted_def should_accept_def Let_def)

text \<open>A connection comes in and its task starts.\<close>

lemma connection_opens:
  fixes sp :: "('n, 'm, 'p) speaker" and lip :: ip_addr and lport :: u16 and ch :: chan
  assumes reach: "reachable L b N cfg sp" and incoming: "match_incoming free ip sp = Some i"
    and st: "nb_state (neighbors sp ! i) \<in> {Idle, Active, Connect}"
    and fams: "length (announced_families (capabilities_advertised (neighbors sp ! i))) \<le> 42" and c: "conn_open c"
  defines "nb1 \<equiv> accepted lip lport (neighbors sp ! i)"
  shows "\<exists>c'. session_start L order (local_info_of (upd_neighbor i nb1 sp)) ch nb1 c = (waiting ch nb1, Ok c')
      \<and> send_open L (local_asn sp) (router_id sp) (sp_hold_time sp) (capabilities_advertised (neighbors sp ! i)) c = Ok c'"
    and "reachable L b N cfg (upd_neighbor i (waiting ch nb1) sp)"
proof -
  have i: "i < length (neighbors sp)" using match_incoming_Some [OF incoming] by blast
  have info: "li_asn (local_info_of (upd_neighbor i nb1 sp)) = local_asn sp"
    "li_router_id (local_info_of (upd_neighbor i nb1 sp)) = router_id sp"
    "li_hold_time (local_info_of (upd_neighbor i nb1 sp)) = sp_hold_time sp"
    by (simp_all add: local_info_of_def upd_neighbor_def)
  have nb1: "nb_state nb1 = Active" "capabilities_advertised nb1 = capabilities_advertised (neighbors sp ! i)"
    by (simp_all add: nb1_def)
  obtain c' where c': "session_start L order (local_info_of (upd_neighbor i nb1 sp)) ch nb1 c = (waiting ch nb1, Ok c')"
    "send_open L (local_asn sp) (router_id sp) (sp_hold_time sp) (capabilities_advertised (neighbors sp ! i)) c = Ok c'"
    using session_start_active [of nb1 c L order "local_info_of (upd_neighbor i nb1 sp)" ch] fams c
    unfolding waiting_def info nb1 by blast
  then show "\<exists>c'. session_start L order (local_info_of (upd_neighbor i nb1 sp)) ch nb1 c = (waiting ch nb1, Ok c')
      \<and> send_open L (local_asn sp) (router_id sp) (sp_hold_time sp) (capabilities_advertised (neighbors sp ! i)) c = Ok c'"
    by blast
  have r1: "reachable L b N cfg (upd_neighbor i nb1 sp)"
    using reach_step [OF reach step_incoming [OF incoming_accepted [OF incoming st]]] by (simp add: nb1_def)
  have "sys_step L b (upd_neighbor i nb1 sp) (upd_neighbor i (waiting ch nb1) (upd_neighbor i nb1 sp))"
    by (rule step_start) (use i c'(1) in simp_all)
  from reach_step [OF r1 this] show "reachable L b N cfg (upd_neighbor i (waiting ch nb1) sp)" by simp
qed

text \<open>An OPEN is taken, a KEEPALIVE after it establishes the session.\<close>

lemma session_opens:
  fixes sp :: "('n, 'm, 'p) speaker" and lip :: ip_addr and lport :: u16 and ch :: chan
  assumes reach: "reachable L b N cfg sp" and incoming: "match_incoming free ip sp = Some i"
    and st: "nb_state (neighbors sp ! i) \<in> {Idle, Active, Connect}"
    and fams: "length (announced_families (capabilities_advertised (neighbors sp ! i))) \<le> 42"
    and m1: "message_from_bytes b L f1 = Ok m1" "body m1 = MB_Open msg"
    and m2: "message_from_bytes b L f2 = Ok m2" "body m2 = MB_Keepalive"
    and asn: "remote_asn (neighbors sp ! i) = Some (om_asn msg)"
    and fresh: "remote_rid (neighbors sp ! i) \<noteq> Some (om_router_id msg)"
    and others: "\<forall>j < length (neighbors sp). j \<noteq> i \<longrightarrow> \<not> is_opening (om_router_id msg) (neighbors sp ! j)"
    and caps: "neighbor_capabilities_from (capabilities_from_params (params (om_opt_params msg))) = Ok caps"
  defines "nb2 \<equiv> waiting ch (accepted lip lport (neighbors sp ! i))"
  defines "nb3 \<equiv> opened msg caps nb2"
  defines "nb4 \<equiv> set_state Established (handle_keepalive nb3)"
  shows "process_message alive order m1 (upd_neighbor i nb2 sp) now nb2 = (nb3, [Start_Keepalive_Timer ch], Ok ())"
    and "reachable L b N cfg (upd_neighbor i nb3 sp)"
    and "process_message alive order m2 (upd_neighbor i nb3 sp) now nb3 =
      (nb4, send_locrib alive (upd_neighbor i nb3 sp) order nb4)"
    and "reachable L b N cfg (upd_neighbor i nb4 sp)"
proof -
  have i: "i < length (neighbors sp)" using match_incoming_Some [OF incoming] by blast
  have r2: "reachable L b N cfg (upd_neighbor i nb2 sp)"
    unfolding nb2_def by (rule connection_opens(2) [OF reach incoming st fams, of "\<lparr>conn_out = [], conn_open = True\<rparr>"]) simp
  have no_other: "\<not> is_opening (om_router_id msg) n" if n: "n \<in> set (neighbors (upd_neighbor i nb2 sp))" for n
  proof -
    obtain j where "j < length (neighbors sp)" "n = neighbors (upd_neighbor i nb2 sp) ! j"
      using n by (auto simp: in_set_conv_nth)
    then show ?thesis using others fresh i by (cases "j = i") (auto simp: is_opening_def nb2_def)
  qed
  have p1: "process_message alive order m1 (upd_neighbor i nb2 sp) now nb2 = (nb3, [Start_Keepalive_Timer ch], Ok ())"
    for alive and order :: "'n rib \<Rightarrow> 'n nlri list" and now
    unfolding nb3_def using no_other asn caps m1(2) by (intro open_accepted) (simp_all add: nb2_def)
  then show "process_message alive order m1 (upd_neighbor i nb2 sp) now nb2 = (nb3, [Start_Keepalive_Timer ch], Ok ())" .
  have "sys_step L b (upd_neighbor i nb2 sp) (upd_neighbor i nb3 (upd_neighbor i nb2 sp))"
    by (rule step_message [OF _ m1(1)]) (use i p1 in simp_all)
  from reach_step [OF r2 this] show r3: "reachable L b N cfg (upd_neighbor i nb3 sp)" by simp
  have p2: "process_message alive order m2 (upd_neighbor i nb3 sp) now nb3 =
      (nb4, send_locrib alive (upd_neighbor i nb3 sp) order nb4)" for alive and order :: "'n rib \<Rightarrow> 'n nlri list" and now
    unfolding nb4_def by (rule keepalive_establishes) (simp_all add: nb3_def opened_def m2(2))
  then show "process_message alive order m2 (upd_neighbor i nb3 sp) now nb3 =
      (nb4, send_locrib alive (upd_neighbor i nb3 sp) order nb4)" .
  have "sys_step L b (upd_neighbor i nb3 sp) (upd_neighbor i nb4 (upd_neighbor i nb3 sp))"
    by (rule step_message [OF _ m2(1)]) (use i p2 [THEN trans] in \<open>simp_all\<close>, rule prod.collapse [symmetric])
  from reach_step [OF r3 this] show "reachable L b N cfg (upd_neighbor i nb4 sp)" by simp
qed

text \<open>Frames with an OPEN of a peer without capabilities to announce but the one for IPv4, and with a KEEPALIVE.\<close>

lemma peer_frames:
  assumes "ipnet_laws L"
  shows "\<exists>f. message_from_bytes b L f = Ok \<lparr>message_type = MT_Open,
      body = MB_Open (open_norm (open_new asn rid hold capabilities_default))\<rparr>"
    and "\<exists>g. message_from_bytes b L g = Ok \<lparr>message_type = MT_Keepalive, body = MB_Keepalive\<rparr>"
proof -
  have fams: "length (announced_families capabilities_default) \<le> 42"
    by (simp add: announced_families_def capabilities_default_def)
  obtain c1 where open1: "send_open L asn rid hold capabilities_default \<lparr>conn_out = [], conn_open = True\<rparr> = Ok c1"
    using send_open_ok [OF _ fams, of "\<lparr>conn_out = [], conn_open = True\<rparr>" L asn rid hold] by auto
  obtain c2 where ka: "send_keepalive L \<lparr>conn_out = [], conn_open = True\<rparr> = Ok c2"
    using send_keepalive_ok [of "\<lparr>conn_out = [], conn_open = True\<rparr>" L] by auto
  show "\<exists>f. message_from_bytes b L f = Ok \<lparr>message_type = MT_Open,
      body = MB_Open (open_norm (open_new asn rid hold capabilities_default))\<rparr>"
    using ipnet_laws.send_open_wire [OF assms fams open1] by auto
  show "\<exists>g. message_from_bytes b L g = Ok \<lparr>message_type = MT_Keepalive, body = MB_Keepalive\<rparr>"
    using ipnet_laws.send_keepalive_wire [OF assms ka] by auto
qed

lemma peer_capabilities:
  "neighbor_capabilities_from (capabilities_from_params (params (om_opt_params
      (open_norm (open_new asn rid hold capabilities_default))))) =
    Ok (capabilities_default\<lparr>multiprotocol := Some [ipv4_unicast]\<rparr>)"
  using open_new_negotiated [of capabilities_default asn rid hold]
  by (simp add: announced_families_def capabilities_default_def ipv4_unicast_def)

end
