(* ===== verification/Wire_Properties.thy ===== *)
theory Wire_Properties
  imports Protocol
begin

text \<open>
  The properties of the wire format: framing, messages, prefixes, attributes, capabilities.
\<close>

section \<open>Concrete data for the witnesses\<close>

definition net8 :: "ref_net nlri" where
  "net8 = \<lparr>net = ref4 167772160 8\<rparr>"

definition path1 :: aspath where
  "path1 = [\<lparr>segment_type = AsSequence, as_list = [10]\<rparr>]"

definition update1 :: "ref_net update_message" where
  "update1 = \<lparr>withdrawn_routes = [], path_attributes = [pa_origin Igp, pa_aspath path1], um_nlri = [net8]\<rparr>"

definition message1 :: "ref_net message" where
  "message1 = \<lparr>message_type = MT_Update, body = MB_Update update1\<rparr>"

lemma net8_simps [simp]:
  "net_addr ref_ipnet (net net8) = V4 167772160" "net_prefix_len ref_ipnet (net net8) = 8"
  "net_network ref_ipnet (net net8) = V4 167772160" "nlri_afi ref_ipnet net8 = Ipv4"
  "nlri_wire ref_ipnet net8 = [8, 10]" "nlri_canon ref_ipnet net8 = net8"
proof -
  show *: "net_addr ref_ipnet (net net8) = V4 167772160" "net_prefix_len ref_ipnet (net net8) = 8"
    by (simp_all add: net8_def ref_ipnet_def)
  show net: "net_network ref_ipnet (net net8) = V4 167772160"
    by (simp add: ref.network_eq * clear_host_def)
  show "nlri_afi ref_ipnet net8 = Ipv4"
    by (simp add: nlri_afi_def ipnet_afi_def net)
  show "nlri_wire ref_ipnet net8 = [8, 10]"
    by (simp add: nlri_wire_def net * to_be_def nat_be_numeral)
  show "nlri_canon ref_ipnet net8 = net8"
    by (simp add: ref.nlri_canon_id net *)
qed

lemma valid_message1: "valid_message ref_ipnet message1"
  by (simp add: valid_message_def message1_def update1_def valid_update_def valid_attr_def pa_origin_def
      pa_aspath_def path1_def valid_segment_def aspath_segment_to_bytes_def)

lemma message1_bytes:
  "message_to_bytes ref_ipnet message1 = Ok [2, 0, 0, 0, 11, 64, 1, 1, 0, 64, 2, 4, 2, 1, 0, 10, 8, 10]"
  by (simp add: message_to_bytes_def message1_def update_to_bytes_def ref.nlris_to_bytes_wire ref.nlri_to_bytes_wire update1_def
      path_attribute_to_bytes_def pa_origin_def pa_aspath_def attr_flags_def path1_def
      aspath_segment_to_bytes_def to_be_def nat_be_numeral as_u16_def as_u8_def Let_def)

section \<open>Messages and the wire\<close>

text \<open>C1: a message of valid content that is printed and framed by the encoder is cut out of the
  stream by the decoder, whatever follows it, and parsed back to the same message: prefixes as their
  network addresses, the attributes' extended-length flag recomputed, an OPEN's parameter length one
  more, a NOTIFICATION's data dropped.\<close>

theorem message_roundtrip:
  assumes "ipnet_laws L" and "valid_message L m" and "message_to_bytes L m = Ok data"
    and "codec_encode data buf = Ok out"
  shows "\<exists>f. out = buf @ f \<and> codec_decode (f @ rest) = Ok (Some f, rest)
    \<and> message_from_bytes b L f = Ok (message_norm L m)"
  using ipnet_laws.message_wire_roundtrip [OF assms] .

theorem message_roundtrip_witness:
  "\<exists>f. codec_decode (f @ [7]) = Ok (Some f, [7]) \<and> message_from_bytes Release ref_ipnet f =
    Ok (message_norm ref_ipnet message1)"
proof -
  have "\<exists>out. codec_encode [2, 0, 0, 0, 11, 64, 1, 1, 0, 64, 2, 4, 2, 1, 0, 10, 8, 10] [] = Ok out"
    by (simp add: codec_encode_def validate_message_length_def MIN_MESSAGE_LENGTH_def MAX_MESSAGE_LENGTH_def
        MARKER_def Let_def)
  then show ?thesis
    using message_roundtrip [OF ref.ipnet_laws_axioms valid_message1 message1_bytes, of "[]" _ "[7]" Release] by blast
qed

text \<open>C2: however a stream of frames is cut into pieces on the way, the decoder delivers exactly the
  frames, in order, and keeps the incomplete one.\<close>

theorem stream_reassembly:
  assumes "\<forall>f \<in> set fs. frame f" and "partial_frame p" and "concat cs = concat fs @ p"
  shows "feed [] cs = Ok (fs, p)"
  using feed_concat [OF assms(1,2), of "[]" cs] assms(3) by (simp add: codec_decode_short)

definition keepalive_frame :: bytes where
  "keepalive_frame = replicate 16 255 @ [0, 19, 4]"

lemma keepalive_frame: "frame keepalive_frame"
  by (simp add: frame_def keepalive_frame_def MARKER_def nth_append message_type_from_u8_def from_be_def be_nat_def)

theorem stream_reassembly_witness:
  "feed [] [keepalive_frame @ [255], replicate 15 255 @ [0, 19], [4], [255]] =
    Ok ([keepalive_frame, keepalive_frame], [255])"
proof (rule stream_reassembly)
  show "partial_frame [255]"
    unfolding partial_frame_def
    by (rule exI [of _ "tl keepalive_frame"]) (use keepalive_frame in \<open>simp add: keepalive_frame_def numeral_nat\<close>)
qed (simp_all add: keepalive_frame, simp add: keepalive_frame_def numeral_nat)

text \<open>C3: the decoder takes frames off the front of the buffer and nothing else: what it delivers,
  followed by what it keeps, is what it was given; every delivered frame is well formed; and no input
  makes it panic.\<close>

theorem decoder_sound:
  "\<not> panics (decode_frames src) \<and> (\<forall>fs rest. decode_frames src = Ok (fs, rest) \<longrightarrow>
    src = concat fs @ rest \<and> (\<forall>f \<in> set fs. frame f))"
  using decode_frames_no_panic [of src] decode_frames_sound [of src] by blast

theorem decoder_sound_witness:
  "decode_frames (keepalive_frame @ [255]) = Ok ([keepalive_frame], [255]) \<and> frame keepalive_frame"
proof -
  have "decode_frames (keepalive_frame @ [255]) = Ok ([keepalive_frame], [255])"
    using decode_frames_concat [of "[keepalive_frame]" "[255]"] keepalive_frame by (simp add: codec_decode_short)
  then show ?thesis using decoder_sound [of "keepalive_frame @ [255]"] by auto
qed

text \<open>C4: a prefix that is printed and parsed again becomes its network with the same length, and
  exactly the prefixes without host bits come back unchanged.\<close>

theorem prefix_roundtrip:
  assumes "ipnet_laws L"
  shows "\<exists>bs n'. nlri_to_bytes L n = Ok bs \<and> nlri_from_octets L (nlri_afi L n) bs = Ok n'
    \<and> net_addr L (net n') = net_network L (net n) \<and> net_prefix_len L (net n') = net_prefix_len L (net n)
    \<and> (n' = n \<longleftrightarrow> net_addr L (net n) = net_network L (net n))"
proof -
  note l = ipnet_laws.nlri_to_bytes_wire [OF assms] ipnet_laws.nlri_from_octets_wire [OF assms]
      ipnet_laws.nlri_canon_parts [OF assms] ipnet_laws.nlri_canon_id [OF assms]
  show ?thesis
    by (intro exI [of _ "nlri_wire L n"] exI [of _ "nlri_canon L n"]) (simp add: l)
qed

theorem prefix_roundtrip_witness:
  "\<exists>bs n'. nlri_to_bytes ref_ipnet net8 = Ok bs \<and> nlri_from_octets ref_ipnet (nlri_afi ref_ipnet net8) bs = Ok n'
    \<and> n' = net8"
  using prefix_roundtrip [OF ref.ipnet_laws_axioms, of net8] by auto

text \<open>C5: an attribute of valid content that is not a multiprotocol one is printed and parsed back,
  in either build, but for its extended-length flag, which becomes whether the value needs it.\<close>

theorem attribute_roundtrip:
  assumes "valid_attr a"
  shows "\<exists>bs. path_attribute_to_bytes L a = Ok bs
    \<and> path_attribute_from_bytes b L bs = Ok (a\<lparr>extended_length := 255 < value_len (attr_value a)\<rparr>)"
  using path_attribute_to_bytes_Ok [OF assms, of L] path_attribute_roundtrip_aux [OF assms] by blast

definition long_path :: aspath where
  "long_path = [\<lparr>segment_type = AsSequence, as_list = replicate 200 7\<rparr>]"

theorem attribute_roundtrip_witness:
  "\<exists>bs. path_attribute_to_bytes ref_ipnet (pa_aspath long_path) = Ok bs \<and>
    path_attribute_from_bytes Debug ref_ipnet bs = Ok ((pa_aspath long_path)\<lparr>extended_length := True\<rparr>)"
proof -
  have "length (concat (map aspath_segment_to_bytes long_path)) = 402"
    by (simp add: long_path_def aspath_segment_to_bytes_def del: map_replicate)
  then have "valid_attr (pa_aspath long_path :: ref_net path_attribute)"
    and "255 < value_len (attr_value (pa_aspath long_path :: ref_net path_attribute))"
    by (simp_all add: valid_attr_def pa_aspath_def valid_segment_def) (simp add: long_path_def)
  then show ?thesis
    using attribute_roundtrip [of "pa_aspath long_path :: ref_net path_attribute" ref_ipnet Debug] by simp
qed

text \<open>C6: an OPEN made from the capabilities of a session carries them: the peer that parses it,
  whatever bytes come before and after it on the stream, negotiates exactly the announced address
  families, each once, and nothing else.\<close>

theorem open_negotiation:
  assumes "ipnet_laws L" and "announced_families caps \<noteq> []" and "length (announced_families caps) \<le> 42"
    and "send_open L asn rid hold caps c = Ok c'"
  shows "\<exists>f m. conn_out c' = conn_out c @ f
    \<and> read_message b L (f @ rest) = Ok (Some \<lparr>message_type = MT_Open, body = MB_Open m\<rparr>, rest)
    \<and> om_asn m = asn \<and> om_router_id m = rid \<and> om_hold_time m = hold
    \<and> neighbor_capabilities_from (capabilities_from_params (params (om_opt_params m))) =
        Ok (capabilities_default\<lparr>multiprotocol := Some (unique_from [] (announced_families caps))\<rparr>)"
proof -
  obtain f where "sends c c' f" and "read_message b L (f @ rest) =
      Ok (Some \<lparr>message_type = MT_Open, body = MB_Open (open_norm (open_new asn rid hold caps))\<rparr>, rest)"
    using ipnet_laws.send_open_wire [OF assms(1,3,4)] by blast
  moreover have "om_asn (open_norm m) = om_asn m" "om_router_id (open_norm m) = om_router_id m"
    "om_hold_time (open_norm m) = om_hold_time m" for m
    by (simp_all add: open_norm_def)
  ultimately show ?thesis
    using open_new_negotiated [OF assms(2), of asn rid hold] open_new_fields [of asn rid hold caps]
    by (intro exI [of _ f] exI [of _ "open_norm (open_new asn rid hold caps)"]) (simp add: sends_def)
qed

definition two_families :: neighbor_capabilities where
  "two_families = capabilities_default\<lparr>multiprotocol :=
     Some [\<lparr>afi = Ipv6, safi = NLRIUnicast\<rparr>, \<lparr>afi = Ipv4, safi = NLRIUnicast\<rparr>]\<rparr>"

theorem open_negotiation_witness:
  "\<exists>f m. read_message Debug ref_ipnet (f @ []) = Ok (Some \<lparr>message_type = MT_Open, body = MB_Open m\<rparr>, [])
    \<and> om_router_id m = 33686018
    \<and> neighbor_capabilities_from (capabilities_from_params (params (om_opt_params m))) = Ok two_families"
proof -
  obtain c' where "send_open ref_ipnet 42 33686018 3 two_families \<lparr>conn_out = [], conn_open = True\<rparr> = Ok c'"
    by (simp add: send_open_def to_wire_def message_to_bytes_def message_new_def framed_send_def codec_encode_def
        open_to_bytes_def open_new_def two_families_def opt_params_to_bytes_def opt_params_new_def
        opt_param_to_bytes_def capability_to_bytes_def capability_multiprotocol_to_bytes_def
        validate_message_length_def MIN_MESSAGE_LENGTH_def MAX_MESSAGE_LENGTH_def Let_def)
  from open_negotiation [OF ref.ipnet_laws_axioms _ _ this, of Debug "[]"] show ?thesis
    by (simp add: announced_families_def two_families_def) blast
qed

text \<open>C7: the parser of MP_UNREACH_NLRI never panics, on any input; the loop of MP_REACH_NLRI does
  what that of MP_UNREACH_NLRI does, except that where the latter reports a prefix cut off by the end
  of the data the former panics.\<close>

theorem multiprotocol_parsers:
  "\<not> panics (mpunlri_from_bytes L src)
    \<and> (if too_short (mp_unreach_loop L a src n i acc) then panics (mp_reach_loop L a src n i acc)
       else mp_reach_loop L a src n i acc = mp_unreach_loop L a src n i acc)"
  using mpunlri_from_bytes_no_panic mp_reach_loop_eq by blast

text \<open>C8: an UPDATE whose last announced prefix is cut short panics the task that parses it: any run
  of well-formed withdrawn prefixes, attributes and announced prefixes, followed by a proper part of
  one more prefix, is enough.\<close>

theorem truncated_prefix_panics:
  assumes "ipnet_laws L" and "valid_update L m" and "update_to_bytes L m = Ok bs"
    and "length bs < 65536" and "nlri_afi L n = Ipv4" and "nlri_to_bytes L n = Ok w" and "0 < k" and "k < length w"
  shows "update_from_bytes b L (bs @ take k w) = Panic SliceOutOfBounds"
proof -
  let ?wd = "concat (map (nlri_wire L) (withdrawn_routes m))" and ?pa = "concat (map (attr_wire L) (path_attributes m))"
    and ?nl = "concat (map (nlri_wire L) (um_nlri m))"
  have v: "\<forall>n \<in> set (withdrawn_routes m). nlri_afi L n = Ipv4" "\<forall>n \<in> set (um_nlri m). nlri_afi L n = Ipv4"
    "\<forall>a \<in> set (path_attributes m). valid_attr a"
    using assms(2) by (simp_all add: valid_update_def)
  have bs: "bs = (to_be 2 (as_u16 (length ?wd)) @ ?wd @ to_be 2 (as_u16 (length ?pa)) @ ?pa) @ ?nl"
    using assms(3) ipnet_laws.update_to_bytes_wire [OF assms(1) v(3)] by (simp add: Let_def)
  have len: "length ?wd < 65536" "length ?pa < 65536"
    using assms(4) unfolding bs by simp_all
  have w: "w = nlri_wire L n" using assms(6) by (simp add: ipnet_laws.nlri_to_bytes_wire [OF assms(1)])
  show ?thesis
    using ipnet_laws.update_truncated_panics [OF assms(1) v(1,3) len refl v(2) assms(5,7) assms(8) [unfolded w]]
    by (simp add: bs w)
qed

theorem truncated_prefix_panics_witness:
  "update_from_bytes Release ref_ipnet ([0, 0, 0, 11, 64, 1, 1, 0, 64, 2, 4, 2, 1, 0, 10, 8, 10] @ [8]) =
    Panic SliceOutOfBounds"
proof -
  have "update_to_bytes ref_ipnet update1 = Ok [0, 0, 0, 11, 64, 1, 1, 0, 64, 2, 4, 2, 1, 0, 10, 8, 10]"
    using message1_bytes by (auto simp: message_to_bytes_def message1_def bind_eq_Ok)
  moreover have "valid_update ref_ipnet update1"
    using valid_message1 by (simp add: valid_message_def message1_def)
  moreover have "nlri_to_bytes ref_ipnet net8 = Ok [8, 10]"
    by (simp add: ref.nlri_to_bytes_wire)
  ultimately show ?thesis
    using truncated_prefix_panics [OF ref.ipnet_laws_axioms, of update1 _ net8 "[8, 10]" 1 Release] by simp
qed

lemma mp_reach_attribute_lost:
  assumes "ipnet_laws L"
  shows "\<exists>bs. path_attribute_to_bytes L (pa_mp_reachable fam hop ns) = Ok bs
    \<and> path_attribute_from_bytes b L bs =
       Ok ((pa_mp_reachable fam hop ns)\<lparr>attr_value := PV_MPReachableNLRI mpnlri_default,
          extended_length := 255 < Suc (length (mpnlri_body L \<lparr>af = fam, nh = hop, nlris = ns\<rparr>))\<rparr>)"
proof -
  let ?v = "\<lparr>af = fam, nh = hop, nlris = ns\<rparr>" and ?a = "pa_mp_reachable fam hop ns"
  obtain bs where bs: "path_attribute_to_bytes L ?a = Ok bs"
    by (simp add: path_attribute_to_bytes_def pa_mp_reachable_def ipnet_laws.mpnlri_to_bytes_body [OF assms] Let_def)
  have "path_attribute_from_bytes b L bs = Ok (?a\<lparr>extended_length := 255 < Suc (length (mpnlri_body L ?v)),
      attr_value := PV_MPReachableNLRI mpnlri_default\<rparr>)"
    by (rule ipnet_laws.mp_attr_lost [OF assms _ _ bs]) (simp_all add: pa_mp_reachable_def)
  with bs show ?thesis by simp
qed

lemma reserved_byte_default_route:
  assumes "ipnet_laws L" and "\<forall>n \<in> set ns. nlri_afi L n = a" and "ip_afi hop = a"
    and "v = to_be 2 (afi_code a) @ safi_code s # next_hop_to_bytes hop @ 0 # concat (map (nlri_wire L) ns)"
    and "length v \<le> 255"
  shows "\<exists>d. mpnlri_from_bytes L (as_u8 (length v) # v) =
      Ok \<lparr>af = \<lparr>afi = a, safi = s\<rparr>, nh = hop, nlris = d # map (nlri_canon L) ns\<rparr>
    \<and> net_prefix_len L (net d) = 0"
  using ipnet_laws.mp_reach_reserved_byte [OF assms] ipnet_laws.default_route_parts(2) [OF assms(1), of a] by blast

text \<open>C9: how multiprotocol routes are lost and made up.  An MP_REACH_NLRI attribute does not survive the wire:
  whatever family, next hop and prefixes it is printed with, parsing what was printed gives an attribute of the
  same type and flags that is about IPv6 unicast, with next hop \<open>::\<close> and no prefix.  And a standard MP_REACH_NLRI value, with the
  reserved byte RFC 4760 puts between the next hop and the prefixes, is read as announcing the default
  route of its family besides its prefixes.\<close>

theorem mp_reach_on_the_wire:
  assumes "ipnet_laws L" and "\<forall>n \<in> set ns. nlri_afi L n = a" and "ip_afi hop = a"
    and "v = to_be 2 (afi_code a) @ safi_code s # next_hop_to_bytes hop @ 0 # concat (map (nlri_wire L) ns)"
    and "length v \<le> 255"
  shows "(\<exists>bs. path_attribute_to_bytes L (pa_mp_reachable fam hop' ns') = Ok bs
      \<and> path_attribute_from_bytes b L bs =
         Ok ((pa_mp_reachable fam hop' ns')\<lparr>
            attr_value := PV_MPReachableNLRI \<lparr>af = \<lparr>afi = Ipv6, safi = NLRIUnicast\<rparr>, nh = V6 0, nlris = []\<rparr>,
            extended_length := 255 < Suc (length (mpnlri_body L \<lparr>af = fam, nh = hop', nlris = ns'\<rparr>))\<rparr>))
    \<and> (\<exists>d. mpnlri_from_bytes L (as_u8 (length v) # v) =
        Ok \<lparr>af = \<lparr>afi = a, safi = s\<rparr>, nh = hop, nlris = d # map (nlri_canon L) ns\<rparr>
      \<and> net_prefix_len L (net d) = 0)"
  using mp_reach_attribute_lost [OF assms(1)] reserved_byte_default_route [OF assms]
  unfolding mpnlri_default_def by blast

theorem mp_reach_on_the_wire_witness:
  "(\<exists>bs. path_attribute_to_bytes ref_ipnet (pa_mp_reachable \<lparr>afi = Ipv4, safi = NLRIUnicast\<rparr> (V4 1) [net8]) = Ok bs
      \<and> path_attribute_from_bytes Debug ref_ipnet bs =
        Ok ((pa_mp_reachable \<lparr>afi = Ipv4, safi = NLRIUnicast\<rparr> (V4 1) [net8])\<lparr>
            attr_value := PV_MPReachableNLRI \<lparr>af = \<lparr>afi = Ipv6, safi = NLRIUnicast\<rparr>, nh = V6 0, nlris = []\<rparr>\<rparr>))
    \<and> (\<exists>d. mpnlri_from_bytes ref_ipnet [11, 0, 1, 1, 4, 10, 0, 0, 1, 0, 8, 10] =
        Ok \<lparr>af = \<lparr>afi = Ipv4, safi = NLRIUnicast\<rparr>, nh = V4 167772161, nlris = [d, net8]\<rparr>
      \<and> net_prefix_len ref_ipnet (net d) = 0)"
  using mp_reach_on_the_wire [OF ref.ipnet_laws_axioms, of "[net8]" Ipv4 "V4 167772161"
      "[0, 1, 1, 4, 10, 0, 0, 1, 0, 8, 10]" NLRIUnicast "\<lparr>afi = Ipv4, safi = NLRIUnicast\<rparr>" "V4 1" "[net8]" Debug]
  by (simp add: ip_afi_def to_be_def nat_be_numeral as_u8_def mpnlri_body_def pa_mp_reachable_def)

text \<open>C10: debug and release builds parse the same attributes: on any input that fits an address space,
  either both return the same attribute or both panic, although the remaining length of an AS path
  that is cut in the middle of a segment wraps around in a release build.\<close>

theorem attribute_build_independent:
  assumes "length src < 2 ^ 64"
  shows "agree (path_attribute_from_bytes Release L src) (path_attribute_from_bytes Debug L src)"
  using path_attribute_build [OF assms] .

theorem attribute_build_independent_witness:
  "agree (path_attribute_from_bytes Release ref_ipnet [64, 2, 3, 2, 1, 0, 10]) (path_attribute_from_bytes Debug ref_ipnet [64, 2, 3, 2, 1, 0, 10])"
  using attribute_build_independent [of "[64, 2, 3, 2, 1, 0, 10]" ref_ipnet] by simp

text \<open>C11: which capabilities of a peer's OPEN panic the session's task: a multiprotocol capability
  that claims four bytes and holds fewer, a four-octet AS number that is not four bytes long, and no
  others.  Any other list of capabilities is taken, and the families the session then has are those
  its multiprotocol capabilities name, each once; it has none set when they name none.\<close>

theorem capability_panics:
  "(panics (neighbor_capabilities_from cs) \<longleftrightarrow>
      (\<exists>c \<in> set cs. capability_code c = CC_Multiprotocol \<and> 4 \<le> capability_length c \<and> length (capability_value c) < 4
        \<or> capability_code c = CC_FourOctectASN \<and> (capability_length c \<noteq> 4 \<or> length (capability_value c) \<noteq> 4)))
    \<and> (\<not> panics (neighbor_capabilities_from cs) \<longrightarrow>
      (\<exists>caps. neighbor_capabilities_from cs = Ok caps
        \<and> (case multiprotocol caps of None \<Rightarrow> named_families cs = []
            | Some fams \<Rightarrow> distinct fams \<and> fams \<noteq> [] \<and> set fams = set (named_families cs))))"
  using neighbor_capabilities_panics [of cs] neighbor_capabilities_families [of cs]
  unfolding bad_capability_def by blast

theorem capability_panics_witness:
  "\<exists>caps. neighbor_capabilities_from
        [\<lparr>capability_code = CC_RouteRefresh, capability_length = 0, capability_value = []\<rparr>,
         \<lparr>capability_code = CC_Multiprotocol, capability_length = 4, capability_value = [0, 2, 0, 1]\<rparr>] = Ok caps
      \<and> (\<exists>fams. multiprotocol caps = Some fams \<and> set fams = {\<lparr>afi = Ipv6, safi = NLRIUnicast\<rparr>})"
proof -
  let ?cs = "[\<lparr>capability_code = CC_RouteRefresh, capability_length = 0, capability_value = []\<rparr>,
    \<lparr>capability_code = CC_Multiprotocol, capability_length = 4, capability_value = [0, 2, 0, 1]\<rparr>]"
  have fams: "named_families ?cs = [\<lparr>afi = Ipv6, safi = NLRIUnicast\<rparr>]"
    by code_simp
  from capability_panics [of ?cs] obtain caps where "neighbor_capabilities_from ?cs = Ok caps"
    "case multiprotocol caps of None \<Rightarrow> named_families ?cs = []
      | Some fams \<Rightarrow> distinct fams \<and> fams \<noteq> [] \<and> set fams = set (named_families ?cs)"
    by auto
  with fams show ?thesis by (auto split: option.splits)
qed

end
