(* ===== verification/Routing_Properties.thy ===== *)
theory Routing_Properties
  imports Wire_Properties
begin

text \<open>
  The properties of route ranking, of the local RIB and of the kernel's table.
\<close>

section \<open>Concrete data for the witnesses\<close>

definition fib8 :: "(ref_net, unit, unit) fib" where
  "fib8 = \<lparr>fib_af = ipv4_unicast, fib_routes = [\<lparr>fe_prefix = Some (ref4 0 0), fe_next_hop = None, fe_dev = None,
     fe_metric = None, fe_proto = (), fe_rm = ()\<rparr>]\<rparr>"

definition route_of :: "u32 \<Rightarrow> aspath \<Rightarrow> route_attributes" where
  "route_of peer path = (ra_default 0)\<lparr>peer_rid := peer, as_path := path, next_hop := V4 7\<rparr>"

lemma fib_routes_fib8: "fib_routes fib8 = [\<lparr>fe_prefix = Some (ref4 0 0), fe_next_hop = None, fe_dev = None,
    fe_metric = None, fe_proto = (), fe_rm = ()\<rparr>]"
  by (simp add: fib8_def)

lemma has_route_fib8 [simp]: "has_route ref_ipnet fib8 (V4 x) = True"
  by (simp add: has_route_def fib8_def ref.contains_iff ref.network_eq)
    (simp add: ref_ipnet_def clear_host_def)

section \<open>Ranking\<close>

text \<open>C12: routes are totally ranked: the comparison is the one of a key, local preference first, then
  internal before external, the shorter AS path, the later origin code, the larger discriminator,
  external before internal peering, the younger route among external ones, the larger router id and
  address; so it is reflexive, reversible and transitive, and sorting by it is well defined and stable.\<close>

theorem ranking_total:
  "ra_cmp a b = compare (ra_key a) (ra_key b)
    \<and> ra_cmp a a = Equal \<and> ra_cmp b a = reverse_ordering (ra_cmp a b)
    \<and> (ra_cmp a b = Less \<and> ra_cmp b c \<noteq> Greater \<longrightarrow> ra_cmp a c = Less)
    \<and> (mset ys = mset xs \<and> sorted_wrt (\<lambda>a b. ra_cmp a b \<noteq> Greater) ys
        \<and> (\<forall>x. filter (\<lambda>y. ra_cmp x y = Equal) ys = filter (\<lambda>y. ra_cmp x y = Equal) xs)
      \<longrightarrow> ys = sort_by ra_cmp xs)"
  by (intro conjI impI ra_cmp_key ra.cmp_refl ra.cmp_reverse ra.sort_by_unique) (blast intro: ra.cmp_trans_less)+

theorem ranking_total_witness:
  "[route_of 1 path1, route_of 2 []] = sort_by ra_cmp [route_of 2 [], route_of 1 path1]
    \<and> ra_cmp (route_of 1 path1) (route_of 3 []) = Less"
proof
  have k: "ra_cmp (route_of 1 path1) (route_of 2 []) = Less" "ra_cmp (route_of 2 []) (route_of 1 path1) = Greater"
    by (simp_all add: ra_cmp_def compare_def route_of_def ra_default_def path_len_def path1_def aspath_segment_len_def)
  have "filter (\<lambda>y. ra_cmp x y = Equal) [route_of 1 path1, route_of 2 []] =
      filter (\<lambda>y. ra_cmp x y = Equal) [route_of 2 [], route_of 1 path1]" for x
    using k by (auto simp: ra_cmp_key)
  then show "[route_of 1 path1, route_of 2 []] = sort_by ra_cmp [route_of 2 [], route_of 1 path1]"
    using ranking_total [of "route_of 1 path1" "route_of 1 path1" "route_of 1 path1"
        "[route_of 1 path1, route_of 2 []]" "[route_of 2 [], route_of 1 path1]"] k by auto
  have "ra_cmp (route_of 2 []) (route_of 3 []) \<noteq> Greater"
    by (simp add: ra_cmp_def compare_def route_of_def ra_default_def path_len_def)
  then show "ra_cmp (route_of 1 path1) (route_of 3 []) = Less"
    using ranking_total [of "route_of 1 path1" "route_of 2 []" "route_of 3 []" "[]" "[]"] k by blast
qed

text \<open>C13: equal routes hash alike, as a hash map needs, and routes of equal rank are equal; but
  equality does not look at the path itself, the next hop or the peer, so routes that differ in all
  of them and in rank are equal.\<close>

theorem equality_and_hash:
  "(ra_eq a b \<longleftrightarrow> ra_hash_input a = ra_hash_input b) \<and> (ra_cmp a b = Equal \<longrightarrow> ra_eq a b)
    \<and> ra_eq a (a\<lparr>next_hop := h, peer_rid := r, peer_ip := i, peer_type := t, path_type := p, recv_time := n\<rparr>)
    \<and> (path_len a = path_len b \<longrightarrow> ra_eq a (a\<lparr>as_path := as_path b\<rparr>))"
  using ra_eq_hash [of a b] ra_cmp_Equal_eq [of a b] by (auto simp: ra_eq_def path_len_def)

theorem equality_and_hash_witness:
  "ra_eq (route_of 1 path1) ((route_of 1 path1)\<lparr>as_path := [\<lparr>segment_type = AsSet, as_list = [1, 2]\<rparr>]\<rparr>)"
proof -
  let ?set = "[\<lparr>segment_type = AsSet, as_list = [1, 2]\<rparr>]"
  have "path_len (route_of 1 path1) = path_len (route_of 1 ?set)" and "as_path (route_of 1 ?set) = ?set"
    by (simp_all add: route_of_def ra_default_def path_len_def path1_def aspath_segment_len_def)
  then show ?thesis
    using equality_and_hash [of "route_of 1 path1" "route_of 1 ?set"] by simp
qed

section \<open>The local RIB\<close>

text \<open>C14: whatever events a RIB manager handles, with whatever state of the FIB at each of them, every
  entry of its RIB holds at least one route, best first, and no route with the local AS in its path.\<close>

theorem rib_invariant:
  "rib_ok asn (rib_run L asn order events (\<lambda>_. None))"
  by (rule rib_run_invariant) simp

text \<open>C15: announcing prefixes adds the route to each of them, ranked, unless the local AS is in its
  path; and it is passed on for exactly the prefixes where it is usable and better than the best
  reachable route so far, where it then is the best reachable one.\<close>

theorem announce:
  assumes "rib_ok asn rib" and "distinct (ru_nlris routes)"
    and "loc_rib_added L fib asn routes rib = (rib', changed)" and "a = ru_attributes routes"
  shows "(\<forall>n. rib' n = (if n \<in> set (ru_nlris routes) \<and> is_valid asn a
      then Some (case rib n of None \<Rightarrow> [a] | Some as \<Rightarrow> rev (sort_by ra_cmp (as @ [a]))) else rib n))
    \<and> set changed = {(n, Some a) | n. n \<in> set (ru_nlris routes) \<and> improves L fib asn a rib n}
    \<and> (\<forall>n. (n, Some a) \<in> set changed \<longrightarrow> rib_best L fib rib' n = Some a)"
proof -
  have eq: "rib' = (\<lambda>n. if n \<in> set (ru_nlris routes) \<and> is_valid asn a then rib_insert a rib n else rib n)"
    "changed = map (\<lambda>n. (n, Some a)) (filter (improves L fib asn a rib) (ru_nlris routes))"
    using assms(3) fold_add [OF assms(2), of L fib asn a rib "[]"] by (simp_all add: loc_rib_added_def assms(4))
  have "rib_best L fib rib' n = Some a" if n: "n \<in> set (ru_nlris routes)" "improves L fib asn a rib n" for n
  proof -
    have v: "is_valid asn a" using n by (simp add: improves_def)
    have "rib_best L fib (\<lambda>n. rib_insert a rib n) n = Some a"
      using rib_best_insert [OF assms(1) v, of L fib n] n by simp
    then show ?thesis using n v by (simp add: eq rib_best_def)
  qed
  then show ?thesis
    by (auto simp: eq rib_insert_def rank_insert_def split: option.splits)
qed

theorem announce_witness:
  "\<exists>rib'. loc_rib_added ref_ipnet fib8 5 \<lparr>ru_nlris = [net8], ru_attributes = route_of 1 path1\<rparr> (\<lambda>_. None) =
      (rib', [(net8, Some (route_of 1 path1))])
    \<and> rib_best ref_ipnet fib8 rib' net8 = Some (route_of 1 path1)"
proof -
  obtain rib' where "loc_rib_added ref_ipnet fib8 5 \<lparr>ru_nlris = [net8], ru_attributes = route_of 1 path1\<rparr> (\<lambda>_. None) =
      (rib', [(net8, Some (route_of 1 path1))])"
    by (simp add: loc_rib_added_def add_nlri_def is_valid_def route_of_def path1_def)
  with announce [OF rib_ok_empty _ this refl] show ?thesis by auto
qed

text \<open>C16: withdrawing prefixes for a peer drops exactly its routes to them, and entries that become
  empty; each prefix whose best reachable route was the peer's is reported as gone.\<close>

theorem withdraw:
  assumes "distinct (ru_nlris routes)" and "ru_nlris routes \<noteq> []"
    and "loc_rib_withdraw L fib order routes rib = (rib', changed)" and "peer = peer_rid (ru_attributes routes)"
  shows "(\<forall>n. rib' n = (if n \<in> set (ru_nlris routes) then (case rib n of None \<Rightarrow> None
        | Some as \<Rightarrow> if \<forall>a \<in> set as. peer_rid a = peer then None else Some (filter (\<lambda>a. peer_rid a \<noteq> peer) as))
      else rib n))
    \<and> set changed = {(n, None) | n. n \<in> set (ru_nlris routes)
        \<and> (\<exists>b. rib_best L fib rib n = Some b \<and> peer_rid b = peer)}"
proof -
  have "rib' = (\<lambda>n. if n \<in> set (ru_nlris routes) then rib_prune peer rib n else rib n)"
    "changed = map (\<lambda>n. (n, None)) (filter (\<lambda>n. \<exists>b. rib_best L fib rib n = Some b \<and> peer_rid b = peer) (ru_nlris routes))"
    using assms(2,3) fold_withdraw [OF assms(1), of L fib peer rib "[]"]
    by (simp_all add: loc_rib_withdraw_def to_withdraw_def assms(4))
  then show ?thesis
    by (auto simp: rib_prune_def Let_def filter_empty_conv split: option.splits)
qed

theorem withdraw_witness:
  "\<exists>rib'. loc_rib_withdraw ref_ipnet fib8 [] \<lparr>ru_nlris = [net8], ru_attributes = route_of 1 []\<rparr>
      [net8 \<mapsto> [route_of 1 path1, route_of 2 path1]] = (rib', [(net8, None)])
    \<and> rib' net8 = Some [route_of 2 path1]"
proof -
  obtain rib' where "loc_rib_withdraw ref_ipnet fib8 [] \<lparr>ru_nlris = [net8], ru_attributes = route_of 1 []\<rparr>
      [net8 \<mapsto> [route_of 1 path1, route_of 2 path1]] = (rib', [(net8, None)])"
    by (simp add: loc_rib_withdraw_def to_withdraw_def withdraw_nlri_def best_reachable_def is_from_neighbor_def
        route_of_def Let_def)
  with withdraw [OF _ _ this refl] show ?thesis by (auto simp: route_of_def)
qed

text \<open>C17: the reports of the RIB manager miss a change: when the best route of a prefix is withdrawn
  the neighbors are told that the prefix is gone although the next route takes over, and the next
  route is not announced.\<close>

theorem withdraw_hides_alternative:
  assumes "rib n = Some (a # b # as)" and "has_route L fib (next_hop a)" and "has_route L fib (next_hop b)"
    and "peer_rid a = peer" and "peer_rid b \<noteq> peer"
    and "loc_rib_withdraw L fib order \<lparr>ru_nlris = [n], ru_attributes = w\<rparr> rib = (rib', changed)"
    and "peer_rid w = peer"
  shows "changed = [(n, None)] \<and> rib_best L fib rib' n = Some b"
  using assms fold_withdraw [of "[n]" L fib peer rib "[]"]
  by (auto simp: loc_rib_withdraw_def to_withdraw_def rib_best_def rib_prune_def best_reachable_def Let_def)

theorem withdraw_hides_alternative_witness:
  "\<exists>rib'. loc_rib_withdraw ref_ipnet fib8 [] \<lparr>ru_nlris = [net8], ru_attributes = route_of 1 []\<rparr>
      [net8 \<mapsto> [route_of 1 path1, route_of 2 path1]] = (rib', [(net8, None)])
    \<and> rib_best ref_ipnet fib8 rib' net8 = Some (route_of 2 path1)"
proof -
  obtain rib' changed where *: "loc_rib_withdraw ref_ipnet fib8 [] \<lparr>ru_nlris = [net8], ru_attributes = route_of 1 []\<rparr>
      [net8 \<mapsto> [route_of 1 path1, route_of 2 path1]] = (rib', changed)"
    by fastforce
  show ?thesis
    using withdraw_hides_alternative [OF _ _ _ _ _ *, of "route_of 1 path1" "route_of 2 path1" "[]" 1] *
    by (auto simp: route_of_def)
qed

text \<open>A peer that announces a prefix again does not replace its route: both stay in the RIB, and
  while the old one ranks higher it remains the best.\<close>

lemma no_implicit_withdraw:
  assumes "rib_ok asn rib" and "rib_best L fib rib n = Some old" and "peer_rid old = peer_rid new"
    and "is_valid asn new" and "ra_cmp new old = Less"
    and "loc_rib_added L fib asn \<lparr>ru_nlris = [n], ru_attributes = new\<rparr> rib = (rib', changed)"
  shows "changed = [] \<and> (\<exists>as. rib' n = Some as \<and> old \<in> set as \<and> new \<in> set as)
    \<and> (\<exists>c. rib_best L fib rib' n = Some c \<and> ra_cmp c old = Equal)"
proof -
  have imp: "\<not> improves L fib asn new rib n"
    using assms(2,5) by (simp add: improves_def)
  have eq: "rib' = (\<lambda>m. if m = n then rib_insert new rib m else rib m)" "changed = []"
    using assms(4,6) imp fold_add [of "[n]" L fib asn new rib "[]"]
    by (auto simp: loc_rib_added_def fun_eq_iff)
  obtain as where as: "rib n = Some as" "best_reachable L fib as = Some old"
    using assms(2) by (auto simp: rib_best_def split: option.splits)
  have "old \<in> set as"
    using as best_reachable_Some [of as L fib old] rib_okD [OF assms(1) as(1)] by blast
  moreover have "\<exists>c. rib_best L fib (\<lambda>n. rib_insert new rib n) n = Some c \<and> ra_cmp c old = Equal"
    using rib_best_insert [OF assms(1,4), of L fib n] imp assms(2) by simp
  ultimately show ?thesis
    by (simp add: eq as rib_insert_def rib_best_def)
qed

section \<open>The kernel's table\<close>

text \<open>C18: what \<open>sync\<close> asks of the kernel: for every prefix of the RIB the best reachable route, by
  the same choice as the RIB manager's, unless the table already has it or its next hop is of the
  other family; nothing else is asked, so no route is ever removed.\<close>

theorem sync_requests:
  assumes "nl_connected N" and "set order = dom rib"
  shows "set (sync N L fib rib order) =
    {Route_Add (net_addr L (net n)) (net_prefix_len L (net n)) (next_hop a) | n a.
       rib_best L fib rib n = Some a \<and> same_family (net_addr L (net n)) (next_hop a)
       \<and> \<not> (\<exists>fe \<in> set (fib_routes fib). fe_prefix fe = Some (net n) \<and> fe_next_hop fe = Some (next_hop a))}"
proof -
  have "set (sync N L fib rib order) = (\<Union>n \<in> dom rib. set (sync_entry L fib n (the (rib n))))"
    using assms by (auto simp: sync_def)
  then show ?thesis
    by (auto simp: sync_entry_eq rib_best_def best_reachable_def find_route_None dom_def split: option.splits)
      force+
qed

definition netlink1 :: "(unit, unit, unit) netlink" where
  "netlink1 = \<lparr>nl_connected = True, nl_dump = \<lambda>_. [], nl_link_name = \<lambda>_. None, rtm_prefix_length = \<lambda>_. 0,
     rtm_protocol = \<lambda>_. (), rtm_attributes = \<lambda>_. [], attr_destination = \<lambda>_. None, attr_gateway = \<lambda>_. None,
     attr_oif = \<lambda>_. None\<rparr>"

theorem sync_requests_witness:
  "set (sync netlink1 ref_ipnet fib8 [net8 \<mapsto> [route_of 1 path1]] [net8]) = {Route_Add (V4 167772160) 8 (V4 7)}"
  by (subst sync_requests)
    (auto simp: netlink1_def rib_best_def best_reachable_def route_of_def fib_routes_fib8 split: if_splits option.splits)

end
