(* ===== verification/Session_Properties.thy ===== *)
theory Session_Properties
  imports Routing_Properties
begin

text \<open>
  The properties of sessions: their states, what they may rely on, how two speakers open a session,
  exchange routes and lose each other.
\<close>

section \<open>States\<close>

text \<open>C19: the states of a session: a handler that runs uninterrupted takes a neighbor from one state to another
  only along the transitions listed.  OPENCONFIRM is entered only by an OPEN, read from bytes, that has
  the configured AS number and does not collide, and with its router id, AS number and hold time taken over;
  ESTABLISHED only from OPENCONFIRM, by a KEEPALIVE.  (C38 and C40 show what handlers do that are interrupted.)\<close>

theorem session_transitions:
  fixes sp :: "('n, 'm, 'p) speaker"
  assumes "sys_step L b sp sp'" and "i < length (neighbors sp)"
    and "s = nb_state (neighbors sp ! i)" and "t = nb_state (neighbors sp' ! i)"
  shows "(s = t \<or> t = Idle \<or> t = Connect \<or> (t = Active \<and> s \<in> {Idle, Connect}) \<or> (t = OpenSent \<and> s \<in> {Active, Connect})
      \<or> (t = OpenConfirm \<and> s \<in> {Active, OpenSent}) \<or> (t = Established \<and> s = OpenConfirm))
    \<and> (s \<noteq> t \<and> t = OpenConfirm \<longrightarrow> (\<exists>msg m. message_step L b sp i msg (neighbors sp' ! i) \<and> body msg = MB_Open m
        \<and> remote_asn (neighbors sp ! i) \<in> {None, Some (om_asn m)} \<and> (\<forall>n \<in> set (neighbors sp). \<not> is_opening (om_router_id m) n)
        \<and> remote_rid (neighbors sp' ! i) = Some (om_router_id m) \<and> remote_asn (neighbors sp' ! i) = Some (om_asn m)
        \<and> hold_time (attributes (neighbors sp' ! i)) = om_hold_time m))
    \<and> (s \<noteq> t \<and> t = Established \<longrightarrow> (\<exists>msg. message_step L b sp i msg (neighbors sp' ! i) \<and> body msg = MB_Keepalive))"
proof -
  let ?nb = "neighbors sp ! i" and ?nb' = "neighbors sp' ! i"
  have "good_step ?nb ?nb'"
    using sys_step_cases_neighbor [OF assms(1)] assms(2) by blast
  then have listed: "s = t \<or> t = Idle \<or> t = Connect \<or> (t = Active \<and> s \<in> {Idle, Connect})
      \<or> (t = OpenSent \<and> s \<in> {Active, Connect}) \<or> (t = OpenConfirm \<and> s \<in> {Active, OpenSent}) \<or> (t = Established \<and> s = OpenConfirm)"
    unfolding good_step_def transition_def assms(3,4) by auto
  have entered: "\<exists>msg. message_step L b sp i msg ?nb' \<and>
      (t = OpenConfirm \<longrightarrow> (\<exists>m. body msg = MB_Open m \<and> validate_open m ?nb \<and> \<not> fst (collision_detection m sp)
        \<and> remote_rid ?nb' = Some (om_router_id m) \<and> remote_asn ?nb' = Some (om_asn m)
        \<and> hold_time (attributes ?nb') = om_hold_time m)) \<and> (t = Established \<longrightarrow> body msg = MB_Keepalive)"
    if "s \<noteq> t" "t \<in> {OpenConfirm, Established}"
  proof -
    have "\<not> quiet ?nb ?nb'" using that by (simp add: quiet_def assms(3,4))
    then obtain msg where msg: "message_step L b sp i msg ?nb'" using sys_step_quiet [OF assms(1), of i] by blast
    then obtain alive order now acts r where "process_message alive order msg sp now ?nb = (?nb', acts, r)"
      by (auto simp: message_step_def)
    from process_message_enters [OF this] that msg show ?thesis unfolding assms(3,4) by metis
  qed
  have "remote_asn ?nb \<in> {None, Some (om_asn m)}" if "validate_open m ?nb" for m
    using that by (auto simp: validate_open_def split: option.splits)
  moreover have "\<forall>n \<in> set (neighbors sp). \<not> is_opening (om_router_id m) n" if "\<not> fst (collision_detection m sp)" for m
    using that by (simp add: collision_detection_iff)
  ultimately show ?thesis using listed entered by blast
qed

definition nb1 :: "ref_net neighbor" where
  "nb1 = neighbor_new None None 42 33686018 (Some (V4 9)) (Some 179) (Some 65001) 3 5 Idle (Some [ipv4_unicast])
     Map.empty None False"

definition sp1 :: "(ref_net, unit, unit) speaker" where
  "sp1 = (speaker_new 42 33686018 3 [V4 1] 179 [ipv4_unicast])\<lparr>neighbors := [nb1]\<rparr>"

lemma parse_ip_9: "parse_ip ''0.0.0.9'' = Some (V4 9)"
  by code_simp

theorem session_transitions_witness:
  "\<exists>(sp :: (ref_net, unit, unit) speaker) sp' msg m. sys_step ref_ipnet Debug sp sp' \<and> nb_state (neighbors sp ! 0) = OpenSent
    \<and> nb_state (neighbors sp' ! 0) = OpenConfirm \<and> message_step ref_ipnet Debug sp 0 msg (neighbors sp' ! 0)
    \<and> body msg = MB_Open m \<and> remote_rid (neighbors sp' ! 0) = Some (om_router_id m)"
proof -
  let ?open = "open_norm (open_new 65001 16843009 9 capabilities_default)"
  let ?m = "\<lparr>message_type = MT_Open, body = MB_Open ?open\<rparr> :: ref_net message"
  let ?nb2 = "waiting 5 (accepted (V4 1) 179 nb1)" and ?caps = "capabilities_default\<lparr>multiprotocol := Some [ipv4_unicast]\<rparr>"
  let ?sp = "upd_neighbor 0 ?nb2 sp1" and ?sp' = "upd_neighbor 0 (opened ?open ?caps ?nb2) (upd_neighbor 0 ?nb2 sp1)"
  have n: "neighbors sp1 = [nb1]" by (simp add: sp1_def)
  obtain f where f: "message_from_bytes Debug ref_ipnet f = Ok ?m"
    using peer_frames(1) [OF ref.ipnet_laws_axioms, of Debug 65001 16843009 9] by blast
  have "process_message (\<lambda>_. True) (\<lambda>_. []) ?m ?sp 0 ?nb2 = (opened ?open ?caps ?nb2, [Start_Keepalive_Timer 5], Ok ())"
    by (rule open_accepted) (simp_all add: peer_capabilities open_norm_fields n is_opening_def, simp_all add: nb1_def neighbor_new_def)
  then have step: "sys_step ref_ipnet Debug ?sp ?sp'"
    by (intro step_message [OF _ f]) (simp_all add: n)
  have states: "nb_state (neighbors ?sp ! 0) = OpenSent" "nb_state (neighbors ?sp' ! 0) = OpenConfirm"
    by (simp_all add: n opened_def)
  from session_transitions [OF step _ refl refl, of 0] obtain msg m where
    "message_step ref_ipnet Debug ?sp 0 msg (neighbors ?sp' ! 0)" "body msg = MB_Open m"
    "remote_rid (neighbors ?sp' ! 0) = Some (om_router_id m)"
    unfolding states by (auto simp: n)
  with step states show ?thesis by blast
qed

definition config1 :: config where
  "config1 = \<lparr>cf_asn = 42, cf_rid = 33686018, cf_localips = Some [V4 1], cf_port = None, cf_hold_time = None,
     cf_families = None, cf_neighbors = Some [\<lparr>cn_asn = 65001, cn_ip = ''0.0.0.9'', cn_port = 179, cn_hold_time = None,
       cn_families = None, cn_connect_retry = Some 5, cn_keepalive_interval = None, cn_max_retry_count = None,
       cn_exponential_backoff = False\<rparr>]\<rparr>"

definition started1 :: "(ref_net, unit, unit) speaker" where
  "started1 = sp1\<lparr>sp_rib := [ipv4_unicast \<mapsto> Map.empty], sp_ribtx := [ipv4_unicast \<mapsto> 0],
     sp_fib := [ipv4_unicast \<mapsto> \<lparr>fib_af = ipv4_unicast, fib_routes = []\<rparr>]\<rparr>"

lemma reachable_started1: "reachable ref_ipnet b netlink1 (Some config1) started1"
proof (rule reach_init)
  show "main_setup (Some config1) = Ok sp1"
    by (simp add: main_setup_def read_config_def config1_def option_or_def Let_def add_neighbor_def parse_ip_9
        speaker_new_def sp1_def nb1_def BGP_DEFAULT_PORT_def BGP_DEFAULT_HOLD_TIME_def ipv4_unicast_def)
  show "start netlink1 ref_ipnet sp1 = (started1, [Run_Rib_Mgr ipv4_unicast, Run_Fib_Mgr ipv4_unicast,
      Run_Connect_Mgr, Run_Listen], Ok ())"
    by (simp add: start_def sp1_def speaker_new_def started1_def start_family_def fib_new_def refresh_def
        get_routes_def netlink1_def List.map_filter_def)
qed

section \<open>Established sessions\<close>








lemma started1_neighbor [simp]:
  "neighbors started1 = [nb1]" "nb_state nb1 = Idle" "remote_asn nb1 = Some 65001" "remote_rid nb1 = None" "remote_ip nb1 = Some (V4 9)"
  "remote_port nb1 = Some 179" "multiprotocol (capabilities_advertised nb1) = Some [ipv4_unicast]"
  "length (announced_families (capabilities_advertised nb1)) = 1"
  by (simp_all add: started1_def sp1_def nb1_def neighbor_new_def announced_families_def)

text \<open>The neighbor after the connection attempt of the start, which is refused; a session it then opens with a
  peer that connects; and the same established.\<close>

definition tried1 :: "ref_net neighbor" where
  "tried1 = connect_failed (connect_prepare (sp_ribtx started1) nb1)"

definition opening1 :: "ref_net neighbor" where
  "opening1 = opened (open_norm (open_new 65001 16843009 9 capabilities_default))
     (capabilities_default\<lparr>multiprotocol := Some [ipv4_unicast]\<rparr>) (waiting 5 (accepted (V4 1) 179 tried1))"

definition established1 :: "ref_net neighbor" where
  "established1 = set_state Established (handle_keepalive opening1)"

lemma sessions1 [simp]:
  "nb_state tried1 = Idle" "remote_asn tried1 = Some 65001" "remote_rid tried1 = None" "remote_ip tried1 = Some (V4 9)"
  "capabilities_advertised tried1 = capabilities_advertised nb1" "same_config nb1 tried1"
  "nb_state opening1 = OpenConfirm" "remote_rid opening1 = Some 16843009" "remote_ip opening1 = Some (V4 9)"
  "tx opening1 = Some 5" "remote_asn opening1 = Some 65001" "capabilities_advertised opening1 = capabilities_advertised nb1"
  "multiprotocol (capabilities_received opening1) = Some [ipv4_unicast]"
  "nb_state established1 = Established" "remote_rid established1 = Some 16843009" "remote_ip established1 = Some (V4 9)"
  "tx established1 = Some 5" "remote_asn established1 = Some 65001" "ribtx established1 = sp_ribtx started1"
  "capabilities_advertised established1 = capabilities_advertised nb1"
  by (simp_all add: tried1_def connect_failed_def connect_prepare_def same_config_def opening1_def established1_def
      opened_def handle_keepalive_def set_state_def open_norm_fields waiting_def accepted_def)

lemma reachable1:
  shows "reachable ref_ipnet Debug netlink1 (Some config1) (upd_neighbor 0 tried1 started1)"
    and "reachable ref_ipnet Debug netlink1 (Some config1) (upd_neighbor 0 opening1 started1)"
    and "reachable ref_ipnet Debug netlink1 (Some config1) (upd_neighbor 0 established1 started1)"
proof -
  let ?open = "open_norm (open_new 65001 16843009 9 capabilities_default)" and ?sp = "upd_neighbor 0 tried1 started1"
  have "connect (sp_ribtx started1) (Refused ''refused'') (neighbors started1 ! 0) = (tried1, Err ''Connection failed: refused'')"
    by (simp add: connect_def tried1_def connect_prepare_def)
  then have "sys_step ref_ipnet Debug started1 ?sp" by (intro step_connect) simp_all
  then show tried: "reachable ref_ipnet Debug netlink1 (Some config1) ?sp"
    by (rule reach_step [OF reachable_started1])
  have incoming: "match_incoming (\<lambda>_. True) (V4 9) ?sp = Some 0"
    by (simp add: match_incoming_def)
  obtain f g where f: "message_from_bytes Debug ref_ipnet f = Ok (\<lparr>message_type = MT_Open, body = MB_Open ?open\<rparr> :: ref_net message)"
    and g: "message_from_bytes Debug ref_ipnet g = Ok (\<lparr>message_type = MT_Keepalive, body = MB_Keepalive\<rparr> :: ref_net message)"
    using peer_frames [OF ref.ipnet_laws_axioms] by blast
  show "reachable ref_ipnet Debug netlink1 (Some config1) (upd_neighbor 0 opening1 started1)"
    "reachable ref_ipnet Debug netlink1 (Some config1) (upd_neighbor 0 established1 started1)"
    using session_opens(2,4) [OF tried incoming _ _ f _ g, of ?open "capabilities_default\<lparr>multiprotocol := Some [ipv4_unicast]\<rparr>"
        5 "V4 1" 179]
    unfolding established1_def opening1_def by (simp_all add: open_norm_fields peer_capabilities)
qed


text \<open>No event ends an established session or changes its state: the expiry of the hold timer, a
  manual or automatic stop, a collision, an error in an UPDATE are all ignored.  Neither does the
  passing of time: the keepalive timer of a silent peer only ever causes KEEPALIVEs to be sent.\<close>

lemma established_ignores_events:
  assumes "nb_state nb = Established"
  shows "(process_event L order s e nb c = Ok (nb', c') \<longrightarrow> nb' = nb)
    \<and> nb_state (fst (timer_keepalive_round nb)) = Established"
  using assms event_established_result [of L order e nb c nb' c']
  by (auto simp: process_event_def timer_keepalive_round_def Let_def)



text \<open>The messages of a session, handled one after the other, each at its time and with the receivers there are then;
  and a session that no OPEN gets out of OPENSENT.\<close>

definition handle_messages ::
    "('n rib \<Rightarrow> 'n nlri list) \<Rightarrow> nat \<Rightarrow> ((chan \<Rightarrow> bool) \<times> nat \<times> 'n message) list
      \<Rightarrow> ('n, 'm, 'p) speaker \<Rightarrow> ('n, 'm, 'p) speaker" where
  "handle_messages order i inputs sp =
     fold (\<lambda>(alive, now, msg) sp. upd_neighbor i (fst (process_message alive order msg sp now (neighbors sp ! i))) sp) inputs sp"

definition stuck :: "u32 \<Rightarrow> nat \<Rightarrow> ('n, 'm, 'p) speaker \<Rightarrow> bool" where
  "stuck rid i sp \<longleftrightarrow> i < length (neighbors sp) \<and> nb_state (neighbors sp ! i) = OpenSent
     \<and> remote_rid (neighbors sp ! i) = Some rid \<and> tx (neighbors sp ! i) \<noteq> None"

lemma stuck_step:
  assumes "stuck rid i sp" and "\<And>m. body msg = MB_Open m \<Longrightarrow> om_router_id m = rid"
  shows "stuck rid i (upd_neighbor i (fst (process_message alive order msg sp now (neighbors sp ! i))) sp)"
proof -
  define nb where "nb = neighbors sp ! i"
  have nb: "nb_state nb = OpenSent" "tx nb \<noteq> None" "remote_rid nb = Some rid" "nb \<in> set (neighbors sp)"
    and i: "i < length (neighbors sp)"
    using assms(1) by (auto simp: stuck_def nb_def)
  have "nb_state nb' = OpenSent \<and> remote_rid nb' = Some rid \<and> tx nb' \<noteq> None"
    if "nb' = fst (process_message alive order msg sp now nb)" for nb'
  proof (cases "body msg")
    case (MB_Open m)
    then have "is_opening (om_router_id m) nb"
      using nb assms(2) [OF MB_Open] by (simp add: is_opening_def)
    moreover have "process_message alive order msg sp now nb = handle_open alive False m sp nb"
      using nb(1) MB_Open by (simp add: process_message_def process_message_opensent_def)
    ultimately have "nb' = nb"
      using handle_open_rejects [of sp m nb alive False] nb(4) that by auto
    then show ?thesis using nb by simp
  next
    case (MB_Update u)
    then show ?thesis
      using nb that by (auto simp: process_message_def process_message_opensent_def notify_def)
  qed (use nb that in \<open>simp_all add: process_message_def process_message_opensent_def handle_keepalive_def\<close>)
  then show ?thesis using i by (simp add: stuck_def nb_def)
qed

lemma stuck_messages:
  assumes "stuck rid i sp" and "\<forall>(alive, now, msg) \<in> set inputs. \<forall>m. body msg = MB_Open m \<longrightarrow> om_router_id m = rid"
  shows "stuck rid i (handle_messages order i inputs sp)"
  using assms unfolding handle_messages_def
  by (induction inputs arbitrary: sp) (auto simp: stuck_step)

lemma session_start_waits:
  assumes "session_start L order s ch nb c = (nb', Ok c')" and "nb_state nb = Active"
  shows "nb' = waiting ch nb"
  using assms
  by (cases "send_local_open L s ''Failed to send OPEN message in ACTIVE state'' (nb\<lparr>tx := Some ch\<rparr>) c")
    (auto simp: session_start_def process_event_def process_event_active_def waiting_def)

lemma add_incoming_starts:
  assumes "add_incoming free ip local_addr sp = (sp', Ok (Some i))"
  shows "i < length (neighbors sp) \<and> (\<exists>lip lport. sp' = upd_neighbor i (accepted lip lport (neighbors sp ! i)) sp)"
  using assms match_incoming_Some [of free ip sp i]
  by (auto simp: add_incoming_def accepted_def Let_def split: option.splits if_splits)

text \<open>C22: a session that has been lost is not opened again.  The end of the session leaves the peer's router id
  with the neighbor.  When the peer connects again, its connection is accepted and the task sends an OPEN; but
  the peer's OPEN collides with the neighbor itself: it is not taken, the neighbor stays in OPENSENT, and
  so it does whatever messages follow, as long as their OPENs carry the router id of before.\<close>

theorem reconnect_rejected:
  fixes sp :: "('n, 'm, 'p) speaker"
  assumes "reachable L b N cfg sp" and "i < length (neighbors sp)" and "nb_state (neighbors sp ! i) = Established"
    and "lost = upd_neighbor i (session_end (neighbors sp ! i)) sp"
    and "add_incoming free ip local_addr lost = (again, Ok (Some i))"
    and "session_start L order (local_info_of again) ch (neighbors again ! i) c = (nb, Ok c')"
    and "\<forall>(alive, now, msg) \<in> set inputs. \<forall>m. body msg = MB_Open m \<longrightarrow> Some (om_router_id m) = remote_rid (neighbors sp ! i)"
    and "later = handle_messages ro i inputs (upd_neighbor i nb again)"
  shows "nb_state (neighbors lost ! i) = Idle \<and> nb_state (neighbors again ! i) = Active \<and> nb_state nb = OpenSent
    \<and> nb_state (neighbors later ! i) = OpenSent \<and> remote_rid (neighbors later ! i) = remote_rid (neighbors sp ! i)"
proof -
  obtain rid where rid: "remote_rid (neighbors sp ! i) = Some rid"
    using reachable_sys_ok [OF assms(1)] nth_mem [OF assms(2)] assms(3) by (auto simp: sys_ok_def neighbor_ok_def)
  have ended: "neighbors lost ! i = session_end (neighbors sp ! i)" "length (neighbors lost) = length (neighbors sp)"
    using assms(2) by (simp_all add: assms(4))
  obtain lip lport where again: "again = upd_neighbor i (accepted lip lport (session_end (neighbors sp ! i))) lost"
    using add_incoming_starts [OF assms(5)] ended by auto
  then have nb2: "neighbors again ! i = accepted lip lport (session_end (neighbors sp ! i))" and len: "i < length (neighbors again)"
    using assms(2) ended by simp_all
  have nb: "nb = waiting ch (neighbors again ! i)"
    using session_start_waits [OF assms(6)] by (simp add: nb2)
  have kept: "remote_rid (session_end (neighbors sp ! i)) = Some rid"
    using rid by (simp add: session_end_def)
  have "stuck rid i (upd_neighbor i nb again)"
    using len kept by (simp add: stuck_def nb nb2)
  then have "stuck rid i later"
    unfolding assms(8) by (rule stuck_messages) (use assms(7) rid in auto)
  then show ?thesis
    using rid by (simp add: stuck_def ended nb2 nb session_end_def)
qed

theorem reconnect_rejected_witness:
  "\<exists>again nb c' later. add_incoming (\<lambda>_. True) (V4 9) (Some (V4 1, 179)) (upd_neighbor 0 (session_end established1) started1) = (again, Ok (Some 0))
    \<and> session_start ref_ipnet (\<lambda>gs. gs) (local_info_of again) 6 (neighbors again ! 0) \<lparr>conn_out = [], conn_open = True\<rparr> = (nb, Ok c')
    \<and> later = handle_messages (\<lambda>_. []) 0
        [(\<lambda>_. True, 0, \<lparr>message_type = MT_Open, body = MB_Open (open_norm (open_new 65001 16843009 9 capabilities_default))\<rparr>),
         (\<lambda>_. True, 1, \<lparr>message_type = MT_Keepalive, body = MB_Keepalive\<rparr>)] (upd_neighbor 0 nb again)
    \<and> nb_state (neighbors later ! 0) = OpenSent"
proof -
  let ?sp = "upd_neighbor 0 established1 started1" and ?sp1 = "upd_neighbor 0 (session_end established1) started1"
  let ?inputs = "[(\<lambda>_. True, 0, \<lparr>message_type = MT_Open, body = MB_Open (open_norm (open_new 65001 16843009 9 capabilities_default))\<rparr>),
         (\<lambda>_. True, 1, \<lparr>message_type = MT_Keepalive, body = MB_Keepalive\<rparr>)] :: ((chan \<Rightarrow> bool) \<times> nat \<times> ref_net message) list"
  let ?nb2 = "accepted (V4 1) 179 (session_end established1)" and ?c = "\<lparr>conn_out = [], conn_open = True\<rparr>"
  have ended: "nb_state (session_end established1) = Idle" "remote_ip (session_end established1) = Some (V4 9)"
    "capabilities_advertised (session_end established1) = capabilities_advertised nb1"
    by (simp_all add: session_end_def set_state_def)
  have add: "add_incoming (\<lambda>_. True) (V4 9) (Some (V4 1, 179)) ?sp1 = (upd_neighbor 0 ?nb2 ?sp1, Ok (Some 0))"
    using incoming_accepted [of "\<lambda>_. True" "V4 9" ?sp1 0] by (simp add: ended match_incoming_def)
  obtain c' where start: "session_start ref_ipnet (\<lambda>gs. gs) (local_info_of (upd_neighbor 0 ?nb2 ?sp1)) 6
      (neighbors (upd_neighbor 0 ?nb2 ?sp1) ! 0) ?c = (set_state OpenSent (?nb2\<lparr>tx := Some 6\<rparr>), Ok c')"
    using session_start_active [of ?nb2 ?c ref_ipnet "\<lambda>gs. gs" _ 6] by (fastforce simp: ended)
  have "nb_state (neighbors (handle_messages (\<lambda>_. []) 0 ?inputs
      (upd_neighbor 0 (set_state OpenSent (?nb2\<lparr>tx := Some 6\<rparr>)) (upd_neighbor 0 ?nb2 ?sp1))) ! 0) = OpenSent"
    using reconnect_rejected [OF reachable1(3) _ _ _ add start, of ?inputs _ "\<lambda>_. []"] by (simp add: open_norm_fields)
  with add start show ?thesis by blast
qed

section \<open>Two speakers\<close>

text \<open>C23: two speakers open a session: the OPEN and the KEEPALIVE one side sends, read from the stream
  by the other, take its neighbor from OPENSENT to ESTABLISHED with the sender's router id and hold
  time and the families both announced; and the neighbor is sent the best route of every prefix of
  every common family.  This is for a sender with the configured AS number whose router id no session is
  being opened with, a speaker that has a RIB for every common family, and a task that is there to receive from
  the neighbor's channel \<open>t\<close>.\<close>

theorem session_establishment:
  assumes "ipnet_laws L" and "send_open L asn rid hold caps \<lparr>conn_out = [], conn_open = True\<rparr> = Ok c1"
    and "send_keepalive L c1 = Ok c2"
    and "announced_families caps \<noteq> []" and "length (announced_families caps) \<le> 42"
    and "nb_state nb = OpenSent" and "tx nb = Some t" and "remote_asn nb = Some asn"
    and "\<forall>n \<in> set (neighbors sp). \<not> is_opening rid n"
    and "multiprotocol (capabilities_advertised nb) = Some adv"
    and "\<forall>fam \<in> set adv \<inter> set (announced_families caps).
      \<exists>rib. sp_rib sp fam = Some rib \<and> rib_ok (local_asn sp) rib"
    and "alive t"
  shows "\<exists>m1 m2 rest nb1 nb2 acts.
    read_message b L (conn_out c2) = Ok (Some m1, rest) \<and> read_message b L rest = Ok (Some m2, [])
    \<and> process_message alive order m1 sp now nb = (nb1, [Start_Keepalive_Timer t], Ok ()) \<and> nb_state nb1 = OpenConfirm
    \<and> process_message alive order m2 sp now nb1 = (nb2, acts, Ok ()) \<and> nb_state nb2 = Established
    \<and> remote_rid nb2 = Some rid \<and> hold_time (attributes nb2) = hold
    \<and> multiprotocol (capabilities_received nb2) = Some (unique_from [] (announced_families caps))
    \<and> acts = map (\<lambda>fam. Send_Event t (RibUpdate (map (\<lambda>n. (n, Some (hd (the (the (sp_rib sp fam) n)))))
          (filter (\<lambda>n. the (sp_rib sp fam) n \<noteq> None) (order (the (sp_rib sp fam)))))))
        (filter (\<lambda>fam. fam \<in> set (announced_families caps)) adv)"
proof -
  let ?m1 = "\<lparr>message_type = MT_Open, body = MB_Open (open_norm (open_new asn rid hold caps))\<rparr> :: 'a message"
    and ?m2 = "\<lparr>message_type = MT_Keepalive, body = MB_Keepalive\<rparr> :: 'a message"
  let ?rec = "unique_from [] (announced_families caps)"
  obtain f1 where f1: "conn_out c1 = f1" "\<And>rest. read_message b L (f1 @ rest) = Ok (Some ?m1, rest)"
    using ipnet_laws.send_open_wire [OF assms(1,5,2)] by (auto simp: sends_def)
  obtain f2 where f2: "conn_out c2 = f1 @ f2" "\<And>rest. read_message b L (f2 @ rest) = Ok (Some ?m2, rest)"
    using ipnet_laws.send_keepalive_wire [OF assms(1,3)] f1(1) by (auto simp: sends_def)
  define nb1 where "nb1 = opened (open_norm (open_new asn rid hold caps)) (capabilities_default\<lparr>multiprotocol := Some ?rec\<rparr>) nb"
  define nb2 where "nb2 = set_state Established (handle_keepalive nb1)"
  have p1: "process_message alive order ?m1 sp now nb = (nb1, [Start_Keepalive_Timer t], Ok ())"
    unfolding nb1_def using assms(6-9) open_new_negotiated [OF assms(4)]
    by (intro open_accepted) (simp_all add: open_norm_fields)
  have nb1: "nb_state nb1 = OpenConfirm" "tx nb1 = Some t" "multiprotocol (capabilities_advertised nb1) = Some adv"
    "multiprotocol (capabilities_received nb1) = Some ?rec"
    using assms(7,10) by (simp_all add: nb1_def opened_def)
  have nb2: "nb_state nb2 = Established" "remote_rid nb2 = Some rid" "hold_time (attributes nb2) = hold"
    "tx nb2 = Some t" "multiprotocol (capabilities_advertised nb2) = Some adv"
    "multiprotocol (capabilities_received nb2) = Some ?rec"
    using nb1 open_new_fields [of asn rid hold caps]
    by (simp_all add: nb2_def nb1_def opened_def handle_keepalive_def open_norm_def set_state_def)
  have "\<forall>fam \<in> set adv. fam \<in> set ?rec \<longrightarrow> (\<exists>rib. sp_rib sp fam = Some rib \<and> rib_ok (local_asn sp) rib)"
    using assms(11) by (auto simp: set_unique_from)
  note routes = send_locrib_families_ok [OF this, where alive = alive and order = order, OF assms(12)]
  have p2: "process_message alive order ?m2 sp now nb1 = (nb2, send_locrib alive sp order nb2)"
    using nb1(1) by (simp add: keepalive_establishes nb2_def)
  show ?thesis
    using f1 f2(1) f2(2) [of "[]"] p1 p2 nb1(1) nb2 routes
    by (intro exI [of _ ?m1] exI [of _ ?m2] exI [of _ f2] exI [of _ nb1] exI [of _ nb2]
        exI [of _ "fst (send_locrib alive sp order nb2)"])
      (simp add: send_locrib_def set_unique_from Let_def)
qed

lemma opensent1: "nb_state (set_state OpenSent (nb1\<lparr>tx := Some 5\<rparr>)) = OpenSent"
  by simp

theorem session_establishment_witness:
  "\<exists>m1 m2 nb1' nb2 acts. process_message (\<lambda>_. True) (\<lambda>_. []) m1 started1 0 (set_state OpenSent (nb1\<lparr>tx := Some 5\<rparr>)) =
      (nb1', [Start_Keepalive_Timer 5], Ok ())
    \<and> process_message (\<lambda>_. True) (\<lambda>_. []) m2 started1 0 nb1' = (nb2, acts, Ok ()) \<and> nb_state nb2 = Established
    \<and> acts = [Send_Event 5 (RibUpdate [])]"
proof -
  obtain c1 where c1: "send_open ref_ipnet 65001 16843009 90 capabilities_default \<lparr>conn_out = [], conn_open = True\<rparr> = Ok c1"
    "conn_open c1"
    using send_open_ok [of "\<lparr>conn_out = [], conn_open = True\<rparr>" capabilities_default ref_ipnet 65001 16843009 90]
    by (auto simp: announced_families_def capabilities_default_def)
  obtain c2 where c2: "send_keepalive ref_ipnet c1 = Ok c2"
    using send_keepalive_ok [OF c1(2), of ref_ipnet] by blast
  have fams: "announced_families capabilities_default = [ipv4_unicast]"
    by (simp add: announced_families_def capabilities_default_def ipv4_unicast_def)
  show ?thesis
    using session_establishment [OF ref.ipnet_laws_axioms c1(1) c2, of "set_state OpenSent (nb1\<lparr>tx := Some 5\<rparr>)" 5 started1
        "[ipv4_unicast]" "\<lambda>_. True" Debug "\<lambda>_. []" 0]
    by (simp add: fams started1_def sp1_def nb1_def neighbor_new_def is_opening_def) blast
qed

text \<open>C24: a route crosses the wire to an external peer: what the sender makes of a route for a list of
  IPv4 prefixes, read by the receiver, becomes one addition to its RIB of the same prefixes with the
  sender's AS in front of the path, the sender's address as next hop, no local preference and no
  discriminator; and if the receiver's AS is in the path the addition does not change its RIB.\<close>

theorem route_propagation:
  assumes "ipnet_laws L" and "remote_rid nbs = Some rid" and "\<not> is_from_neighbor rid ra" and "ns \<noteq> []"
    and "nb_local_ip nbs = Some (V4 hop)" and "remote_asn nbs = Some rasn" and "nb_local_asn nbs \<noteq> rasn"
    and "mset (order [(ra, ns)]) = {#(ra, ns)#}"
    and "\<forall>n \<in> set ns. nlri_afi L n = Ipv4" and "path_fits (sent_path (nb_local_asn nbs) ra)"
    and "send_update L order nbs (map (\<lambda>n. (n, Some ra)) ns) c = Ok c'"
    and "remote_asn nbr = Some (nb_local_asn nbs)" and "local_asn sp = rasn" and "remote_rid nbr = Some peer"
    and "remote_ip nbr = Some ip" and "ribtx nbr ipv4_unicast = Some ch" and "nb_state nbr = Established"
  shows "\<exists>f m u. conn_out c' = conn_out c @ f \<and> read_message b L (f @ rest) = Ok (Some m, rest)
    \<and> process_message alive order' m sp now nbr = (adjrib_add ipv4_unicast u nbr,
        [Send_Rib ch (UpdateRoutes \<lparr>upd_added = Some u, upd_withdrawn = None, upd_rid = peer\<rparr>)], Ok ())
    \<and> u = \<lparr>ru_nlris = map (nlri_canon L) ns, ru_attributes = received_route (nb_local_asn nbs) hop peer ip now ra\<rparr>
    \<and> (rasn \<in> set (flatten_aspath (as_path ra)) \<longrightarrow> loc_rib_added L fib rasn u rib = (rib, []))"
proof -
  let ?asn = "nb_local_asn nbs"
  let ?u = "\<lparr>withdrawn_routes = [], path_attributes = sent_attributes ?asn hop ra, um_nlri = ns\<rparr>"
  let ?ru = "\<lparr>ru_nlris = map (nlri_canon L) ns, ru_attributes = received_route ?asn hop peer ip now ra\<rparr>"
  have upd: "update_for order nbs (map (\<lambda>n. (n, Some ra)) ns) = Ok (Some ?u)"
    by (rule update_for_same [OF assms(2-7), where order = order, OF assms(8)])
  have "valid_update L ?u"
    using assms(9) valid_sent_attributes [OF assms(10)] by (auto simp: valid_update_def)
  then obtain f where f: "sends c c' f" "read_message b L (f @ rest) =
      Ok (Some \<lparr>message_type = MT_Update, body = MB_Update (update_norm L ?u)\<rparr>, rest)"
    using ipnet_laws.send_update_wire [OF assms(1) upd _ assms(11)] by blast
  have norm: "update_norm L ?u = sent_update ?asn hop ([] @ [ra]) (map (nlri_canon L) ns)"
    by (simp add: update_norm_def sent_update_def)
  have "process_message alive order' \<lparr>message_type = MT_Update, body = MB_Update (update_norm L ?u)\<rparr> sp now nbr =
      (adjrib_add ipv4_unicast ?ru nbr,
       [Send_Rib ch (UpdateRoutes \<lparr>upd_added = Some ?ru, upd_withdrawn = None, upd_rid = peer\<rparr>)], Ok ())"
    using receive_external [OF assms(12) _ assms(14,15,16), where ns = "map (nlri_canon L) ns" and ras = "[]"
        and ra = ra and hop = hop and now = now and sp = sp] assms(4,7,13,17)
    by (simp add: process_message_def process_message_established_def norm)
  moreover have "loc_rib_added L fib rasn ?ru rib = (rib, [])" if "rasn \<in> set (flatten_aspath (as_path ra))"
  proof -
    have "\<not> is_valid rasn (received_route ?asn hop peer ip now ra)"
      using that by (simp add: is_valid_def received_route_def sent_path_def)
    then have "fold (add_nlri L fib rasn (received_route ?asn hop peer ip now ra)) ms (rib, md) = (rib, md)" for ms md
      by (induction ms) (simp_all add: add_nlri_eq improves_def)
    then show ?thesis by (simp add: loc_rib_added_def)
  qed
  ultimately show ?thesis using f by (auto simp: sends_def)
qed

definition sender1 :: "ref_net neighbor" where
  "sender1 = nb1\<lparr>nb_local_ip := Some (V4 167772161), remote_rid := Some 7\<rparr>"

definition receiver1 :: "ref_net neighbor" where
  "receiver1 = set_state Established (nb1\<lparr>remote_asn := Some 42, remote_rid := Some 33686018, ribtx := [ipv4_unicast \<mapsto> 0]\<rparr>)"

definition sp2 :: "(ref_net, unit, unit) speaker" where
  "sp2 = speaker_new 65001 7 3 [V4 9] 179 [ipv4_unicast]"

lemma sender_receiver [simp]:
  "nb_local_ip sender1 = Some (V4 167772161)" "remote_rid sender1 = Some 7" "remote_asn sender1 = Some 65001"
  "nb_local_asn sender1 = 42" "remote_asn receiver1 = Some 42" "remote_rid receiver1 = Some 33686018"
  "remote_ip receiver1 = Some (V4 9)" "ribtx receiver1 ipv4_unicast = Some 0" "nb_state receiver1 = Established"
  "local_asn sp2 = 65001"
  by (simp_all add: sender1_def receiver1_def nb1_def neighbor_new_def sp2_def speaker_new_def)

lemma send_update_ok:
  fixes L :: "'n ipnet_ops"
  assumes "update_for order nb routes = Ok (Some u)" and "update_to_bytes L u = Ok bs" and "length bs \<le> 4000" and "conn_open c"
  shows "\<exists>c'. send_update L order nb routes c = Ok c'"
proof -
  have "to_wire L MT_Update (MB_Update u) = Ok (2 # bs)"
    using assms(2) by (simp add: to_wire_def message_to_bytes_def message_new_def)
  moreover obtain c' where "framed_send ''Failed to send UPDATE message'' (2 # bs) c = Ok c'"
    using framed_send_ok [OF assms(4), of "2 # bs"] assms(3) by auto
  ultimately show ?thesis by (simp add: send_update_def assms(1))
qed

lemma length_sent_wire:
  "length (concat (map (attr_wire L) (sent_attributes asn hop ra))) \<le> 11 + 8 + length (concat (map aspath_segment_to_bytes (as_path ra)))"
  by (simp add: sent_attributes_def attr_wire_def path_attribute_to_bytes_def pa_nexthop_def pa_origin_def pa_aspath_def
      sent_path_def aspath_segment_to_bytes_def Let_def)

theorem route_propagation_witness:
  "\<exists>f m u. read_message Debug ref_ipnet (f @ []) = Ok (Some m, [])
    \<and> process_message (\<lambda>_. True) (\<lambda>_. []) m sp2 0 receiver1 = (adjrib_add ipv4_unicast u receiver1,
        [Send_Rib 0 (UpdateRoutes \<lparr>upd_added = Some u, upd_withdrawn = None, upd_rid = 33686018\<rparr>)], Ok ())
    \<and> ru_nlris u = [net8] \<and> flatten_aspath (as_path (ru_attributes u)) = [42, 10]"
proof -
  let ?c = "\<lparr>conn_out = [], conn_open = True\<rparr>" and ?ra = "route_of 1 path1"
  have notfrom: "\<not> is_from_neighbor 7 ?ra"
    by (simp add: is_from_neighbor_def route_of_def)
  have fits: "path_fits (sent_path (nb_local_asn sender1) ?ra)"
    by (simp add: path_fits_def sent_path_def route_of_def path1_def valid_segment_def aspath_segment_to_bytes_def)
  have upd: "update_for (\<lambda>gs. gs) sender1 (map (\<lambda>n. (n, Some ?ra)) [net8]) =
      Ok (Some \<lparr>withdrawn_routes = [], path_attributes = sent_attributes 42 167772161 ?ra, um_nlri = [net8]\<rparr>)"
    using update_for_same [of sender1 7 ?ra "[net8]" 167772161 65001 "\<lambda>gs. gs"] notfrom by simp
  have "\<forall>a \<in> set (sent_attributes 42 167772161 ?ra :: ref_net path_attribute list). valid_attr a"
    using valid_sent_attributes fits by auto
  then have bytes: "update_to_bytes ref_ipnet \<lparr>withdrawn_routes = [], path_attributes = sent_attributes 42 167772161 ?ra, um_nlri = [net8]\<rparr> =
      Ok ([0, 0] @ to_be 2 (as_u16 (length (concat (map (attr_wire ref_ipnet) (sent_attributes 42 167772161 ?ra)))))
        @ concat (map (attr_wire ref_ipnet) (sent_attributes 42 167772161 ?ra)) @ [8, 10])"
    by (subst ref.update_to_bytes_wire) (simp_all add: Let_def to_be_def as_u16_def nat_be_numeral)
  have len: "length (concat (map (attr_wire ref_ipnet) (sent_attributes 42 167772161 ?ra))) \<le> 23"
    using length_sent_wire [of ref_ipnet 42 167772161 ?ra]
    by (simp add: route_of_def path1_def aspath_segment_to_bytes_def)
  obtain c' where "send_update ref_ipnet (\<lambda>gs. gs) sender1 (map (\<lambda>n. (n, Some ?ra)) [net8]) ?c = Ok c'"
    using send_update_ok [OF upd bytes, of ?c] len by fastforce
  from route_propagation [OF ref.ipnet_laws_axioms _ notfrom _ _ _ _ _ _ fits this, where peer = 33686018 and
      ch = 0 and nbr = receiver1 and sp = sp2 and hop = 167772161 and rasn = 65001 and ip = "V4 9"
      and b = Debug and rest = "[]" and alive = "\<lambda>_. True" and order' = "\<lambda>_. []" and now = 0 and fib = fib8 and rib = "\<lambda>_. None"]
  show ?thesis
    by (fastforce simp: received_route_def sent_path_def route_of_def path1_def)
qed

text \<open>C25: routes of different attributes that change at the same time are mixed up on the way to an
  external peer: they go out in one UPDATE with the attributes of all of them, and the receiver gives
  every prefix those of the last.  In particular the prefix of the first route arrives with the path
  of the second.\<close>

theorem mixed_attributes:
  assumes "remote_rid nbs = Some rid" and "\<not> is_from_neighbor rid ra" and "\<not> is_from_neighbor rid rb"
    and "\<not> ra_eq ra rb" and "nb_local_ip nbs = Some (V4 hop)" and "remote_asn nbs = Some rasn"
    and "nb_local_asn nbs \<noteq> rasn" and "order [(ra, [m]), (rb, [n])] = [(ra, [m]), (rb, [n])]"
    and "remote_asn nbr = Some (nb_local_asn nbs)" and "local_asn sp = rasn" and "remote_rid nbr = Some peer"
    and "remote_ip nbr = Some ip" and "ribtx nbr ipv4_unicast = Some ch"
  shows "\<exists>u. update_for order nbs [(m, Some ra), (n, Some rb)] = Ok (Some u) \<and>
    (\<exists>nbr' v. handle_update (update_norm L u) sp now nbr =
      (nbr', [Send_Rib ch (UpdateRoutes \<lparr>upd_added = Some v, upd_withdrawn = None, upd_rid = peer\<rparr>)], Ok ())
     \<and> ru_nlris v = [nlri_canon L m, nlri_canon L n]
     \<and> ru_attributes v = received_route (nb_local_asn nbs) hop peer ip now rb)"
proof -
  let ?asn = "nb_local_asn nbs"
  let ?u = "\<lparr>withdrawn_routes = [], path_attributes = concat (map (sent_attributes ?asn hop) [ra, rb]), um_nlri = [m, n]\<rparr>"
  have "update_norm L ?u = sent_update ?asn hop ([ra] @ [rb]) [nlri_canon L m, nlri_canon L n]"
    by (simp add: update_norm_def sent_update_def)
  then show ?thesis
    using update_for_groups [OF assms(1-7), where order = order, OF assms(8)]
      receive_external [OF assms(9) _ assms(11,12,13), where ns = "[nlri_canon L m, nlri_canon L n]" and ras = "[ra]"
        and ra = rb and hop = hop and now = now and sp = sp, OF _ _ refl] assms(7,10)
    by auto
qed

theorem mixed_attributes_witness:
  "\<exists>u. update_for (\<lambda>gs. gs) sender1 [(net8, Some (route_of 1 path1)), (\<lparr>net = ref4 0 0\<rparr>, Some (route_of 2 []))] = Ok (Some u) \<and>
    (\<exists>nbr' v. handle_update (update_norm ref_ipnet u) sp2 0 receiver1 =
      (nbr', [Send_Rib 0 (UpdateRoutes \<lparr>upd_added = Some v, upd_withdrawn = None, upd_rid = 33686018\<rparr>)], Ok ())
     \<and> net8 \<in> set (ru_nlris v) \<and> flatten_aspath (as_path (ru_attributes v)) = [42])"
proof -
  have "\<not> ra_eq (route_of 1 path1) (route_of 2 [])"
    by (simp add: ra_eq_def route_of_def ra_default_def path_len_def path1_def aspath_segment_len_def)
  then show ?thesis
    using mixed_attributes [of sender1 7 "route_of 1 path1" "route_of 2 []" 167772161 65001 "\<lambda>gs. gs" net8 "\<lparr>net = ref4 0 0\<rparr>"
        receiver1 sp2 33686018 "V4 9" 0 ref_ipnet 0]
    by (fastforce simp: is_from_neighbor_def route_of_def received_route_def sent_path_def ra_default_def)
qed

text \<open>C26: what a peer is sent of a list of changes.  The prefixes without a route are withdrawn, in the order
  of the list.  A prefix is announced exactly if the list has a route for it that did not come from the peer itself
  and, when the peer is internal, the first route of the list not from the peer that is equal to it (by \<open>==\<close>, which
  compares neither paths nor peers) was not learned from an internal peer: that route heads the group
  the prefix is sent with.  So an internal peer gets nothing of a list of internal routes only, and with an
  external one in front of them it may.\<close>

theorem no_echo:
  assumes "update_for order nb routes = Ok (Some u)" and "remote_rid nb = Some rid" and "\<And>gs. set (order gs) = set gs"
    and "others = [k. (_, Some k) \<leftarrow> routes, peer_rid k \<noteq> rid]"
  shows "withdrawn_routes u = [n. (n, None) \<leftarrow> routes]
    \<and> (\<forall>n. n \<in> set (um_nlri u) \<longleftrightarrow> (\<exists>a. (n, Some a) \<in> set routes \<and> peer_rid a \<noteq> rid
        \<and> (remote_asn nb = Some (nb_local_asn nb) \<longrightarrow> (\<exists>k. find (\<lambda>k. ra_eq k a) others = Some k \<and> \<not> is_from_ibgp k))))
    \<and> (remote_asn nb = Some (nb_local_asn nb) \<and> (\<forall>k \<in> set others. is_from_ibgp k) \<longrightarrow> um_nlri u = [])"
proof -
  note sent = update_for_announces [OF assms(1-3)]
  have others: "map snd (outgoing rid routes) = others"
    unfolding assms(4) outgoing_def by (induction routes) (auto simp: is_from_neighbor_def split: option.split)
  have mem: "(n, a) \<in> set (outgoing rid routes) \<longleftrightarrow> (n, Some a) \<in> set routes \<and> peer_rid a \<noteq> rid" for n a
    by (auto simp: outgoing_def is_from_neighbor_def split: option.splits)
  have some: "\<exists>k. find (\<lambda>k. ra_eq k a) others = Some k" if "(n, a) \<in> set (outgoing rid routes)" for n a
  proof -
    have "a \<in> set others" using that by (force simp: others [symmetric])
    then show ?thesis by (cases "find (\<lambda>k. ra_eq k a) others") (auto simp: find_None_iff)
  qed
  have announced: "n \<in> set (um_nlri u) \<longleftrightarrow> (\<exists>a. (n, Some a) \<in> set routes \<and> peer_rid a \<noteq> rid
      \<and> (remote_asn nb = Some (nb_local_asn nb) \<longrightarrow> (\<exists>k. find (\<lambda>k. ra_eq k a) others = Some k \<and> \<not> is_from_ibgp k)))"
    (is "_ \<longleftrightarrow> ?ok") for n
  proof
    show "n \<in> set (um_nlri u)" if ?ok
    proof -
      from that obtain a where a: "(n, a) \<in> set (outgoing rid routes)" "remote_asn nb = Some (nb_local_asn nb) \<longrightarrow>
          (\<exists>k. find (\<lambda>k. ra_eq k a) others = Some k \<and> \<not> is_from_ibgp k)" by (auto simp: mem)
      with some [of n a] show ?thesis unfolding sent(2) leader_def others by metis
    qed
  qed (auto simp: sent(2) leader_def others mem)
  moreover have "um_nlri u = []" if "remote_asn nb = Some (nb_local_asn nb)" "\<forall>k \<in> set others. is_from_ibgp k"
  proof -
    have "n \<notin> set (um_nlri u)" for n
      unfolding announced using that by (auto simp: find_Some_iff)
    then show ?thesis by (cases "um_nlri u") auto
  qed
  ultimately show ?thesis using sent(1) by blast
qed

theorem no_echo_witness:
  "\<exists>u v. update_for (\<lambda>gs. gs) (sender1\<lparr>remote_asn := Some 42\<rparr>) [(net8, None), (net8, Some ((route_of 1 path1)\<lparr>peer_type := Ibgp\<rparr>))] =
      Ok (Some u) \<and> withdrawn_routes u = [net8] \<and> um_nlri u = []
    \<and> update_for (\<lambda>gs. gs) (sender1\<lparr>remote_asn := Some 42\<rparr>) [(net8, Some (route_of 1 path1))] = Ok (Some v) \<and> net8 \<in> set (um_nlri v)"
proof -
  let ?nb = "sender1\<lparr>remote_asn := Some 42\<rparr>"
  let ?rs = "[(net8, None), (net8, Some ((route_of 1 path1)\<lparr>peer_type := Ibgp\<rparr>))]" and ?rs' = "[(net8, Some (route_of 1 path1))]"
  obtain u where u: "update_for (\<lambda>gs. gs) ?nb ?rs = Ok (Some u)"
    by (simp add: update_for_def sort_out_def is_from_neighbor_def route_of_def send_group_def is_from_ibgp_def ra_default_def Let_def)
  obtain v where v: "update_for (\<lambda>gs. gs) ?nb ?rs' = Ok (Some v)"
    by (simp add: update_for_def sort_out_def is_from_neighbor_def route_of_def send_group_def is_from_ibgp_def ra_default_def Let_def)
  show ?thesis
    using no_echo [OF u _ _ refl, of 7] no_echo [OF v _ _ refl, of 7] u v
    by (auto simp: is_from_ibgp_def route_of_def ra_default_def)
qed

text \<open>C27: a NOTIFICATION ends an established session and takes the peer's routes with it: the neighbor
  goes to IDLE with no routes kept, the session task is told to stop, and the event sent for each
  advertised family, when the RIB manager handles it, leaves in the RIB exactly the routes of other
  peers, in their order.\<close>

theorem notification_flushes:
  assumes "nb_state nb = Established" and "remote_rid nb = Some peer" and "tx nb = Some t"
    and "multiprotocol (capabilities_advertised nb) = Some adv" and "fam \<in> set adv" and "sp_ribtx sp fam = Some ch"
    and "body m = MB_Notification x" and "process_message alive order m sp now nb = (nb', acts, r)"
    and "rib_ok asn rib" and "set (order rib) = dom rib" and "distinct (order rib)"
  shows "r = Ok () \<and> nb_state nb' = Idle \<and> adjrib nb' = Map.empty \<and> last acts = Send_Event t TcpConnectionFails
    \<and> (\<exists>ev. Send_Rib ch ev \<in> set acts \<and> (\<forall>n as. fst (rib_event_step L fib asn order ev rib) n = Some as \<longleftrightarrow>
        (\<exists>bs. rib n = Some bs \<and> as = filter (\<lambda>a. peer_rid a \<noteq> peer) bs \<and> as \<noteq> [])))"
proof -
  let ?ev = "UpdateRoutes \<lparr>upd_added = None, upd_withdrawn = Some \<lparr>ru_nlris = [],
    ru_attributes = (ra_default now)\<lparr>peer_rid := peer\<rparr>\<rparr>, upd_rid = peer\<rparr>"
  have res: "r = Ok ()" "nb' = (set_state Idle nb)\<lparr>adjrib := Map.empty\<rparr>"
    "acts = withdraw_neighbor_routes sp peer now adv @ [Send_Event t TcpConnectionFails]"
    using assms(8) by (auto simp: process_message_def process_message_established_def handle_notification_def
        Let_def assms(1-4,7))
  have "Send_Rib ch ?ev \<in> set acts"
    using assms(5,6) by (auto simp: res(3) withdraw_neighbor_routes_def intro!: bexI [of _ fam])
  moreover have "fst (rib_event_step L fib asn order ?ev rib) = rib_prune peer rib"
    using rib_flush [OF assms(9), of order L fib "(ra_default now)\<lparr>peer_rid := peer\<rparr>" peer] assms(10,11) by simp
  ultimately show ?thesis
    by (auto simp: res rib_prune_Some set_state_def)
qed

theorem notification_flushes_witness:
  "\<exists>nb' acts ev. process_message (\<lambda>_. True) (\<lambda>_. [net8]) \<lparr>message_type = MT_Notification,
        body = MB_Notification (notification_new Cease 2)\<rparr> started1 0 (receiver1\<lparr>tx := Some 5, remote_rid := Some 1\<rparr>) =
      (nb', acts, Ok ())
    \<and> Send_Rib 0 ev \<in> set acts
    \<and> fst (rib_event_step ref_ipnet fib8 42 (\<lambda>_. [net8]) ev [net8 \<mapsto> [route_of 2 path1, route_of 1 path1]]) net8 =
        Some [route_of 2 path1]"
proof -
  let ?nb = "receiver1\<lparr>tx := Some 5, remote_rid := Some 1\<rparr>"
  let ?m = "\<lparr>message_type = MT_Notification, body = MB_Notification (notification_new Cease 2)\<rparr> :: ref_net message"
  let ?rib = "[net8 \<mapsto> [route_of 2 path1, route_of 1 path1]]"
  obtain nb' acts r where p: "process_message (\<lambda>_. True) (\<lambda>_. [net8]) ?m started1 0 ?nb = (nb', acts, r)"
    by (cases "process_message (\<lambda>_. True) (\<lambda>_. [net8]) ?m started1 0 ?nb") auto
  have ok: "rib_ok 42 ?rib"
    by (simp add: rib_ok_def ranked_def ra_cmp_def compare_def is_valid_def route_of_def ra_default_def path1_def path_len_def)
  have nb: "nb_state ?nb = Established" "remote_rid ?nb = Some 1" "tx ?nb = Some 5"
    "multiprotocol (capabilities_advertised ?nb) = Some [ipv4_unicast]" "sp_ribtx started1 ipv4_unicast = Some 0"
    by (simp_all add: receiver1_def nb1_def neighbor_new_def started1_def set_state_def)
  have fam: "ipv4_unicast \<in> set [ipv4_unicast]" and body: "body ?m = MB_Notification (notification_new Cease 2)"
    and order: "set [net8] = dom ?rib" "distinct [net8]"
    by (simp_all add: insert_commute)
  from notification_flushes [OF nb(1-4) fam nb(5) body p ok order, of ref_ipnet fib8]
  obtain ev where ev: "r = Ok ()" "Send_Rib 0 ev \<in> set acts"
    "\<And>n as. fst (rib_event_step ref_ipnet fib8 42 (\<lambda>_. [net8]) ev ?rib) n = Some as \<longleftrightarrow>
      (\<exists>bs. ?rib n = Some bs \<and> as = filter (\<lambda>a. peer_rid a \<noteq> 1) bs \<and> as \<noteq> [])"
    by blast
  have "filter (\<lambda>a. peer_rid a \<noteq> 1) [route_of 2 path1, route_of 1 path1] = [route_of 2 path1]"
    by (simp add: route_of_def)
  then have "fst (rib_event_step ref_ipnet fib8 42 (\<lambda>_. [net8]) ev ?rib) net8 = Some [route_of 2 path1]"
    unfolding ev(3) by simp
  with p ev(1,2) show ?thesis by blast
qed

section \<open>Connecting and starting\<close>

text \<open>C28: the delay after a failed connection attempt.  Without backoff its base is the configured time.  With
  backoff the base starts there too and doubles with every failure, ten times at most, and never exceeds an hour.
  The random jitter adds at most a tenth, and with backoff the sum stays within the hour.  After \<open>k\<close>
  failures the neighbor is idle and counts them, and the task sleeps for the delay of that count, unless the
  count has reached the configured maximum.\<close>

theorem retry_delay:
  fixes nb :: "'n neighbor"
  assumes "\<And>r. rand r \<le> r"
  shows "base_delay base 0 True = min (unat base) 3600
    \<and> (\<forall>k < 10. base_delay base (Suc k) True = min (2 * base_delay base k True) 3600)
    \<and> (\<forall>k \<ge> 10. base_delay base k True = base_delay base 10 True)
    \<and> (\<forall>k. base_delay base k False = unat base)
    \<and> (\<forall>k backoff. base_delay base k backoff \<le> calculate_retry_delay rand base k backoff
        \<and> calculate_retry_delay rand base k backoff \<le> base_delay base k backoff + base_delay base k backoff div 10
        \<and> (backoff \<longrightarrow> calculate_retry_delay rand base k backoff \<le> 3600))
    \<and> (\<forall>k. let failed = (connect_failed ^^ Suc k) nb; count = connect_retry_counter (attributes nb) + Suc k in
        nb_state failed = Idle \<and> connect_retry_counter (attributes failed) = count
        \<and> retry_sleep rand failed = (if \<exists>mx. max_retry_count nb = Some mx \<and> unat mx \<le> count then None
            else Some (calculate_retry_delay rand (connect_retry_time (attributes nb)) count (exponential_backoff nb))))"
proof -
  have double: "base_delay base (Suc k) True = min (2 * base_delay base k True) 3600" if "k < 10" for k
    using that by (simp add: base_delay_def min_def)
  have late: "base_delay base k True = base_delay base 10 True" if "k \<ge> 10" for k
    using that by (simp add: base_delay_def min_def)
  have bounds: "base_delay base k backoff \<le> calculate_retry_delay rand base k backoff
      \<and> calculate_retry_delay rand base k backoff \<le> base_delay base k backoff + base_delay base k backoff div 10
      \<and> (backoff \<longrightarrow> calculate_retry_delay rand base k backoff \<le> 3600)" for k backoff
    using retry_delay_bounds [of rand base k backoff, OF assms] assms [of "base_delay base k backoff div 10"]
    by (auto simp: calculate_retry_delay_def Let_def)
  have counted: "connect_retry_counter (attributes ((connect_failed ^^ k) nb)) = connect_retry_counter (attributes nb) + k
      \<and> max_retry_count ((connect_failed ^^ k) nb) = max_retry_count nb
      \<and> exponential_backoff ((connect_failed ^^ k) nb) = exponential_backoff nb
      \<and> connect_retry_time (attributes ((connect_failed ^^ k) nb)) = connect_retry_time (attributes nb)" for k
    by (induction k) (simp_all add: connect_failed_def)
  have failed: "nb_state ((connect_failed ^^ Suc k) nb) = Idle" for k by (simp add: connect_failed_def)
  have sleeps: "retry_sleep rand x = (if \<exists>mx. max_retry_count nb = Some mx \<and> unat mx \<le> n then None
      else Some (calculate_retry_delay rand (connect_retry_time (attributes nb)) n (exponential_backoff nb)))"
    if "connect_retry_counter (attributes x) = n \<and> max_retry_count x = max_retry_count nb
      \<and> exponential_backoff x = exponential_backoff nb
      \<and> connect_retry_time (attributes x) = connect_retry_time (attributes nb)" for x :: "'n neighbor" and n
    using that by (cases "max_retry_count nb") (auto simp: retry_sleep_def Let_def)
  show ?thesis
    unfolding Let_def using double late bounds failed counted sleeps [OF counted] by (auto simp: base_delay_def simp del: funpow.simps)
qed

theorem retry_delay_witness:
  "map (\<lambda>k. base_delay 5 k True) [0, 1, 2] = [5, 10, 20] \<and> base_delay 60 20 True = 3600
    \<and> calculate_retry_delay (\<lambda>r. r) 10 3 False \<le> 11
    \<and> retry_sleep (\<lambda>r. 0) ((connect_failed ^^ Suc 1) (nb1\<lparr>exponential_backoff := True\<rparr>)) = Some 20"
proof -
  let ?nb = "nb1\<lparr>exponential_backoff := True\<rparr>"
  have nb: "connect_retry_counter (attributes ?nb) = 0" "max_retry_count ?nb = None" "connect_retry_time (attributes ?nb) = 5"
    by (simp_all add: nb1_def neighbor_new_def session_attributes_default_def)
  have r0: "(0::nat) \<le> r" for r by simp
  note all = retry_delay [of "\<lambda>r. 0" 5 ?nb, OF r0] and jitter = retry_delay [of "\<lambda>r. r" 10 nb1, OF order_refl]
  have first: "base_delay 5 0 True = 5" using all [THEN conjunct1] by simp
  have doubled: "base_delay 5 (Suc k) True = min (2 * base_delay 5 k True) 3600" if "k < 10" for k
    using all [THEN conjunct2, THEN conjunct1] that by blast
  have delays: "base_delay 5 1 True = 10" "base_delay 5 2 True = 20"
    using doubled [of 0] doubled [of 1] first by (simp_all add: numeral_2_eq_2)
  have "retry_sleep (\<lambda>r. 0) ((connect_failed ^^ Suc 1) ?nb) = Some (calculate_retry_delay (\<lambda>r. 0) 5 2 True)"
    using all [THEN conjunct2, THEN conjunct2, THEN conjunct2, THEN conjunct2, THEN conjunct2, THEN spec, of 1]
    unfolding Let_def nb by (simp add: numeral_2_eq_2 del: funpow.simps)
  then have "retry_sleep (\<lambda>r. 0) ((connect_failed ^^ Suc 1) ?nb) = Some 20"
    by (simp add: calculate_retry_delay_def delays Let_def del: funpow.simps)
  moreover have "calculate_retry_delay (\<lambda>r. r) 10 3 False \<le> 11"
    using jitter [THEN conjunct2, THEN conjunct2, THEN conjunct2, THEN conjunct1, THEN spec, of 3]
      jitter [THEN conjunct2, THEN conjunct2, THEN conjunct2, THEN conjunct2, THEN conjunct1, THEN spec, THEN spec, of 3 False]
    by simp
  moreover have "base_delay 60 20 True = 3600"
    by (simp add: base_delay_def)
  ultimately show ?thesis using first delays by simp
qed

text \<open>What \<open>main\<close> makes of a file's fields.\<close>

lemma setup_no_localips:
  assumes "tc_localips t = None"
  shows "(main_setup (Some (decode_config t)) :: (string, ('n, 'm, 'p) speaker) outcome) = Err ''Local IPs not configured''"
proof (rule main_setup_no_localips)
  have "parse_ip BGP_DEFAULT_LOCAL_IP = None" by (simp add: BGP_DEFAULT_LOCAL_IP_def parse_ip_bracket)
  then show "read_config (Some (decode_config t)) = Ok c' \<Longrightarrow> cf_localips c' = None" for c'
    using assms by (auto simp: read_config_def option_or_def Let_def)
qed

lemma setup_listed:
  fixes t ips defines "setup \<equiv> (main_setup (Some (decode_config t)) :: (string, ('n, 'm, 'p) speaker) outcome)"
  assumes "tc_localips t = Some ips" and "ns = (case tc_neighbors t of None \<Rightarrow> [] | Some ns \<Rightarrow> ns)"
  shows "\<exists>n \<in> set ns. parse_ip (tn_ip n) = None \<Longrightarrow> panics setup"
    and "\<not> (\<exists>n \<in> set ns. parse_ip (tn_ip n) = None) \<Longrightarrow> \<exists>sp. setup = Ok sp \<and> local_asn sp = tc_asn t \<and> router_id sp = tc_rid t
      \<and> map remote_ip (neighbors sp) = map (\<lambda>n. parse_ip (tn_ip n)) ns
      \<and> map remote_asn (neighbors sp) = map (\<lambda>n. Some (tn_asn n)) ns
      \<and> map remote_port (neighbors sp) = map (\<lambda>n. Some (tn_port n)) ns
      \<and> set (map nb_state (neighbors sp)) \<subseteq> {Idle} \<and> local_ips sp = ips \<and> sp_rib sp = Map.empty
      \<and> families sp = (case tc_families t of None \<Rightarrow> [ipv4_unicast] | Some fs \<Rightarrow> fs)"
proof -
  define cns where "cns = map decode_neighbor ns"
  have "(case cf_neighbors (decode_config t) of None \<Rightarrow> [] | Some ns \<Rightarrow> ns) = cns"
    by (simp add: cns_def assms(3) split: option.split)
  then obtain sp0 :: "('n, 'm, 'p) speaker" and fams where sp0: "neighbors sp0 = []" "local_asn sp0 = tc_asn t"
    "router_id sp0 = tc_rid t" "local_ips sp0 = ips" "sp_rib sp0 = Map.empty"
    "families sp0 = (case tc_families t of None \<Rightarrow> [ipv4_unicast] | Some fs \<Rightarrow> fs)"
    and main: "setup = add_neighbors fams cns sp0"
    using main_setup_neighbors [of "decode_config t" ips] assms(2)
    unfolding setup_def decode_config_simps ipv4_unicast_def by metis
  have bad: "(\<exists>n \<in> set cns. unusable n) \<longleftrightarrow> (\<exists>n \<in> set ns. parse_ip (tn_ip n) = None)"
    by (simp add: cns_def unusable_decoded)
  show "panics setup" if "\<exists>n \<in> set ns. parse_ip (tn_ip n) = None"
    using add_neighbors_result(1) [of cns fams sp0] that unfolding main bad .
  show "\<exists>sp. setup = Ok sp \<and> local_asn sp = tc_asn t \<and> router_id sp = tc_rid t
      \<and> map remote_ip (neighbors sp) = map (\<lambda>n. parse_ip (tn_ip n)) ns
      \<and> map remote_asn (neighbors sp) = map (\<lambda>n. Some (tn_asn n)) ns
      \<and> map remote_port (neighbors sp) = map (\<lambda>n. Some (tn_port n)) ns
      \<and> set (map nb_state (neighbors sp)) \<subseteq> {Idle} \<and> local_ips sp = ips \<and> sp_rib sp = Map.empty
      \<and> families sp = (case tc_families t of None \<Rightarrow> [ipv4_unicast] | Some fs \<Rightarrow> fs)"
    if "\<not> (\<exists>n \<in> set ns. parse_ip (tn_ip n) = None)"
    using add_neighbors_result(2) [of cns fams sp0] that sp0 unfolding main bad
    by (auto simp: configured_def neighbor_new_def cns_def)
qed

text \<open>C29: which configuration files the program starts from, and what it starts.  One that lists no local
  addresses never does, although the field is optional: the default it falls back to names a port as well and
  is not an address.  Otherwise the program panics exactly when a neighbor's address does not parse; what
  else a neighbor leaves out has a default.  In all other cases it sets up the listed neighbors, in order, idle,
  with the addresses, AS numbers and ports of the file.  Then the families of the file, IPv4 unicast if it
  lists none, get an empty RIB and their two managers, provided netlink can be reached: if not, and there is a family,
  the start panics and neither the connections nor the listener are ever spawned.  Otherwise both
  are, in this order: the one tries each neighbor once, the other listens, and panics if the list of
  local addresses is empty.\<close>

theorem startup:
  fixes L :: "'n ipnet_ops" and N :: "('m, 'a, 'p) netlink"
  assumes "read_file (case arg of None \<Rightarrow> ''ubgpd.conf'' | Some p \<Rightarrow> p) = Ok doc" and "toml doc = Some t"
    and "ns = (case tc_neighbors t of None \<Rightarrow> [] | Some ns \<Rightarrow> ns)"
    and "fams = (case tc_families t of None \<Rightarrow> [ipv4_unicast] | Some fs \<Rightarrow> fs)"
  shows "(tc_localips t = None \<longrightarrow> program read_file toml N L arg = Err ''Local IPs not configured'')
    \<and> (tc_localips t \<noteq> None \<longrightarrow> (panics (program read_file toml N L arg) \<longleftrightarrow> (\<exists>n \<in> set ns. parse_ip (tn_ip n) = None)))
    \<and> (tc_localips t \<noteq> None \<and> \<not> panics (program read_file toml N L arg) \<longrightarrow>
        (\<exists>(sp :: ('n, 'm, 'p) speaker) sp' spawned r. program read_file toml N L arg = Ok (sp, sp', spawned, r)
          \<and> r = (if nl_connected N \<or> fams = [] then Ok () else Panic UnwrapErr)
          \<and> spawned = (if nl_connected N then concat (map (\<lambda>fam. [Run_Rib_Mgr fam, Run_Fib_Mgr fam]) fams) else [])
              @ (if nl_connected N \<or> fams = [] then [Run_Connect_Mgr, Run_Listen] else [])
          \<and> local_asn sp' = tc_asn t \<and> router_id sp' = tc_rid t
          \<and> map remote_ip (neighbors sp') = map (\<lambda>n. parse_ip (tn_ip n)) ns
          \<and> map remote_asn (neighbors sp') = map (\<lambda>n. Some (tn_asn n)) ns
          \<and> map remote_port (neighbors sp') = map (\<lambda>n. Some (tn_port n)) ns
          \<and> set (map nb_state (neighbors sp')) \<subseteq> {Idle}
          \<and> (\<forall>fam. sp_rib sp' fam = (if nl_connected N \<and> fam \<in> set fams then Some Map.empty else None))
          \<and> connect_mgr sp' = [0..<length ns]
          \<and> (\<forall>binds turns. panics (listen binds turns sp') \<longleftrightarrow> tc_localips t = Some [])))"
proof -
  have program: "program read_file toml N L arg =
      bind_outcome (main_setup (Some (decode_config t))) (\<lambda>sp. Ok (sp, start N L sp))"
    using assms(1,2) by (simp add: program_def Let_def)
  consider "tc_localips t = None" | ips where "tc_localips t = Some ips" "\<exists>n \<in> set ns. parse_ip (tn_ip n) = None"
    | ips where "tc_localips t = Some ips" "\<not> (\<exists>n \<in> set ns. parse_ip (tn_ip n) = None)"
    by blast
  then show ?thesis
  proof cases
    case 1
    then show ?thesis by (simp add: program setup_no_localips)
  next
    case 2
    then show ?thesis by (simp add: program panics_bind setup_listed(1) [OF 2(1) assms(3)])
  next
    case 3
    from setup_listed(2) [OF 3(1) assms(3) 3(2)] obtain sp :: "('n, 'm, 'p) speaker"
      where sp: "main_setup (Some (decode_config t)) = Ok sp" and set_up: "local_asn sp = tc_asn t" "router_id sp = tc_rid t"
        "map remote_ip (neighbors sp) = map (\<lambda>n. parse_ip (tn_ip n)) ns"
        "map remote_asn (neighbors sp) = map (\<lambda>n. Some (tn_asn n)) ns"
        "map remote_port (neighbors sp) = map (\<lambda>n. Some (tn_port n)) ns"
        "set (map nb_state (neighbors sp)) \<subseteq> {Idle}" "local_ips sp = ips" "sp_rib sp = Map.empty" "families sp = fams"
      unfolding assms(4) by blast
    obtain sp' spawned r where started: "start N L sp = (sp', spawned, r)" by (rule prod_cases3)
    have "connect_mgr sp' = [0..<length ns]"
      using arg_cong [OF set_up(3), of length] by (simp add: connect_mgr_def start_result(3) [OF started])
    with sp 3 start_result [OF started] set_up show ?thesis
      by (simp add: program started panics_listen del: set_map)
  qed
qed

text \<open>The configuration file of the repository, \<open>ubgpd.conf\<close>; it gives its local address as \<open>localip\<close>, a field
  the program does not have.\<close>

definition sample_neighbor :: "u16 \<Rightarrow> string \<Rightarrow> toml_neighbor" where
  "sample_neighbor asn ip = \<lparr>tn_asn = asn, tn_ip = ip, tn_port = 179, tn_hold_time = Some 3, tn_families = None,
     tn_connect_retry = Some 5, tn_keepalive_interval = Some 1, tn_max_retry_count = None, tn_exponential_backoff = None\<rparr>"

definition sample_config :: toml_config where
  "sample_config = \<lparr>tc_asn = 42, tc_rid = 33686018, tc_localips = None, tc_port = Some 179, tc_hold_time = None,
     tc_families = Some [\<lparr>afi = Ipv4, safi = NLRIUnicast\<rparr>, \<lparr>afi = Ipv6, safi = NLRIUnicast\<rparr>],
     tc_neighbors = Some [sample_neighbor 123 ''192.168.122.225'', sample_neighbor 666 ''192.168.122.170'']\<rparr>"

lemma sample_config_localips: "tc_localips sample_config = None"
  by (simp add: sample_config_def)

theorem startup_witness:
  "program (\<lambda>_. Ok []) (\<lambda>_. Some sample_config) netlink1 ref_ipnet None = Err ''Local IPs not configured''
    \<and> (\<exists>sp sp'. program (\<lambda>_. Ok []) (\<lambda>_. Some (sample_config\<lparr>tc_localips := Some [V4 1], tc_families := None,
          tc_neighbors := Some [sample_neighbor 123 ''0.0.0.9'']\<rparr>)) netlink1 ref_ipnet None =
            Ok (sp, sp', [Run_Rib_Mgr ipv4_unicast, Run_Fib_Mgr ipv4_unicast, Run_Connect_Mgr, Run_Listen], Ok ())
        \<and> map remote_ip (neighbors sp') = [Some (V4 9)] \<and> connect_mgr sp' = [0] \<and> \<not> panics (listen (\<lambda>_. True) [] sp'))"
proof
  show "program (\<lambda>_. Ok []) (\<lambda>_. Some sample_config) netlink1 ref_ipnet None = Err ''Local IPs not configured''"
    using startup [where read_file = "\<lambda>_. Ok []" and toml = "\<lambda>_. Some sample_config" and t = sample_config and arg = None
        and N = netlink1 and L = ref_ipnet, OF refl refl refl refl] sample_config_localips by (rule mp [OF conjunct1])
  let ?t = "sample_config\<lparr>tc_localips := Some [V4 1], tc_families := None, tc_neighbors := Some [sample_neighbor 123 ''0.0.0.9'']\<rparr>"
  show "\<exists>sp sp'. program (\<lambda>_. Ok []) (\<lambda>_. Some ?t) netlink1 ref_ipnet None =
        Ok (sp, sp', [Run_Rib_Mgr ipv4_unicast, Run_Fib_Mgr ipv4_unicast, Run_Connect_Mgr, Run_Listen], Ok ())
      \<and> map remote_ip (neighbors sp') = [Some (V4 9)] \<and> connect_mgr sp' = [0] \<and> \<not> panics (listen (\<lambda>_. True) [] sp')"
    using startup [where read_file = "\<lambda>_. Ok []" and toml = "\<lambda>_. Some ?t" and t = ?t and arg = None and N = netlink1
        and L = ref_ipnet and ns = "[sample_neighbor 123 ''0.0.0.9'']" and fams = "[ipv4_unicast]"] parse_ip_9
    by (auto simp: sample_neighbor_def netlink1_def)
qed

end
