(* ===== verification/Fib_Manager.thy ===== *)
theory Fib_Manager
  imports Fib Loc_Rib
begin

text \<open>
  \<open>fib_mgr\<close> of \<open>src/speaker/manager.rs\<close>: what wakes it up and what it does then, and what its rounds come to
  when the kernel does what it is asked.  Refresh and \<open>sync\<close> open a netlink connection each.
\<close>

section \<open>The manager\<close>

text \<open>What \<open>timeout(30 s, rx.recv())\<close> yields.\<close>

datatype fib_wakeup = Fib_Event fib_event | Fib_Closed | Fib_Timeout

definition fib_round ::
    "('m, 'a, 'p) netlink \<Rightarrow> ('m, 'a, 'p) netlink \<Rightarrow> 'n ipnet_ops \<Rightarrow> ('n rib \<Rightarrow> 'n nlri list)
      \<Rightarrow> fib_wakeup \<Rightarrow> 'n rib \<Rightarrow> ('n, 'm, 'p) fib \<Rightarrow> (string, (('n, 'm, 'p) fib \<times> kernel_request list) option) outcome" where
  "fib_round N N' L order w rib fib =
     (case w of
        Fib_Event RibUpdated \<Rightarrow> bind_outcome (refresh N L fib) (\<lambda>fib. Ok (Some (fib, sync N' L fib rib (order rib))))
      | Fib_Closed \<Rightarrow> Ok None
      | Fib_Timeout \<Rightarrow> bind_outcome (refresh N L fib) (\<lambda>fib. Ok (Some (fib, []))))"

text \<open>The loop over what the manager meets: the kernel twice, its wake-up, and the RIB at that time.\<close>

fun fib_loop ::
    "'n ipnet_ops \<Rightarrow> ('n rib \<Rightarrow> 'n nlri list) \<Rightarrow> ('n, 'm, 'p) fib
      \<Rightarrow> (('m, 'a, 'p) netlink \<times> ('m, 'a, 'p) netlink \<times> fib_wakeup \<times> 'n rib) list
      \<Rightarrow> (string, ('n, 'm, 'p) fib \<times> kernel_request list) outcome" where
  "fib_loop L order fib [] = Ok (fib, [])"
| "fib_loop L order fib ((N, N', w, rib) # ws) =
     bind_outcome (fib_round N N' L order w rib fib) (\<lambda>r. case r of
         None \<Rightarrow> Ok (fib, [])
       | Some (fib, reqs) \<Rightarrow> bind_outcome (fib_loop L order fib ws) (\<lambda>(fib, more). Ok (fib, reqs @ more)))"

definition fib_mgr ::
    "('m, 'a, 'p) netlink \<Rightarrow> 'n ipnet_ops \<Rightarrow> ('n rib \<Rightarrow> 'n nlri list) \<Rightarrow> ('n, 'm, 'p) fib
      \<Rightarrow> (('m, 'a, 'p) netlink \<times> ('m, 'a, 'p) netlink \<times> fib_wakeup \<times> 'n rib) list
      \<Rightarrow> (string, ('n, 'm, 'p) fib \<times> kernel_request list) outcome" where
  "fib_mgr N L order fib ws = bind_outcome (refresh N L fib) (\<lambda>fib. fib_loop L order fib ws)"

section \<open>Rounds\<close>

text \<open>The table has a route for a request.\<close>

definition installed :: "'n ipnet_ops \<Rightarrow> ('n, 'm, 'p) fib_entry list \<Rightarrow> kernel_request \<Rightarrow> bool" where
  "installed L es r \<longleftrightarrow> (\<exists>fe \<in> set es. \<exists>p. fe_prefix fe = Some p \<and> net_addr L p = dst r
     \<and> net_prefix_len L p = plen r \<and> fe_next_hop fe = Some (gateway r))"

text \<open>What a kernel is expected to do with requests: keep its routes and add the new ones.\<close>

definition honours :: "'n ipnet_ops \<Rightarrow> ('n, 'm, 'p) fib \<Rightarrow> kernel_request list \<Rightarrow> ('n, 'm, 'p) fib \<Rightarrow> bool" where
  "honours L fib reqs fib' \<longleftrightarrow>
     set (fib_routes fib) \<subseteq> set (fib_routes fib') \<and> (\<forall>r \<in> set reqs. installed L (fib_routes fib') r)"

text \<open>The prefixes of a RIB with the next hops of their routes.\<close>

definition rib_hops :: "'n rib \<Rightarrow> ('n nlri \<times> ip_addr) set" where
  "rib_hops rib = {(n, next_hop a) | n a. \<exists>as. rib n = Some as \<and> a \<in> set as}"

lemma finite_rib_hops: "finite (dom rib) \<Longrightarrow> finite (rib_hops rib)"
proof -
  assume fin: "finite (dom rib)"
  have "rib_hops rib = (\<Union>n \<in> dom rib. (\<lambda>a. (n, next_hop a)) ` set (the (rib n)))"
    by (force simp: rib_hops_def)
  with fin show ?thesis by simp
qed

lemma installed_find_route:
  assumes "ipnet_laws L" and "installed L (fib_routes fib) (Route_Add (net_addr L subnet) (net_prefix_len L subnet) hop)"
  shows "find_route fib subnet hop \<noteq> None"
  using assms by (auto simp: installed_def find_route_None dest: ipnet_laws.net_eqI)

lemma find_route_mono:
  assumes "set (fib_routes fib) \<subseteq> set (fib_routes fib')" and "find_route fib subnet hop \<noteq> None"
  shows "find_route fib' subnet hop \<noteq> None"
  using assms by (auto simp: find_route_None)

text \<open>What a round asked for: a best reachable route that the table did not have.\<close>

lemma fib_round_asks:
  assumes "fib_round N N' L order w rib fib = Ok (Some (fib', reqs))" and "reqs \<noteq> []"
  obtains n and a :: route_attributes where "(n, next_hop a) \<in> rib_hops rib" and "find_route fib' (net n) (next_hop a) = None"
    and "Route_Add (net_addr L (net n)) (net_prefix_len L (net n)) (next_hop a) \<in> set reqs"
proof -
  obtain e where w: "w = Fib_Event e" using assms by (cases w) (auto simp: fib_round_def bind_eq_Ok)
  then have reqs: "reqs = sync N' L fib' rib (order rib)"
    using assms(1) by (cases e) (auto simp: fib_round_def bind_eq_Ok)
  obtain r where r: "r \<in> set reqs" using assms(2) by (cases reqs) auto
  with reqs obtain n as where n: "rib n = Some as" and "r \<in> set (sync_entry L fib' n as)"
    by (auto simp: sync_def split: if_splits option.splits dest: sym)
  then obtain a where a: "find (\<lambda>a. has_route L fib' (next_hop a)) as = Some a"
    "find_route fib' (net n) (next_hop a) = None"
    "r = Route_Add (net_addr L (net n)) (net_prefix_len L (net n)) (next_hop a)"
    by (auto simp: sync_entry_eq)
  moreover from this have "a \<in> set as" by (auto simp: find_Some_iff)
  ultimately show thesis using that [of n a] n r by (auto simp: rib_hops_def)
qed

text \<open>Rounds over the same RIB, with kernels that do what they are asked: each round that asks for
  something asks for a route no round before has asked for.\<close>

lemma fib_rounds_bounded:
  fixes T :: "nat \<Rightarrow> ('n, 'm, 'p) fib" and R :: "nat \<Rightarrow> kernel_request list"
  assumes L: "ipnet_laws L" and fin: "finite (dom rib)"
    and round: "\<And>k. fib_round (N k) (N' k) L order (w k) rib (T k) = Ok (Some (T (Suc k), R k))"
    and kernel: "\<And>k. honours L (T (Suc k)) (R k) (T (Suc (Suc k)))"
  shows "finite {k. R k \<noteq> []} \<and> card {k. R k \<noteq> []} \<le> card (rib_hops rib)"
proof -
  have grows: "set (fib_routes (T (Suc j))) \<subseteq> set (fib_routes (T (Suc (j + d))))" for j d
    by (induction d) (use kernel in \<open>auto simp: honours_def\<close>)
  let ?asked = "\<lambda>k x. x \<in> rib_hops rib \<and> find_route (T (Suc k)) (net (fst x)) (snd x) = None
    \<and> Route_Add (net_addr L (net (fst x))) (net_prefix_len L (net (fst x))) (snd x) \<in> set (R k)"
  have "\<exists>x. ?asked k x" if "R k \<noteq> []" for k
    using fib_round_asks [OF round that] by (metis fst_conv snd_conv)
  then obtain f where f: "\<And>k. R k \<noteq> [] \<Longrightarrow> ?asked k (f k)" by metis
  have "f j \<noteq> f k" if "R j \<noteq> []" "R k \<noteq> []" "j < k" for j k
  proof -
    have "find_route (T (Suc (Suc j))) (net (fst (f j))) (snd (f j)) \<noteq> None"
      by (rule installed_find_route [OF L]) (use f [OF that(1)] kernel in \<open>auto simp: honours_def\<close>)
    then have "find_route (T (Suc k)) (net (fst (f j))) (snd (f j)) \<noteq> None"
      by (rule find_route_mono [rotated]) (use grows [of "Suc j" "k - Suc j"] that(3) in simp)
    with f [OF that(2)] show ?thesis by auto
  qed
  then have inj: "inj_on f {k. R k \<noteq> []}"
    by (intro inj_onI) (metis (mono_tags, lifting) mem_Collect_eq nat_neq_iff)
  have image: "f ` {k. R k \<noteq> []} \<subseteq> rib_hops rib" using f by auto
  show ?thesis
    using inj_on_finite [OF inj image finite_rib_hops [OF fin]] card_inj_on_le [OF inj image finite_rib_hops [OF fin]]
    by simp
qed

text \<open>A round on an event that asks for nothing leaves nothing to ask for.\<close>

lemma fib_round_complete:
  assumes "fib_round N N' L order (Fib_Event RibUpdated) rib fib = Ok (Some (fib', []))" and "nl_connected N'"
    and "dom rib \<subseteq> set (order rib)" and "rib_best L fib' rib n = Some a" and "same_family (net_addr L (net n)) (next_hop a)"
  shows "find_route fib' (net n) (next_hop a) \<noteq> None"
proof -
  have "sync N' L fib' rib (order rib) = []" using assms(1) by (auto simp: fib_round_def bind_eq_Ok)
  moreover obtain as where n: "rib n = Some as" and a: "best_reachable L fib' as = Some a"
    using assms(4) by (auto simp: rib_best_def split: option.splits)
  moreover have "n \<in> set (order rib)" using assms(3) n by auto
  ultimately have "sync_entry L fib' n as = []" using assms(2) by (auto simp: sync_def)
  with a assms(5) show ?thesis
    by (auto simp: sync_entry_def best_reachable_def add_route_eq simp del: add_route.simps split: option.splits)
qed

end
