(* ===== verification/Session_Task.thy ===== *)
theory Session_Task
  imports System
begin

text \<open>
  The task of a session, \<open>fsm_tcp\<close> and \<open>fsm_loop\<close> of \<open>src/neighbor/fsm.rs\<close>: it waits for the next event of
  its queue and the next frame of its stream, handles what comes, and puts the neighbor back to idle
  when the loop ends.  What the task meets is a list of turns, so a run is a function of that list.
  Between its own turns other tasks work on the speaker and send to its queue.  A queue that is full is
  not part of this theory; the bounded queues are in \<open>Locking\<close>.
\<close>

section \<open>The loop\<close>

text \<open>\<open>Receive\<close>: the loop takes an event, if there is one.  \<open>Read_Frame\<close>: the codec cut a frame off the
  stream at the given time, and the receivers given are there.  \<open>Read_Failed\<close>: it reported an error.  \<open>Read_End\<close>: the peer has closed the stream,
  \<open>next\<close> yields nothing, and the branch of the \<open>select\<close> is passed over.  \<open>Posted\<close> and \<open>Others\<close> are not turns of
  the loop: another task sends to the queue, or other handlers leave the speaker as given.\<close>

datatype ('n, 'm, 'p) turn =
    Receive
  | Read_Frame nat "chan \<Rightarrow> bool" bytes
  | Read_Failed
  | Read_End
  | Posted "'n event"
  | Others "('n, 'm, 'p) speaker"

record ('n, 'm, 'p) session =
  s_speaker :: "('n, 'm, 'p) speaker"
  s_conn :: conn
  s_queue :: "'n event list"
  s_sent :: "'n action list"

text \<open>What a handler sends on the session's own channel comes back through its queue.\<close>

fun own_events :: "chan \<Rightarrow> 'n action list \<Rightarrow> 'n event list" where
  "own_events ch [] = []"
| "own_events ch (Send_Event c e # acts) = (if c = ch then e # own_events ch acts else own_events ch acts)"
| "own_events ch (_ # acts) = own_events ch acts"

type_synonym ('n, 'm, 'p) round = "('n, 'm, 'p) session \<times> (string, unit) outcome option"

text \<open>\<open>process_event\<close> with what it leaves; \<open>go_on\<close> is how the loop goes on after it.\<close>

definition session_event ::
    "'n ipnet_ops \<Rightarrow> ((route_attributes \<times> 'n nlri list) list \<Rightarrow> (route_attributes \<times> 'n nlri list) list)
      \<Rightarrow> nat \<Rightarrow> 'n event \<Rightarrow> (string, unit) outcome option \<Rightarrow> ('n, 'm, 'p) session \<Rightarrow> ('n, 'm, 'p) round" where
  "session_event L order i e go_on st =
     (let sp = s_speaker st
      in case process_event L order (local_info_of sp) e (neighbors sp ! i) (s_conn st) of
           Ok (nb, c) \<Rightarrow> (st\<lparr>s_speaker := upd_neighbor i nb sp, s_conn := c\<rparr>, go_on)
         | Err x \<Rightarrow> (st, Some (Err x))
         | Panic p \<Rightarrow> (st, Some (Panic p)))"

text \<open>The loop holds the receiver of its own channel.\<close>

definition session_message ::
    "('n rib \<Rightarrow> 'n nlri list) \<Rightarrow> chan \<Rightarrow> nat \<Rightarrow> nat \<Rightarrow> (chan \<Rightarrow> bool) \<Rightarrow> 'n message \<Rightarrow> ('n, 'm, 'p) session \<Rightarrow> ('n, 'm, 'p) round" where
  "session_message rib_order ch i now alive m st =
     (let sp = s_speaker st
      in case process_message (\<lambda>c. c = ch \<or> alive c) rib_order m sp now (neighbors sp ! i) of
           (nb, acts, r) \<Rightarrow>
             (st\<lparr>s_speaker := upd_neighbor i nb sp, s_queue := s_queue st @ own_events ch acts, s_sent := s_sent st @ acts\<rparr>,
              case r of Ok _ \<Rightarrow> None | _ \<Rightarrow> Some r))"

definition read_failed ::
    "'n ipnet_ops \<Rightarrow> ((route_attributes \<times> 'n nlri list) list \<Rightarrow> (route_attributes \<times> 'n nlri list) list)
      \<Rightarrow> nat \<Rightarrow> ('n, 'm, 'p) session \<Rightarrow> ('n, 'm, 'p) round" where
  "read_failed L order i st = session_event L order i TcpConnectionFails (Some (Err ''Connection read error'')) st"

definition fsm_round ::
    "'n ipnet_ops \<Rightarrow> build \<Rightarrow> ((route_attributes \<times> 'n nlri list) list \<Rightarrow> (route_attributes \<times> 'n nlri list) list)
      \<Rightarrow> ('n rib \<Rightarrow> 'n nlri list) \<Rightarrow> chan \<Rightarrow> nat \<Rightarrow> ('n, 'm, 'p) turn \<Rightarrow> ('n, 'm, 'p) session \<Rightarrow> ('n, 'm, 'p) round" where
  "fsm_round L b order rib_order ch i t st =
     (case t of
        Receive \<Rightarrow>
          (case s_queue st of
             [] \<Rightarrow> (st, None)
           | e # q \<Rightarrow>
               if e = TcpConnectionFails then (st\<lparr>s_queue := q\<rparr>, Some (Ok ()))
               else session_event L order i e None (st\<lparr>s_queue := q\<rparr>))
      | Read_Frame now alive f \<Rightarrow>
          (case message_from_bytes b L f of
             Ok m \<Rightarrow> session_message rib_order ch i now alive m st
           | Err _ \<Rightarrow> read_failed L order i st
           | Panic p \<Rightarrow> (st, Some (Panic p)))
      | Read_Failed \<Rightarrow> read_failed L order i st
      | Read_End \<Rightarrow> (st, None)
      | Posted e \<Rightarrow> (st\<lparr>s_queue := s_queue st @ [e]\<rparr>, None)
      | Others sp \<Rightarrow> (st\<lparr>s_speaker := sp\<rparr>, None))"

text \<open>The result is \<open>None\<close> while the loop goes on.\<close>

fun fsm_loop ::
    "'n ipnet_ops \<Rightarrow> build \<Rightarrow> ((route_attributes \<times> 'n nlri list) list \<Rightarrow> (route_attributes \<times> 'n nlri list) list)
      \<Rightarrow> ('n rib \<Rightarrow> 'n nlri list) \<Rightarrow> chan \<Rightarrow> nat \<Rightarrow> ('n, 'm, 'p) turn list \<Rightarrow> ('n, 'm, 'p) session \<Rightarrow> ('n, 'm, 'p) round" where
  "fsm_loop L b order rib_order ch i [] st = (st, None)"
| "fsm_loop L b order rib_order ch i (t # ts) st =
     (case fsm_round L b order rib_order ch i t st of
        (st', None) \<Rightarrow> fsm_loop L b order rib_order ch i ts st'
      | (st', Some r) \<Rightarrow> (st', Some r))"

section \<open>The task\<close>

text \<open>A first event that fails ends the task with the channel in place; so does a panic.\<close>

definition end_session :: "nat \<Rightarrow> ('n, 'm, 'p) session \<Rightarrow> ('n, 'm, 'p) session" where
  "end_session i st = st\<lparr>s_speaker := upd_neighbor i (session_end (neighbors (s_speaker st) ! i)) (s_speaker st)\<rparr>"

definition fsm_tcp ::
    "'n ipnet_ops \<Rightarrow> build \<Rightarrow> ((route_attributes \<times> 'n nlri list) list \<Rightarrow> (route_attributes \<times> 'n nlri list) list)
      \<Rightarrow> ('n rib \<Rightarrow> 'n nlri list) \<Rightarrow> chan \<Rightarrow> nat \<Rightarrow> ('n, 'm, 'p) turn list \<Rightarrow> ('n, 'm, 'p) speaker \<Rightarrow> conn
      \<Rightarrow> ('n, 'm, 'p) round" where
  "fsm_tcp L b order rib_order ch i ts sp c =
     (case session_start L order (local_info_of sp) ch (neighbors sp ! i) c of
        (nb, r) \<Rightarrow>
          (let st = \<lparr>s_speaker = upd_neighbor i nb sp, s_conn = c, s_queue = [], s_sent = []\<rparr>
           in case r of
                Err x \<Rightarrow> (st, Some (Err x))
              | Panic p \<Rightarrow> (st, Some (Panic p))
              | Ok c' \<Rightarrow>
                  (case fsm_loop L b order rib_order ch i ts (st\<lparr>s_conn := c'\<rparr>) of
                     (st', None) \<Rightarrow> (st', None)
                   | (st', Some (Panic p)) \<Rightarrow> (st', Some (Panic p))
                   | (st', Some res) \<Rightarrow> (end_session i st', Some res))))"

section \<open>The loop takes steps of the system\<close>

text \<open>Where the other tasks work, they take steps of the system.\<close>

fun others_step ::
    "'n ipnet_ops \<Rightarrow> build \<Rightarrow> ((route_attributes \<times> 'n nlri list) list \<Rightarrow> (route_attributes \<times> 'n nlri list) list)
      \<Rightarrow> ('n rib \<Rightarrow> 'n nlri list) \<Rightarrow> chan \<Rightarrow> nat \<Rightarrow> ('n, 'm, 'p) turn list \<Rightarrow> ('n, 'm, 'p) session \<Rightarrow> bool" where
  "others_step L b order rib_order ch i [] st \<longleftrightarrow> True"
| "others_step L b order rib_order ch i (t # ts) st \<longleftrightarrow>
     (case t of Others sp \<Rightarrow> (sys_step L b)\<^sup>*\<^sup>* (s_speaker st) sp | _ \<Rightarrow> True)
     \<and> (case fsm_round L b order rib_order ch i t st of
          (st', None) \<Rightarrow> others_step L b order rib_order ch i ts st' | _ \<Rightarrow> True)"

lemma sys_steps_length: "(sys_step L b)\<^sup>*\<^sup>* sp sp' \<Longrightarrow> length (neighbors sp') = length (neighbors sp)"
  by (induction rule: rtranclp_induct) (auto dest!: sys_step_cases_neighbor simp: same_speaker_def)

lemma session_event_step:
  assumes "session_event L order i e g st = (st', r)" and "i < length (neighbors (s_speaker st))"
  shows "(sys_step L b)\<^sup>*\<^sup>* (s_speaker st) (s_speaker st')"
  using assms(1) step_event [OF assms(2), of L order e "s_conn st"]
  by (auto simp: session_event_def Let_def split: outcome.splits prod.splits intro!: r_into_rtranclp)

lemma session_message_step:
  assumes "session_message ro ch i now alive m st = (st', r)" and "message_from_bytes b L f = Ok m"
    and "i < length (neighbors (s_speaker st))"
  shows "(sys_step L b)\<^sup>*\<^sup>* (s_speaker st) (s_speaker st')"
  using assms step_message [OF assms(3,2)]
  by (auto simp: session_message_def Let_def split: prod.splits intro!: r_into_rtranclp)

lemma fsm_round_step:
  assumes "fsm_round L b order ro ch i t st = (st', r)" and "i < length (neighbors (s_speaker st))"
    and "\<And>sp. t = Others sp \<Longrightarrow> (sys_step L b)\<^sup>*\<^sup>* (s_speaker st) sp"
  shows "(sys_step L b)\<^sup>*\<^sup>* (s_speaker st) (s_speaker st')"
proof (cases t)
  case Receive
  then show ?thesis
    using assms(1,2) session_event_step [of L order i _ None _ st' r b]
    by (auto simp: fsm_round_def split: list.splits if_splits) (metis session.select_convs(1) session.surjective session.update_convs(3))
next
  case (Read_Frame now alive f)
  then show ?thesis
    using assms(1,2) session_event_step [of L order i _ _ st st' r b] session_message_step [of ro ch i now alive _ st st' r b L f]
    by (auto simp: fsm_round_def read_failed_def split: outcome.splits)
next
  case Read_Failed
  then show ?thesis
    using assms(1,2) session_event_step [of L order i _ _ st st' r b] by (simp add: fsm_round_def read_failed_def)
qed (use assms in \<open>auto simp: fsm_round_def\<close>)

lemma fsm_loop_steps:
  assumes "fsm_loop L b order ro ch i ts st = (st', r)" and "i < length (neighbors (s_speaker st))"
    and "others_step L b order ro ch i ts st"
  shows "(sys_step L b)\<^sup>*\<^sup>* (s_speaker st) (s_speaker st')"
  using assms
proof (induction ts arbitrary: st)
  case (Cons t ts)
  obtain st1 q where round: "fsm_round L b order ro ch i t st = (st1, q)" by (cases "fsm_round L b order ro ch i t st")
  have one: "(sys_step L b)\<^sup>*\<^sup>* (s_speaker st) (s_speaker st1)"
  proof (rule fsm_round_step [OF round Cons.prems(2)])
    show "t = Others sp \<Longrightarrow> (sys_step L b)\<^sup>*\<^sup>* (s_speaker st) sp" for sp
      using Cons.prems(3) by simp
  qed
  show ?case
  proof (cases q)
    case None
    have "(sys_step L b)\<^sup>*\<^sup>* (s_speaker st1) (s_speaker st')"
      using Cons.prems round None sys_steps_length [OF one] by (intro Cons.IH) auto
    with one show ?thesis by (rule rtranclp_trans)
  next
    case (Some x)
    with Cons.prems(1) round one show ?thesis by simp
  qed
qed simp

section \<open>How the loop ends\<close>

lemma process_event_fails: "process_event L order s TcpConnectionFails nb c = Ok (nb, c)"
  by (cases "nb_state nb")
    (simp_all add: process_event_def process_event_active_def process_event_connect_def process_event_openconfirm_def
      process_event_opensent_def process_event_established_def)

lemma read_failed_ends: "snd (read_failed L order i st) = Some (Err ''Connection read error'')"
  by (simp add: read_failed_def session_event_def Let_def process_event_fails)

text \<open>An event of the queue is behind finitely many others: once the loop has received that often, it
  has ended, whatever else comes in between.\<close>

lemma session_event_queue: "s_queue (fst (session_event L order i e g st)) = s_queue st"
  by (simp add: session_event_def Let_def split: outcome.split prod.split)

lemma fsm_round_queue:
  assumes "fsm_round L b order ro ch i t st = (st', None)" and "s_queue st = e # es"
  shows "\<exists>q. s_queue st' = (if t = Receive then es else e # es) @ q \<and> (t = Receive \<longrightarrow> e \<noteq> TcpConnectionFails)"
proof (cases t)
  case Receive
  with assms have e: "e \<noteq> TcpConnectionFails" and st': "session_event L order i e None (st\<lparr>s_queue := es\<rparr>) = (st', None)"
    by (auto simp: fsm_round_def split: if_splits)
  with Receive session_event_queue [of L order i e None "st\<lparr>s_queue := es\<rparr>"] show ?thesis by simp
next
  case (Read_Frame now alive f)
  then show ?thesis
    using assms read_failed_ends [of L order i st]
    by (auto simp: fsm_round_def session_message_def Let_def split: outcome.splits prod.splits)
next
  case Read_Failed
  then show ?thesis using assms read_failed_ends [of L order i st] by (simp add: fsm_round_def)
qed (use assms in \<open>auto simp: fsm_round_def\<close>)

definition receives :: "('n, 'm, 'p) turn list \<Rightarrow> nat" where
  "receives ts = length (filter (\<lambda>t. t = Receive) ts)"

lemma fsm_loop_drains:
  assumes "s_queue st = xs @ TcpConnectionFails # ys" and "length xs < receives ts"
  shows "snd (fsm_loop L b order ro ch i ts st) \<noteq> None"
  using assms
proof (induction ts arbitrary: st xs ys)
  case (Cons t ts)
  obtain st1 q where round: "fsm_round L b order ro ch i t st = (st1, q)" by (cases "fsm_round L b order ro ch i t st")
  show ?case
  proof (cases q)
    case None
    obtain e es where es: "xs @ TcpConnectionFails # ys = e # es" by (cases xs) auto
    with fsm_round_queue [of L b order ro ch i t st st1 e es] round None Cons.prems(1) obtain z where
      z: "s_queue st1 = (if t = Receive then es else e # es) @ z" "t = Receive \<Longrightarrow> e \<noteq> TcpConnectionFails" by auto
    show ?thesis
    proof (cases "t = Receive")
      case True
      with z es obtain xs' where xs: "xs = e # xs'" "es = xs' @ TcpConnectionFails # ys" by (cases xs) auto
      then have "snd (fsm_loop L b order ro ch i ts st1) \<noteq> None"
        using Cons.prems(2) z(1) True by (intro Cons.IH [of st1 xs' "ys @ z"]) (auto simp: receives_def)
      with round None show ?thesis by simp
    next
      case False
      then have "snd (fsm_loop L b order ro ch i ts st1) \<noteq> None"
        using Cons.prems(2) z(1) es by (intro Cons.IH [of st1 xs "ys @ z"]) (auto simp: receives_def)
      with round None show ?thesis by simp
    qed
  qed (use round in simp)
qed (simp add: receives_def)

lemma fsm_loop_failed: "Read_Failed \<in> set ts \<Longrightarrow> snd (fsm_loop L b order ro ch i ts st) \<noteq> None"
proof (induction ts arbitrary: st)
  case (Cons t ts)
  then show ?case
    using read_failed_ends [of L order i st]
    by (cases "t = Read_Failed") (auto simp: fsm_round_def split: prod.splits option.splits)
qed simp

lemma fsm_loop_end_of_stream: "fsm_loop L b order ro ch i (replicate n Read_End) st = (st, None)"
  by (induction n) (simp_all add: fsm_round_def)

text \<open>A loop that returned without an error took \<open>TcpConnectionFails\<close> from its queue.\<close>

lemma fsm_loop_Ok:
  "fsm_loop L b order ro ch i ts st = (st', Some (Ok u)) \<Longrightarrow> Receive \<in> set ts"
proof (induction ts arbitrary: st)
  case (Cons t ts)
  have "t = Receive" if "fsm_round L b order ro ch i t st = (st', Some (Ok u))"
    using that read_failed_ends [of L order i st]
    by (cases t) (auto simp: fsm_round_def session_message_def Let_def split: outcome.splits prod.splits)
  with Cons show ?case by (auto split: prod.splits option.splits)
qed simp

lemma own_events_append: "own_events ch (xs @ ys) = own_events ch xs @ own_events ch ys"
  by (induction ch xs rule: own_events.induct) simp_all

lemma own_events_withdraw: "own_events ch (withdraw_neighbor_routes sp peer now fams) = []"
  unfolding withdraw_neighbor_routes_def
  by (induction fams) (auto simp: own_events_append split: option.split)

text \<open>A NOTIFICATION puts \<open>TcpConnectionFails\<close> behind the events that wait.\<close>

lemma fsm_round_notification:
  assumes "nb_state (neighbors (s_speaker st) ! i) = Established" and "tx (neighbors (s_speaker st) ! i) = Some ch"
    and "message_from_bytes b L f = Ok m" and "body m = MB_Notification x"
  shows "\<exists>st'. fsm_round L b order ro ch i (Read_Frame now alive f) st = (st', None)
    \<and> s_queue st' = s_queue st @ [TcpConnectionFails]"
  by (simp add: fsm_round_def session_message_def Let_def process_message_def process_message_established_def
      handle_notification_def own_events_append own_events_withdraw assms)

end
