(* ===== verification/Environment_Properties.thy ===== *)
theory Environment_Properties
  imports Fib_Manager Session_Task Session_Properties
begin

text \<open>
  What the program asks of its environment over time: the frames a session puts on its
  connection, and the routes the FIB managers ask of the kernel.
\<close>

section \<open>The stream of a session\<close>

text \<open>The types of message each state sends.\<close>

definition may_send :: "bgp_state \<Rightarrow> message_type set" where
  "may_send st =
     (case st of
        Connect \<Rightarrow> {MT_Keepalive, MT_Open}
      | Active \<Rightarrow> {MT_Open}
      | OpenConfirm \<Rightarrow> {MT_Keepalive, MT_Open}
      | Established \<Rightarrow> {MT_Keepalive, MT_Update}
      | _ \<Rightarrow> {})"

definition frames_of :: "message_type set \<Rightarrow> bytes list \<Rightarrow> bool" where
  "frames_of ts fs \<longleftrightarrow> (\<forall>f \<in> set fs. frame f \<and> (\<exists>t \<in> ts. message_type_from_u8 (f ! 18) = Some t))"

definition writes :: "message_type set \<Rightarrow> conn \<Rightarrow> conn \<Rightarrow> bool" where
  "writes ts c c' \<longleftrightarrow> (\<exists>fs. conn_out c' = conn_out c @ concat fs \<and> frames_of ts fs)"

lemma writes_nothing [simp]: "writes ts c c"
  by (auto simp: writes_def frames_of_def intro: exI [of _ "[]"])

lemma writes_trans: "writes ts a b \<Longrightarrow> writes ts b c \<Longrightarrow> writes ts a c"
  unfolding writes_def frames_of_def by (elim exE conjE) (rule_tac x = "fs @ fsa" in exI, auto)

lemma writes_mono: "writes ts a b \<Longrightarrow> ts \<subseteq> us \<Longrightarrow> writes us a b"
  unfolding writes_def frames_of_def by blast

lemma writes_framed:
  assumes "to_wire L t m = Ok data" and "framed_send msg data c = Ok c'" and "t \<in> ts"
  shows "writes ts c c'"
proof -
  obtain v where data: "data = message_type_code t # v"
    using assms(1) by (cases "body_to_bytes L m") (auto simp: to_wire_def message_to_bytes_def message_new_def
        unwrap_result_def)
  obtain out where out: "codec_encode data (conn_out c) = Ok out" "c' = c\<lparr>conn_out := out\<rparr>"
    using assms(2) by (auto simp: framed_send_def bind_eq_Ok map_err_eq_Ok split: if_splits)
  obtain f where f: "out = conn_out c @ f" "frame f" "drop 18 f = data"
    using frame_encode [OF out(1)] data by auto
  have "f ! 18 = hd (drop 18 f)" using f(2) by (subst hd_drop_conv_nth) (simp_all add: frame_def)
  then have "message_type_from_u8 (f ! 18) = Some t" by (simp add: f(3) data)
  with f out(2) assms(3) show ?thesis by (auto simp: writes_def frames_of_def intro!: exI [of _ "[f]"])
qed

lemma writes_open: "send_local_open L s msg nb c = Ok c' \<Longrightarrow> MT_Open \<in> ts \<Longrightarrow> writes ts c c'"
  by (auto simp: send_local_open_def send_open_def map_err_eq_Ok bind_eq_Ok intro: writes_framed)

lemma writes_keepalive: "send_keepalive L c = Ok c' \<Longrightarrow> MT_Keepalive \<in> ts \<Longrightarrow> writes ts c c'"
  by (auto simp: send_keepalive_def bind_eq_Ok intro: writes_framed)

lemma writes_update: "send_update L order nb routes c = Ok c' \<Longrightarrow> MT_Update \<in> ts \<Longrightarrow> writes ts c c'"
  by (auto simp: send_update_def bind_eq_Ok split: option.splits intro: writes_framed)

lemma writes_event:
  assumes "process_event L order s e nb c = Ok (nb', c')"
  shows "writes (may_send (nb_state nb)) c c'"
proof (cases "nb_state nb")
  case Connect
  with assms show ?thesis
    by (cases e) (auto simp: process_event_def process_event_connect_def may_send_def bind_eq_Ok map_err_eq_Ok
        intro: writes_open writes_keepalive)
next
  case Active
  with assms show ?thesis
    by (cases e) (auto simp: process_event_def process_event_active_def may_send_def bind_eq_Ok intro: writes_open)
next
  case OpenConfirm
  with assms show ?thesis
    by (cases e) (auto simp: process_event_def process_event_openconfirm_def may_send_def bind_eq_Ok map_err_eq_Ok
        intro: writes_open writes_keepalive)
next
  case Established
  with assms show ?thesis
    by (cases e) (auto simp: process_event_def process_event_established_def may_send_def bind_eq_Ok map_err_eq_Ok
        split: outcome.splits intro: writes_update writes_keepalive)
qed (use assms in \<open>simp_all add: process_event_def process_event_opensent_def\<close>)

text \<open>Whatever a session meets, its connection only gets frames of three types.\<close>

abbreviation session_types :: "message_type set" where
  "session_types \<equiv> {MT_Open, MT_Update, MT_Keepalive}"

lemma may_send_types: "may_send st \<subseteq> session_types"
  by (cases st) (simp_all add: may_send_def)

lemma writes_session_event:
  "session_event L order i e g st = (st', r) \<Longrightarrow> writes session_types (s_conn st) (s_conn st')"
  using writes_mono [OF writes_event may_send_types]
  by (auto simp: session_event_def Let_def split: outcome.splits prod.splits)

lemma writes_round:
  assumes "fsm_round L b order ro ch i t st = (st', r)"
  shows "writes session_types (s_conn st) (s_conn st')"
proof (cases t)
  case Receive
  then show ?thesis
    using assms writes_session_event [of L order i _ None "st\<lparr>s_queue := tl (s_queue st)\<rparr>" st' r]
    by (auto simp: fsm_round_def split: list.splits if_splits)
next
  case (Read_Frame now alive f)
  then show ?thesis
    using assms writes_session_event [of L order i _ _ st st' r]
    by (auto simp: fsm_round_def read_failed_def session_message_def Let_def split: outcome.splits prod.splits)
next
  case Read_Failed
  then show ?thesis using assms writes_session_event by (auto simp: fsm_round_def read_failed_def)
qed (use assms in \<open>auto simp: fsm_round_def\<close>)

lemma writes_loop:
  "fsm_loop L b order ro ch i ts st = (st', r) \<Longrightarrow> writes session_types (s_conn st) (s_conn st')"
proof (induction ts arbitrary: st)
  case (Cons t ts)
  obtain st1 q where round: "fsm_round L b order ro ch i t st = (st1, q)" by fastforce
  note one = writes_round [OF this]
  show ?case
  proof (cases q)
    case None
    with Cons round have "writes session_types (s_conn st1) (s_conn st')" by simp
    with one show ?thesis by (rule writes_trans)
  qed (use Cons.prems round one in auto)
qed simp

lemma writes_start:
  "session_start L order s ch nb c = (nb', Ok c') \<Longrightarrow> writes session_types c c'"
  using writes_mono [OF writes_event may_send_types]
  by (auto simp: session_start_def Let_def split: outcome.splits bgp_state.splits prod.splits)

lemma writes_tcp:
  assumes "fsm_tcp L b order ro ch i ts sp c = (st, r)"
  shows "writes session_types c (s_conn st)"
proof -
  obtain nb q where start: "session_start L order (local_info_of sp) ch (neighbors sp ! i) c = (nb, q)" by fastforce
  show ?thesis
  proof (cases q)
    case (Ok c')
    let ?st = "\<lparr>s_speaker = upd_neighbor i nb sp, s_conn = c', s_queue = [], s_sent = []\<rparr>"
    obtain st1 q1 where loop: "fsm_loop L b order ro ch i ts ?st = (st1, q1)" by fastforce
    have "writes session_types c c'" using writes_start start Ok by blast
    moreover have "writes session_types c' (s_conn st1)" using writes_loop [OF loop] by simp
    moreover have "s_conn st = s_conn st1"
      using assms start Ok loop by (auto simp: fsm_tcp_def Let_def end_session_def split: option.splits outcome.splits)
    ultimately show ?thesis using writes_trans by metis
  qed (use assms start in \<open>auto simp: fsm_tcp_def Let_def\<close>)
qed

text \<open>C30: what a session's task puts on its connection, whatever events, frames, errors and other tasks it
  meets: the bytes are, to the last one, frames a receiver's decoder takes one by one, each an OPEN, an
  UPDATE or a KEEPALIVE (a NOTIFICATION is never sent); and an event adds at most frames of the types
  its state sends: OPENs and KEEPALIVEs before a session is established, UPDATEs and KEEPALIVEs in
  ESTABLISHED, none in IDLE and OPENSENT.\<close>

theorem wire_stream_typed:
  assumes "fsm_tcp L b order ro ch i ts sp \<lparr>conn_out = [], conn_open = open\<rparr> = (st, r)"
  shows "(\<exists>fs. decode_frames (conn_out (s_conn st)) = Ok (fs, []) \<and> frames_of {MT_Open, MT_Update, MT_Keepalive} fs)
    \<and> (\<forall>fs s e nb c nb' c'. decode_frames (conn_out c) = Ok (fs, [])
        \<and> process_event L order s e nb c = Ok (nb', c') \<longrightarrow>
      (\<exists>gs. decode_frames (conn_out c') = Ok (fs @ gs, []) \<and> frames_of (may_send (nb_state nb)) gs))"
proof -
  have empty: "codec_decode [] = Ok (None, [])" by (simp add: codec_decode_def MIN_MESSAGE_LENGTH_def)
  obtain fs where fs: "conn_out (s_conn st) = concat fs" "frames_of {MT_Open, MT_Update, MT_Keepalive} fs"
    using writes_tcp [OF assms] by (auto simp: writes_def)
  then have "decode_frames (conn_out (s_conn st)) = Ok (fs, [])"
    using decode_frames_concat [OF _ empty, of fs] by (simp add: frames_of_def)
  moreover have "\<exists>gs. decode_frames (conn_out c') = Ok (fs @ gs, []) \<and> frames_of (may_send (nb_state nb)) gs"
    if dec: "decode_frames (conn_out c) = Ok (fs, [])" and ev: "process_event L order s e nb c = Ok (nb', c')"
    for fs s e nb c nb' c'
  proof -
    have c: "conn_out c = concat fs" "\<forall>f \<in> set fs. frame f" using decode_frames_sound [OF dec] by simp_all
    obtain gs where gs: "conn_out c' = conn_out c @ concat gs" "frames_of (may_send (nb_state nb)) gs"
      using writes_event [OF ev] by (auto simp: writes_def)
    with c have "decode_frames (concat (fs @ gs) @ []) = Ok (fs @ gs, [])"
      by (intro decode_frames_concat empty) (auto simp: frames_of_def)
    with c gs show ?thesis by auto
  qed
  ultimately show ?thesis using fs(2) by blast
qed

theorem wire_stream_typed_witness:
  "\<exists>st r fs. fsm_tcp ref_ipnet Debug (\<lambda>gs. gs) (\<lambda>_. []) 7 0 [Posted KeepaliveTimerExpires, Receive] started1
      \<lparr>conn_out = [], conn_open = True\<rparr> = (st, r)
    \<and> decode_frames (conn_out (s_conn st)) = Ok (fs, []) \<and> frames_of {MT_Open, MT_Update, MT_Keepalive} fs"
proof -
  obtain st r where run: "fsm_tcp ref_ipnet Debug (\<lambda>gs. gs) (\<lambda>_. []) 7 0 [Posted KeepaliveTimerExpires, Receive]
      started1 \<lparr>conn_out = [], conn_open = True\<rparr> = (st, r)" by fastforce
  from wire_stream_typed [OF this] run show ?thesis by blast
qed

section \<open>The kernel's table over time\<close>

text \<open>C31: a FIB manager comes to rest.  As long as a family's RIB stays the same, and the kernel keeps its
  routes and adds those it is asked for, the rounds of the manager ask for something at most once for
  each prefix and next hop of the RIB, whatever wakes it up and in whatever order it walks the RIB; and
  after a round on an event that asked for nothing, the table has the best reachable route of every
  prefix that has one of its own family.\<close>

theorem fib_convergence:
  fixes T :: "nat \<Rightarrow> ('n, 'm, 'p) fib" and R :: "nat \<Rightarrow> kernel_request list"
  assumes "ipnet_laws L" and "finite (dom rib)" and "dom rib \<subseteq> set (order rib)"
    and "\<forall>k. fib_round (N k) (N' k) L order (w k) rib (T k) = Ok (Some (T (Suc k), R k))"
    and "\<forall>k. honours L (T (Suc k)) (R k) (T (Suc (Suc k)))"
  shows "finite {k. R k \<noteq> []} \<and> card {k. R k \<noteq> []} \<le> card (rib_hops rib)
    \<and> (\<forall>k n a. R k = [] \<and> w k = Fib_Event RibUpdated \<and> nl_connected (N' k)
        \<and> rib_best L (T (Suc k)) rib n = Some a \<and> same_family (net_addr L (net n)) (next_hop a) \<longrightarrow>
      find_route (T (Suc k)) (net n) (next_hop a) \<noteq> None)"
proof -
  have "find_route (T (Suc k)) (net n) (next_hop a) \<noteq> None"
    if k: "R k = []" "w k = Fib_Event RibUpdated" "nl_connected (N' k)"
      "rib_best L (T (Suc k)) rib n = Some a" "same_family (net_addr L (net n)) (next_hop a)" for k n a
  proof -
    have "fib_round (N k) (N' k) L order (Fib_Event RibUpdated) rib (T k) = Ok (Some (T (Suc k), []))"
      using assms(4) k(1,2) by metis
    from fib_round_complete [OF this k(3) assms(3) k(4,5)] show ?thesis .
  qed
  with fib_rounds_bounded [OF assms(1,2), of N N' order w T R] assms(4,5) show ?thesis by blast
qed

text \<open>A kernel with a default route, and the one route it is asked for later.\<close>

type_synonym kernel_route = "ip_addr \<times> u8 \<times> ip_addr option"

definition kernel_of :: "kernel_route list \<Rightarrow> (kernel_route, ip_addr option \<times> ip_addr option, unit) netlink" where
  "kernel_of rs = \<lparr>nl_connected = True, nl_dump = \<lambda>_. rs, nl_link_name = \<lambda>_. None, rtm_prefix_length = \<lambda>(_, p, _). p,
     rtm_protocol = \<lambda>_. (), rtm_attributes = \<lambda>(d, _, g). [(Some d, None), (None, g)], attr_destination = fst,
     attr_gateway = snd, attr_oif = \<lambda>_. None\<rparr>"

definition kernel_routes :: "nat \<Rightarrow> kernel_route list" where
  "kernel_routes k = (V4 0, 0, None) # (if k = 0 then [] else [(V4 167772160, 8, Some (V4 7))])"

definition entry_of :: "kernel_route \<Rightarrow> (ref_net, kernel_route, unit) fib_entry" where
  "entry_of r = (case r of (d, p, g) \<Rightarrow> \<lparr>fe_prefix = (case d of V4 a \<Rightarrow> ipv4net_new ref_ipnet a p | V6 a \<Rightarrow> ipv6net_new ref_ipnet a p),
     fe_next_hop = g, fe_dev = None, fe_metric = None, fe_proto = (), fe_rm = r\<rparr>)"

definition table_at :: "nat \<Rightarrow> (ref_net, kernel_route, unit) fib" where
  "table_at k = \<lparr>fib_af = ipv4_unicast, fib_routes = map entry_of (kernel_routes (k - 1))\<rparr>"

lemma get_routes_kernel_of: "get_routes (kernel_of rs) ref_ipnet fam = Ok (map entry_of rs)"
proof -
  have "from_rtnl (kernel_of rs) ref_ipnet r = Some (entry_of r)" for r
    by (cases r; cases "fst r"; cases "snd (snd r)")
      (auto simp: from_rtnl_def kernel_of_def entry_of_def Let_def split: option.split)
  then show ?thesis by (simp add: get_routes_def kernel_of_def List.map_filter_def)
qed

lemma entry_of_simps:
  "entry_of (V4 0, 0, None) = \<lparr>fe_prefix = Some (ref4 0 0), fe_next_hop = None, fe_dev = None, fe_metric = None,
     fe_proto = (), fe_rm = (V4 0, 0, None)\<rparr>"
  "entry_of (V4 167772160, 8, Some (V4 7)) = \<lparr>fe_prefix = Some (net net8), fe_next_hop = Some (V4 7), fe_dev = None,
     fe_metric = None, fe_proto = (), fe_rm = (V4 167772160, 8, Some (V4 7))\<rparr>"
  by (simp_all add: entry_of_def ref_ipnet_def net8_def)

lemma table_at_routes: "fib_routes (table_at (Suc k)) = map entry_of (kernel_routes k)" "fib_af (table_at k) = ipv4_unicast"
  by (simp_all add: table_at_def)

lemma has_route_table_at: "has_route ref_ipnet (table_at (Suc k)) (V4 x)"
proof -
  have "net_contains ref_ipnet (ref4 0 0) (V4 x)"
    by (simp add: ref.contains_iff ref.network_eq) (simp add: ref_ipnet_def clear_host_def)
  then show ?thesis by (simp add: has_route_def table_at_routes kernel_routes_def entry_of_simps)
qed

lemma find_route_table_at:
  "find_route (table_at (Suc k)) (net net8) (V4 7) = (if k = 0 then None else Some (entry_of (V4 167772160, 8, Some (V4 7))))"
  by (simp add: find_route_def table_at_routes kernel_routes_def entry_of_simps)

theorem fib_convergence_witness:
  "\<exists>R. (\<forall>k. fib_round (kernel_of (kernel_routes k)) (kernel_of []) ref_ipnet (\<lambda>_. [net8]) (Fib_Event RibUpdated)
        [net8 \<mapsto> [route_of 1 path1]] (table_at k) = Ok (Some (table_at (Suc k), R k)))
    \<and> R 0 = [Route_Add (V4 167772160) 8 (V4 7)] \<and> card {k. R k \<noteq> []} \<le> 1"
proof -
  let ?rib = "[net8 \<mapsto> [route_of 1 path1]]"
  define R where "R k = (if k = 0 then [Route_Add (V4 167772160) 8 (V4 7)] else [])" for k :: nat
  have round: "fib_round (kernel_of (kernel_routes k)) (kernel_of []) ref_ipnet (\<lambda>_. [net8]) (Fib_Event RibUpdated)
      ?rib (table_at k) = Ok (Some (table_at (Suc k), R k))" for k
  proof -
    have "(refresh (kernel_of (kernel_routes k)) ref_ipnet (table_at k) :: (string, _) outcome) = Ok (table_at (Suc k))"
      by (simp add: refresh_def get_routes_kernel_of table_at_def)
    moreover have "sync (kernel_of []) ref_ipnet (table_at (Suc k)) ?rib [net8] = R k"
      using has_route_table_at [of k 7]
      by (simp add: sync_def sync_entry_def kernel_of_def find_route_table_at R_def route_of_def)
    ultimately show ?thesis by (simp add: fib_round_def)
  qed
  have honoured: "honours ref_ipnet (table_at (Suc k)) (R k) (table_at (Suc (Suc k)))" for k
    by (auto simp: honours_def table_at_routes kernel_routes_def R_def installed_def entry_of_simps)
  have "rib_hops ?rib = {(net8, V4 7)}"
    by (auto simp: rib_hops_def route_of_def)
  moreover have "finite {k. R k \<noteq> []} \<and> card {k. R k \<noteq> []} \<le> card (rib_hops ?rib)"
    using fib_convergence [where L = ref_ipnet and rib = ?rib and order = "\<lambda>_. [net8]" and T = table_at and R = R
        and N = "\<lambda>k. kernel_of (kernel_routes k)" and N' = "\<lambda>_. kernel_of []" and w = "\<lambda>_. Fib_Event RibUpdated"]
      round honoured ref.ipnet_laws_axioms by simp
  ultimately show ?thesis using round by (intro exI [of _ R]) (simp add: R_def)
qed

end
