(* ===== verification/Rib_Spec.thy ===== *)
theory Rib_Spec
  imports Loc_Rib
begin

text \<open>
  What the RIB manager promises, without the ranked lists and the hash map: for every prefix the
  routes that were added and not withdrawn, as a multiset.  The refinement of this by the code's step
  is an instance of a locale for state machines whose abstract state is a function of the detailed one.
\<close>

section \<open>Functional refinement\<close>

text \<open>\<open>ok\<close> says which inputs may come, \<open>inv\<close> is the invariant of the detailed states.\<close>

locale refinement =
  fixes inv :: "'s \<Rightarrow> bool" and ok :: "'i \<Rightarrow> bool"
    and step :: "'i \<Rightarrow> 's \<Rightarrow> 's" and abs :: "'s \<Rightarrow> 'a" and spec :: "'i \<Rightarrow> 'a \<Rightarrow> 'a"
  assumes inv_step: "ok x \<Longrightarrow> inv s \<Longrightarrow> inv (step x s)"
    and abs_step: "ok x \<Longrightarrow> inv s \<Longrightarrow> abs (step x s) = spec x (abs s)"
begin

lemma run: "list_all ok xs \<Longrightarrow> inv s \<Longrightarrow> inv (fold step xs s) \<and> abs (fold step xs s) = fold spec xs (abs s)"
  by (induction xs arbitrary: s) (simp_all add: inv_step abs_step)

lemma same_contents:
  "list_all ok xs \<Longrightarrow> list_all ok ys \<Longrightarrow> inv s \<Longrightarrow> inv s' \<Longrightarrow> abs s = abs s' \<Longrightarrow> fold spec xs = fold spec ys \<Longrightarrow>
    abs (fold step xs s) = abs (fold step ys s')"
  using run by metis

end

section \<open>The specification\<close>

type_synonym 'n contents = "'n nlri \<Rightarrow> route_attributes multiset"

definition contents :: "'n rib \<Rightarrow> 'n contents" where
  "contents rib n = (case rib n of None \<Rightarrow> {#} | Some as \<Rightarrow> mset as)"

definition spec_add :: "u16 \<Rightarrow> route_attributes \<Rightarrow> 'n nlri \<Rightarrow> 'n contents \<Rightarrow> 'n contents" where
  "spec_add asn a n c = (if is_valid asn a then c(n := add_mset a (c n)) else c)"

definition spec_withdraw :: "u32 \<Rightarrow> 'n nlri \<Rightarrow> 'n contents \<Rightarrow> 'n contents" where
  "spec_withdraw peer n c = c(n := filter_mset (\<lambda>a. peer_rid a \<noteq> peer) (c n))"

definition spec_flush :: "u32 \<Rightarrow> 'n contents \<Rightarrow> 'n contents" where
  "spec_flush peer c n = filter_mset (\<lambda>a. peer_rid a \<noteq> peer) (c n)"

definition spec_withdrawal :: "'n rib_update \<Rightarrow> 'n contents \<Rightarrow> 'n contents" where
  "spec_withdrawal routes =
     (if ru_nlris routes = [] then spec_flush (peer_rid (ru_attributes routes))
      else fold (spec_withdraw (peer_rid (ru_attributes routes))) (ru_nlris routes))"

definition spec_event :: "u16 \<Rightarrow> 'n rib_event \<Rightarrow> 'n contents \<Rightarrow> 'n contents" where
  "spec_event asn e c =
     (case e of UpdateRoutes msg \<Rightarrow>
        (let c = (case upd_added msg of None \<Rightarrow> c
               | Some routes \<Rightarrow> fold (spec_add asn (ru_attributes routes)) (ru_nlris routes) c)
         in case upd_withdrawn msg of None \<Rightarrow> c | Some routes \<Rightarrow> spec_withdrawal routes c))"

section \<open>The refinement\<close>

lemma fold_fst:
  assumes "\<And>x st. h (fst (f x st)) = g x (h (fst st))"
  shows "h (fst (fold f xs st)) = fold g xs (h (fst st))"
  by (induction xs arbitrary: st) (simp_all add: assms)

lemma contents_add: "contents (fst (add_nlri L fib asn a n st)) = spec_add asn a n (contents (fst st))"
  by (cases st) (auto simp: add_nlri_fst contents_def spec_add_def fun_eq_iff mset_rank_insert split: option.split)

lemma contents_withdraw: "contents (fst (withdraw_nlri L fib peer n st)) = spec_withdraw peer n (contents (fst st))"
proof
  fix n'
  obtain rib md where st: "st = (rib, md)" by (cases st)
  show "contents (fst (withdraw_nlri L fib peer n st)) n' = spec_withdraw peer n (contents (fst st)) n'"
  proof (cases "n' = n")
    case True
    show ?thesis
    proof (cases "rib n")
      case (Some as)
      have "mset (filter (\<lambda>a. peer_rid a \<noteq> peer) as) = filter_mset (\<lambda>a. peer_rid a \<noteq> peer) (mset as)" by simp
      with Some True show ?thesis
        by (cases "filter (\<lambda>a. peer_rid a \<noteq> peer) as = []")
          (simp_all add: st contents_def spec_withdraw_def withdraw_nlri_fst Let_def)
    qed (simp add: st True contents_def spec_withdraw_def withdraw_nlri_fst)
  qed (simp add: st contents_def spec_withdraw_def withdraw_nlri_fst)
qed

lemma fold_spec_withdraw:
  "fold (spec_withdraw peer) ns c = (\<lambda>n. if n \<in> set ns then spec_flush peer c n else c n)"
  by (induction ns arbitrary: c) (auto simp: spec_withdraw_def spec_flush_def fun_eq_iff filter_filter_mset)

lemma contents_added: "contents (fst (loc_rib_added L fib asn routes rib)) =
    fold (spec_add asn (ru_attributes routes)) (ru_nlris routes) (contents rib)"
  unfolding loc_rib_added_def by (subst fold_fst [where h = contents and g = "spec_add asn (ru_attributes routes)"]) (simp_all add: contents_add)

lemma contents_withdrawn:
  assumes "set keys = dom rib"
  shows "contents (fst (loc_rib_withdraw L fib keys routes rib)) = spec_withdrawal routes (contents rib)"
proof -
  let ?peer = "peer_rid (ru_attributes routes)"
  have "fold (spec_withdraw ?peer) (to_withdraw keys rib routes) (contents rib) = spec_withdrawal routes (contents rib)"
  proof (cases "ru_nlris routes = []")
    case True
    have "spec_flush ?peer (contents rib) n = contents rib n" if "n \<notin> set (to_withdraw keys rib routes)" for n
      using that assms True
      by (auto simp: to_withdraw_def spec_flush_def contents_def list_ex_iff filter_mset_eq_conv split: option.splits)
    then show ?thesis
      using True by (auto simp: fold_spec_withdraw spec_withdrawal_def fun_eq_iff)
  qed (simp add: to_withdraw_def spec_withdrawal_def)
  then show ?thesis
    unfolding loc_rib_withdraw_def by (subst fold_fst [where h = contents and g = "spec_withdraw ?peer"]) (simp_all add: contents_withdraw)
qed

lemma dom_add: "dom (fst (add_nlri L fib asn a n st)) \<subseteq> insert n (dom (fst st))"
  by (cases st) (auto simp: add_nlri_fst)

lemma dom_withdraw: "dom (fst (withdraw_nlri L fib peer n st)) \<subseteq> dom (fst st)"
  by (cases st) (auto simp: withdraw_nlri_fst Let_def split: if_splits option.splits)

lemma finite_added: "finite (dom rib) \<Longrightarrow> finite (dom (fst (loc_rib_added L fib asn routes rib)))"
  unfolding loc_rib_added_def
  by (rule fold_invariant [where P = "\<lambda>st. finite (dom (fst st))"]) (auto intro: finite_subset [OF dom_add])

lemma finite_withdrawn: "finite (dom rib) \<Longrightarrow> finite (dom (fst (loc_rib_withdraw L fib keys routes rib)))"
  unfolding loc_rib_withdraw_def
  by (rule fold_invariant [where P = "\<lambda>st. finite (dom (fst st))"]) (auto intro: finite_subset [OF dom_withdraw])

text \<open>An input is the FIB and the hash map's order of the moment, and the event.\<close>

type_synonym ('n, 'm, 'p) rib_input = "('n, 'm, 'p) fib \<times> ('n rib \<Rightarrow> 'n nlri list) \<times> 'n rib_event"

definition rib_input_ok :: "('n, 'm, 'p) rib_input \<Rightarrow> bool" where
  "rib_input_ok x \<longleftrightarrow> (\<forall>rib. finite (dom rib) \<longrightarrow> set (fst (snd x) rib) = dom rib)"

definition rib_input_step :: "'n ipnet_ops \<Rightarrow> u16 \<Rightarrow> ('n, 'm, 'p) rib_input \<Rightarrow> 'n rib \<Rightarrow> 'n rib" where
  "rib_input_step L asn x rib = fst (rib_event_step L (fst x) asn (fst (snd x)) (snd (snd x)) rib)"

definition spec_input :: "u16 \<Rightarrow> ('n, 'm, 'p) rib_input \<Rightarrow> 'n contents \<Rightarrow> 'n contents" where
  "spec_input asn x = spec_event asn (snd (snd x))"

lemma rib_event_step_fst:
  "fst (rib_event_step L fib asn order (UpdateRoutes msg) rib) =
    (let rib = (case upd_added msg of None \<Rightarrow> rib | Some routes \<Rightarrow> fst (loc_rib_added L fib asn routes rib))
     in case upd_withdrawn msg of None \<Rightarrow> rib | Some routes \<Rightarrow> fst (loc_rib_withdraw L fib (order rib) routes rib))"
  by (auto simp: rib_event_step_def Let_def split: option.splits prod.splits)

interpretation rib: refinement "\<lambda>rib. finite (dom rib)" rib_input_ok "rib_input_step L asn" contents "spec_input asn"
  for L :: "'n ipnet_ops" and asn :: u16
proof unfold_locales
  fix x :: "('n, 'm, 'p) rib_input" and rib :: "'n rib"
  assume ok: "rib_input_ok x" and fin: "finite (dom rib)"
  obtain fib order msg where x: "x = (fib, order, UpdateRoutes msg)"
    by (metis prod_cases3 rib_event.exhaust)
  define rib' where "rib' = (case upd_added msg of None \<Rightarrow> rib | Some routes \<Rightarrow> fst (loc_rib_added L fib asn routes rib))"
  have fin': "finite (dom rib')" using fin by (simp add: rib'_def finite_added split: option.split)
  have step: "rib_input_step L asn x rib =
      (case upd_withdrawn msg of None \<Rightarrow> rib' | Some routes \<Rightarrow> fst (loc_rib_withdraw L fib (order rib') routes rib'))"
    unfolding rib_input_step_def x fst_conv snd_conv rib_event_step_fst Let_def rib'_def [symmetric] by (rule refl)
  show "finite (dom (rib_input_step L asn x rib))"
    unfolding step using fin' by (simp add: finite_withdrawn split: option.split)
  have "set (order rib') = dom rib'" using ok fin' by (simp add: rib_input_ok_def x)
  note wd = contents_withdrawn [OF this]
  have "contents rib' = (case upd_added msg of None \<Rightarrow> contents rib
      | Some routes \<Rightarrow> fold (spec_add asn (ru_attributes routes)) (ru_nlris routes) (contents rib))"
    by (simp add: rib'_def contents_added split: option.split)
  then show "contents (rib_input_step L asn x rib) = spec_input asn x (contents rib)"
    unfolding step by (simp add: spec_input_def spec_event_def x wd Let_def split: option.split)
qed

section \<open>The best route, of the specification\<close>

text \<open>A route of the multiset with a next hop in the FIB that no other one there beats.\<close>

definition spec_best :: "'n ipnet_ops \<Rightarrow> ('n, 'm, 'p) fib \<Rightarrow> route_attributes multiset \<Rightarrow> route_attributes option \<Rightarrow> bool" where
  "spec_best L fib c best \<longleftrightarrow>
     (case best of
        None \<Rightarrow> (\<forall>b \<in># c. \<not> has_route L fib (next_hop b))
      | Some a \<Rightarrow> a \<in># c \<and> has_route L fib (next_hop a)
          \<and> (\<forall>b \<in># c. has_route L fib (next_hop b) \<longrightarrow> ra_cmp b a \<noteq> Greater))"

lemma rib_best_spec: "rib_ok asn rib \<Longrightarrow> spec_best L fib (contents rib n) (rib_best L fib rib n)"
proof (cases "rib n")
  case (Some as)
  moreover assume "rib_ok asn rib"
  ultimately have "ranked as" using rib_okD by blast
  then show ?thesis
    using Some best_reachable_Some [of as L fib] best_reachable_None [of L fib as]
    by (auto simp: spec_best_def contents_def rib_best_def split: option.split)
qed (simp add: spec_best_def contents_def rib_best_def)

lemma rib_ok_run: "rib_ok asn rib \<Longrightarrow> rib_ok asn (fold (rib_input_step L asn) xs rib)"
  by (rule fold_invariant [where P = "rib_ok asn"]) (simp_all add: rib_input_step_def rib_event_step_ok)

end
