(* ===== verification/Grpc.thy ===== *)
theory Grpc
  imports System
begin

text \<open>
  \<open>src/grpc.rs\<close> and \<open>src/ubgpc.rs\<close>: the queries of the state of a running speaker, and the client.  A reply is what the service
  returns to the client; the transport, the generated message types and the server's loop are the
  crate \<open>tonic\<close>'s.  The text of a prefix is the crate \<open>ipnet\<close>'s, the argument \<open>show_net\<close>.
\<close>

datatype status = Invalid_Argument string

record neighbor_entry =
  ne_ip :: string
  ne_port :: u32
  ne_asn :: u32
  ne_routerid :: u32
  ne_state :: string

text \<open>The \<open>Debug\<close> text of a state.\<close>

primrec state_text :: "bgp_state \<Rightarrow> string" where
  "state_text Idle = ''Idle''"
| "state_text Connect = ''Connect''"
| "state_text Active = ''Active''"
| "state_text OpenSent = ''OpenSent''"
| "state_text OpenConfirm = ''OpenConfirm''"
| "state_text Established = ''Established''"

definition neighbor_entry_of :: "'n neighbor \<Rightarrow> neighbor_entry" where
  "neighbor_entry_of nb =
     \<lparr>ne_ip = (case remote_ip nb of None \<Rightarrow> ''unknown'' | Some ip \<Rightarrow> show_ip ip),
      ne_port = (case remote_port nb of None \<Rightarrow> 179 | Some p \<Rightarrow> ucast p),
      ne_asn = (case remote_asn nb of None \<Rightarrow> 0 | Some n \<Rightarrow> ucast n),
      ne_routerid = (case remote_rid nb of None \<Rightarrow> 0 | Some r \<Rightarrow> r),
      ne_state = state_text (nb_state nb)\<rparr>"

text \<open>The two loops of \<open>get_neighbor_config\<close>: every neighbor, or those with the address.\<close>

definition get_neighbor_config :: "string option \<Rightarrow> ('n, 'm, 'p) speaker \<Rightarrow> (status, neighbor_entry list) outcome" where
  "get_neighbor_config request sp =
     (case request of
        None \<Rightarrow> Ok (map neighbor_entry_of (neighbors sp))
      | Some ip \<Rightarrow>
          (case parse_ip ip of
             None \<Rightarrow> Err (Invalid_Argument ''Invalid IP: invalid IP address syntax'')
           | Some ip \<Rightarrow>
               Ok (foldr (\<lambda>nb entries. if Some ip = remote_ip nb then neighbor_entry_of nb # entries else entries)
                     (neighbors sp) [])))"

record rib_request =
  rq_afi :: u32
  rq_safi :: u32

text \<open>\<open>get_rib\<close>: the prefixes of the RIB of a family, in the order of the hash map.\<close>

definition get_rib ::
    "('n \<Rightarrow> string) \<Rightarrow> ('n rib \<Rightarrow> 'n nlri list) \<Rightarrow> rib_request \<Rightarrow> ('n, 'm, 'p) speaker \<Rightarrow> (status, string list) outcome" where
  "get_rib show_net order request sp =
     (let a = (ucast (rq_afi request) :: u16); s = (ucast (rq_safi request) :: u8)
      in bind_outcome (ok_or (Invalid_Argument (''Invalid AFI: '' @ dec (unat a))) (afi_from_u16 a)) (\<lambda>a.
         bind_outcome (ok_or (Invalid_Argument (''Invalid SAFI: '' @ dec (unat s))) (safi_from_u8 s)) (\<lambda>s.
         case sp_rib sp \<lparr>afi = a, safi = s\<rparr> of
           None \<Rightarrow> Ok []
         | Some rib \<Rightarrow> Ok (map (\<lambda>n. show_net (net n)) (order rib)))))"

section \<open>The client\<close>

text \<open>\<open>src/ubgpc.rs\<close>: a subcommand with its options as \<open>clap\<close> reads them, and what the client gets for it.
  Without a subcommand it ends with exit code 1; a refused query is its error.\<close>

datatype command = Rib_Command "u32 option" "u32 option" | Neighbors_Command "string option"

datatype client_error = Exit nat | Refused status

datatype reply = Rib_Reply "string list" | Neighbor_Reply "neighbor_entry list"

definition option_default :: "u32 option \<Rightarrow> u32" where
  "option_default x = (case x of None \<Rightarrow> 1 | Some v \<Rightarrow> v)"

definition client ::
    "('n \<Rightarrow> string) \<Rightarrow> ('n rib \<Rightarrow> 'n nlri list) \<Rightarrow> command option \<Rightarrow> ('n, 'm, 'p) speaker \<Rightarrow> (client_error, reply) outcome" where
  "client show_net order command sp =
     bind_outcome (ok_or (Exit 1) command) (\<lambda>command.
       case command of
         Rib_Command a s \<Rightarrow>
           bind_outcome (map_err Refused (get_rib show_net order \<lparr>rq_afi = option_default a, rq_safi = option_default s\<rparr> sp))
             (\<lambda>nets. Ok (Rib_Reply nets))
       | Neighbors_Command address \<Rightarrow>
           bind_outcome (map_err Refused (get_neighbor_config address sp)) (\<lambda>es. Ok (Neighbor_Reply es)))"

section \<open>Answers\<close>

lemma get_neighbor_config_address:
  "get_neighbor_config (Some (show_ip ip)) sp =
    Ok (map neighbor_entry_of (filter (\<lambda>nb. remote_ip nb = Some ip) (neighbors sp)))"
proof -
  have "foldr (\<lambda>nb es. if Some ip = remote_ip nb then neighbor_entry_of nb # es else es) nbs [] =
      map neighbor_entry_of (filter (\<lambda>nb. remote_ip nb = Some ip) nbs)" for nbs
    by (induction nbs) auto
  then show ?thesis by (simp add: get_neighbor_config_def parse_show_ip)
qed

lemma ne_ip_entry: "remote_ip nb = Some ip \<Longrightarrow> ne_ip (neighbor_entry_of nb) = show_ip ip"
  by (simp add: neighbor_entry_of_def)

lemma entries_by_address:
  assumes "\<forall>nb \<in> set nbs. remote_ip nb \<noteq> None"
  shows "map neighbor_entry_of (filter (\<lambda>nb. remote_ip nb = Some ip) nbs) =
    filter (\<lambda>e. ne_ip e = show_ip ip) (map neighbor_entry_of nbs)"
  using assms by (induction nbs) (auto simp: ne_ip_entry show_ip_inj)

lemma state_text_inj: "state_text s = state_text s' \<longleftrightarrow> s = s'"
  by (cases s; cases s') simp_all

section \<open>The reference prefixes as text\<close>

lemma number_text_inj:
  assumes "number_text 10 m = number_text 10 n"
  shows "m = n"
proof -
  define k where "k = Suc (max m n)"
  have k: "m < k" "n < k" by (auto simp: k_def)
  have "k \<le> 10 ^ k" using less_exp [of k] power_mono [of "2 :: nat" 10 k] by linarith
  have "read_number 10 k False k (number_text 10 i @ []) = Some (i, [])" if "i < k" for i
    using that \<open>k \<le> 10 ^ k\<close> by (intro read_number_text) (auto simp: k_def)
  from this [OF k(1)] this [OF k(2)] assms show ?thesis by simp
qed

lemma show_ip_no_slash: "CHR ''/'' \<notin> set (show_ip ip)"
proof -
  have join: "set (join sep xs) \<subseteq> \<Union> (set ` set xs) \<union> {sep}" for sep xs
    by (induction sep xs rule: join.induct) auto
  have digit: "CHR ''/'' \<notin> set (number_text radix n)" if "2 \<le> radix" "radix \<le> 36" for radix n
    using number_text_digits [OF that, of "CHR ''/''" n] that by (auto simp: digit_value_def Let_def)
  have "CHR ''/'' \<notin> set (show_groups gs)" for gs
    using join [of "CHR '':''" "map (\<lambda>g. number_text 16 (unat g)) gs"] digit [of 16] by (auto simp: show_groups_def)
  moreover have "CHR ''/'' \<notin> set (show_ipv4 a)" for a
    using join [of "CHR ''.''" "map (\<lambda>b. dec (unat b)) (to_be 4 a)"] digit [of 10]
    by (auto simp: show_ipv4_def dec_number_text)
  ultimately show ?thesis
    by (cases ip) (auto simp: show_ipv6_def Let_def)
qed

definition show_ref :: "ref_net \<Rightarrow> string" where
  "show_ref n = show_ip (ref_addr n) @ ''/'' @ dec (unat (ref_prefix_len n))"

lemma inj_show_ref: "inj show_ref"
proof (rule injI)
  fix m n assume eq: "show_ref m = show_ref n"
  have split: "takeWhile (\<lambda>c. c \<noteq> CHR ''/'') (show_ref n) = show_ip (ref_addr n)"
    "dropWhile (\<lambda>c. c \<noteq> CHR ''/'') (show_ref n) = ''/'' @ dec (unat (ref_prefix_len n))" for n
    using show_ip_no_slash [of "ref_addr n"]
    by (simp_all add: show_ref_def takeWhile_append dropWhile_append)
  have "show_ip (ref_addr m) = show_ip (ref_addr n)"
    using split(1) [of m] split(1) [of n] eq by simp
  moreover have "dec (unat (ref_prefix_len m)) = dec (unat (ref_prefix_len n))"
    using split(2) [of m] split(2) [of n] eq by simp
  then have "unat (ref_prefix_len m) = unat (ref_prefix_len n)"
    unfolding dec_number_text by (rule number_text_inj)
  ultimately show "m = n"
    by (intro ref_net_eqI) (simp_all add: show_ip_inj word_unat_eq_iff)
qed

end
