(* ===== verification/Locking.thy ===== *)
theory Locking
  imports Grpc
begin

text \<open>
  The locks and queues of the program's tasks.  The speaker, every neighbor, every RIB and every FIB
  is behind a mutex of its own, and tasks send to each other through queues of 100 places: the events
  of a session (\<open>fsm_tcp\<close>), the events of a RIB manager and of a FIB manager (\<open>start\<close>).  A task waits
  for a mutex another task holds and for room in a full queue.  The first part is the behaviour of
  tasks that lock, unlock, send and receive; the second is what each handler does, in the order and
  with the nesting of its code: a guard is dropped at the end of its block, the last one first.
\<close>

section \<open>Tasks\<close>

datatype lock = Neighbor_Lock nat | Speaker_Lock | Rib_Lock address_family | Fib_Lock address_family

datatype queue = Event_Queue nat | Rib_Queue address_family | Fib_Queue address_family

datatype act = Lock lock | Unlock lock | Send queue | Recv queue

definition capacity :: nat where "capacity = 100"

text \<open>Which task holds a lock, how many messages a queue holds, and what each task has still to do.\<close>

record tasks =
  held :: "lock \<Rightarrow> nat option"
  queued :: "queue \<Rightarrow> nat"
  todo :: "act list list"

text \<open>One act of a task, where it can be done.\<close>

fun do_act :: "nat \<Rightarrow> act \<Rightarrow> (lock \<Rightarrow> nat option) \<times> (queue \<Rightarrow> nat) \<Rightarrow> ((lock \<Rightarrow> nat option) \<times> (queue \<Rightarrow> nat)) option" where
  "do_act i (Lock l) (h, q) = (if h l = None then Some (h(l \<mapsto> i), q) else None)"
| "do_act i (Unlock l) (h, q) = (if h l = Some i then Some (h(l := None), q) else None)"
| "do_act i (Send c) (h, q) = (if q c < capacity then Some (h, q(c := q c + 1)) else None)"
| "do_act i (Recv c) (h, q) = (if 0 < q c then Some (h, q(c := q c - 1)) else None)"

definition fire :: "nat \<Rightarrow> tasks \<Rightarrow> tasks option" where
  "fire i s =
     (if i < length (todo s)
      then (case todo s ! i of
              [] \<Rightarrow> None
            | a # as \<Rightarrow> map_option (\<lambda>(h, q). \<lparr>held = h, queued = q, todo = (todo s)[i := as]\<rparr>)
                (do_act i a (held s, queued s)))
      else None)"

fun fires :: "nat list \<Rightarrow> tasks \<Rightarrow> tasks option" where
  "fires [] s = Some s"
| "fires (i # is) s = (case fire i s of None \<Rightarrow> None | Some s' \<Rightarrow> fires is s')"

lemma fires_append: "fires (is @ js) s = (case fires is s of None \<Rightarrow> None | Some s' \<Rightarrow> fires js s')"
  by (induction "is" arbitrary: s) (auto split: option.splits)

lemma fire_length: "fire i s = Some s' \<Longrightarrow> length (todo s') = length (todo s)"
  by (auto simp: fire_def split: if_splits list.splits)

lemma fire_other: "fire i s = Some s' \<Longrightarrow> j \<noteq> i \<Longrightarrow> todo s' ! j = todo s ! j"
  by (auto simp: fire_def split: if_splits list.splits)

subsection \<open>One task at a time\<close>

fun exec :: "nat \<Rightarrow> act list \<Rightarrow> (lock \<Rightarrow> nat option) \<times> (queue \<Rightarrow> nat) \<Rightarrow> ((lock \<Rightarrow> nat option) \<times> (queue \<Rightarrow> nat)) option" where
  "exec i [] st = Some st"
| "exec i (a # as) st = (case do_act i a st of None \<Rightarrow> None | Some st' \<Rightarrow> exec i as st')"

lemma exec_append: "exec i (xs @ ys) st = (case exec i xs st of None \<Rightarrow> None | Some st' \<Rightarrow> exec i ys st')"
  by (induction xs arbitrary: st) (auto split: option.splits)

lemma exec_fires:
  "exec i xs (held s, queued s) = Some (h, q) \<Longrightarrow> i < length (todo s) \<Longrightarrow> todo s ! i = xs @ ys \<Longrightarrow>
    fires (replicate (length xs) i) s = Some \<lparr>held = h, queued = q, todo = (todo s)[i := ys]\<rparr>"
proof (induction xs arbitrary: s)
  case Nil
  then have "(todo s)[i := ys] = todo s" using list_update_id [of "todo s" i] by simp
  with Nil show ?case by (cases s) auto
next
  case (Cons a as)
  from Cons.prems(1) obtain h1 q1 where a: "do_act i a (held s, queued s) = Some (h1, q1)"
    and as: "exec i as (h1, q1) = Some (h, q)"
    by (auto split: option.splits)
  let ?s = "\<lparr>held = h1, queued = q1, todo = (todo s)[i := as @ ys]\<rparr>"
  have "fire i s = Some ?s" using a Cons.prems(2,3) by (simp add: fire_def)
  moreover have "fires (replicate (length as) i) ?s = Some \<lparr>held = h, queued = q, todo = (todo ?s)[i := ys]\<rparr>"
    using as Cons.prems(2) by (intro Cons.IH) simp_all
  ultimately show ?case by simp
qed

subsection \<open>Deadlocks\<close>

text \<open>
  A set of tasks that wait for each other: each is about to lock what another of them holds, or to
  send to a full queue that only tasks of the set receive from.
\<close>

definition waits :: "nat set \<Rightarrow> tasks \<Rightarrow> nat \<Rightarrow> bool" where
  "waits W s i \<longleftrightarrow> i < length (todo s)
     \<and> (\<exists>as. (\<exists>l j. todo s ! i = Lock l # as \<and> held s l = Some j \<and> j \<in> W)
           \<or> (\<exists>c. todo s ! i = Send c # as \<and> capacity \<le> queued s c
                \<and> (\<forall>j < length (todo s). Recv c \<in> set (todo s ! j) \<longrightarrow> j \<in> W)))"

definition deadlocked :: "nat set \<Rightarrow> tasks \<Rightarrow> bool" where
  "deadlocked W s \<longleftrightarrow> W \<noteq> {} \<and> (\<forall>i \<in> W. waits W s i)"

lemma waits_blocked: "waits W s i \<Longrightarrow> fire i s = None"
  by (auto simp: waits_def fire_def)

lemma do_act_other_lock: "do_act i a (h, q) = Some (h', q') \<Longrightarrow> h l = Some j \<Longrightarrow> j \<noteq> i \<Longrightarrow> h' l = Some j"
  by (cases a) (auto split: if_splits)

lemma do_act_queue: "do_act i a (h, q) = Some (h', q') \<Longrightarrow> a \<noteq> Recv c \<Longrightarrow> q c \<le> q' c"
  by (cases a) (auto split: if_splits)

lemma deadlocked_fire:
  assumes "deadlocked W s" and "fire i s = Some s'"
  shows "deadlocked W s' \<and> (\<forall>j \<in> W. todo s' ! j = todo s ! j)"
proof -
  have i: "i \<notin> W" using assms waits_blocked by (fastforce simp: deadlocked_def)
  from assms(2) obtain a as h q where s: "i < length (todo s)" "todo s ! i = a # as"
    "do_act i a (held s, queued s) = Some (h, q)" "s' = \<lparr>held = h, queued = q, todo = (todo s)[i := as]\<rparr>"
    by (auto simp: fire_def split: if_splits list.splits)
  have same: "todo s' ! j = todo s ! j" if "j \<in> W" for j
    by (rule fire_other [OF assms(2)]) (use that i in auto)
  have recv: "Recv c \<in> set (todo s' ! j) \<Longrightarrow> Recv c \<in> set (todo s ! j)" for c j
    using s by (cases "j = i") auto
  have "waits W s' k" if k: "k \<in> W" for k
  proof -
    from assms(1) k have w: "waits W s k" by (simp add: deadlocked_def)
    then have len: "k < length (todo s')" using s by (simp add: waits_def)
    from w consider (lock) l j as' where "todo s ! k = Lock l # as'" "held s l = Some j" "j \<in> W"
      | (send) c as' where "todo s ! k = Send c # as'" "capacity \<le> queued s c"
          "\<forall>j < length (todo s). Recv c \<in> set (todo s ! j) \<longrightarrow> j \<in> W"
      by (auto simp: waits_def)
    then show ?thesis
    proof cases
      case lock
      then have "held s' l = Some j" using do_act_other_lock [OF s(3) lock(2)] i s(4) by auto
      with lock len same [OF k] show ?thesis by (auto simp: waits_def)
    next
      case send
      have "a \<noteq> Recv c" using send(3) s(1,2) i by auto
      then have "capacity \<le> queued s' c" using do_act_queue [OF s(3)] send(2) s(4) by fastforce
      moreover have "\<forall>j < length (todo s'). Recv c \<in> set (todo s' ! j) \<longrightarrow> j \<in> W"
        using send(3) recv s by auto
      ultimately show ?thesis using send(1) len same [OF k] by (auto simp: waits_def)
    qed
  qed
  then show ?thesis using assms(1) same by (simp add: deadlocked_def)
qed

lemma deadlocked_forever:
  "deadlocked W s \<Longrightarrow> fires is s = Some s' \<Longrightarrow> deadlocked W s' \<and> (\<forall>j \<in> W. todo s' ! j = todo s ! j)"
proof (induction "is" arbitrary: s)
  case (Cons i "is")
  from Cons.prems(2) obtain s1 where s1: "fire i s = Some s1" "fires is s1 = Some s'"
    by (auto split: option.splits)
  from deadlocked_fire [OF Cons.prems(1) s1(1)] Cons.IH [OF _ s1(2)] show ?case by auto
qed auto

section \<open>An order of the locks\<close>

text \<open>A neighbor before the speaker, the speaker before a RIB, a RIB before a FIB.\<close>

fun rank :: "lock \<Rightarrow> nat" where
  "rank (Neighbor_Lock i) = 0"
| "rank Speaker_Lock = 1"
| "rank (Rib_Lock fam) = 2"
| "rank (Fib_Lock fam) = 3"

text \<open>The locks a task holds after its acts, if it only ever locks upwards and unlocks what it holds.\<close>

fun holds_after :: "lock set \<Rightarrow> act list \<Rightarrow> lock set option" where
  "holds_after H [] = Some H"
| "holds_after H (Lock l # as) = (if \<forall>h \<in> H. rank h < rank l then holds_after (insert l H) as else None)"
| "holds_after H (Unlock l # as) = (if l \<in> H then holds_after (H - {l}) as else None)"
| "holds_after H (Send c # as) = holds_after H as"
| "holds_after H (Recv c # as) = holds_after H as"

text \<open>Acts that lock from rank \<open>r\<close> on, upwards, and end with what they began with.\<close>

definition orderly :: "nat \<Rightarrow> act list \<Rightarrow> bool" where
  "orderly r as \<longleftrightarrow> (\<forall>H. (\<forall>h \<in> H. rank h < r) \<longrightarrow> holds_after H as = Some H)"

named_theorems orderly_intros "the acts of the handlers lock upwards"

lemma holds_after_append:
  "holds_after H (xs @ ys) = (case holds_after H xs of None \<Rightarrow> None | Some H' \<Rightarrow> holds_after H' ys)"
  by (induction H xs rule: holds_after.induct) auto

lemma orderly_Nil [orderly_intros]: "orderly r []"
  by (simp add: orderly_def)

lemma orderly_append [orderly_intros]: "orderly r xs \<Longrightarrow> orderly r ys \<Longrightarrow> orderly r (xs @ ys)"
  by (simp add: orderly_def holds_after_append)

lemma orderly_concat: "\<forall>xs \<in> set xss. orderly r xs \<Longrightarrow> orderly r (concat xss)"
  by (induction xss) (auto intro: orderly_intros)

lemma orderly_queue [orderly_intros]:
  "orderly r as \<Longrightarrow> orderly r (Send c # as)" "orderly r as \<Longrightarrow> orderly r (Recv c # as)"
  by (simp_all add: orderly_def)

lemma orderly_mono: "orderly r' as \<Longrightarrow> r \<le> r' \<Longrightarrow> orderly r as"
  by (fastforce simp: orderly_def)

lemma orderly_locked:
  assumes "orderly (Suc (rank l)) as" and "r \<le> rank l"
  shows "orderly r (Lock l # as @ [Unlock l])"
  unfolding orderly_def
proof (intro allI impI)
  fix H assume H: "\<forall>h \<in> H. rank h < r"
  then have lt: "\<forall>h \<in> H. rank h < rank l" using assms(2) by fastforce
  then have "holds_after (insert l H) as = Some (insert l H)"
    using assms(1) by (fastforce simp: orderly_def less_Suc_eq)
  moreover have "l \<notin> H" using lt by auto
  ultimately show "holds_after H (Lock l # as @ [Unlock l]) = Some H"
    using lt by (simp add: holds_after_append)
qed

lemma orderly_if [orderly_intros]: "(b \<Longrightarrow> orderly r xs) \<Longrightarrow> (\<not> b \<Longrightarrow> orderly r ys) \<Longrightarrow> orderly r (if b then xs else ys)"
  by simp

lemma orderly_option [orderly_intros]:
  "orderly r xs \<Longrightarrow> (\<And>y. x = Some y \<Longrightarrow> orderly r (f y)) \<Longrightarrow> orderly r (case x of None \<Rightarrow> xs | Some y \<Rightarrow> f y)"
  by (cases x) simp_all

subsection \<open>Tasks that keep the order never block each other by locks alone\<close>

definition orderly_tasks :: "tasks \<Rightarrow> bool" where
  "orderly_tasks s \<longleftrightarrow> (\<forall>i < length (todo s). holds_after {l. held s l = Some i} (todo s ! i) = Some {})
     \<and> (\<forall>l i. held s l = Some i \<longrightarrow> i < length (todo s))"

lemma orderly_tasks_init:
  assumes "\<forall>as \<in> set (todo s). orderly 0 as" and "held s = (\<lambda>_. None)"
  shows "orderly_tasks s"
  using assms by (auto simp: orderly_tasks_def orderly_def)

lemma orderly_tasks_fire:
  assumes "orderly_tasks s" and "fire i s = Some s'"
  shows "orderly_tasks s'"
proof -
  from assms(2) obtain a as h q where i: "i < length (todo s)" and a: "todo s ! i = a # as"
    and st: "do_act i a (held s, queued s) = Some (h, q)"
    and s': "s' = \<lparr>held = h, queued = q, todo = (todo s)[i := as]\<rparr>"
    by (auto simp: fire_def split: if_splits list.splits)
  from assms(1) i a have own: "holds_after {l. held s l = Some i} (a # as) = Some {}"
    by (auto simp: orderly_tasks_def)
  have "holds_after {l. h l = Some i} as = Some {}"
  proof (cases a)
    case (Lock l)
    then have "h = (held s)(l \<mapsto> i)" using st by (auto split: if_splits)
    then have "{k. h k = Some i} = insert l {k. held s k = Some i}" by auto
    then show ?thesis using own Lock by (simp split: if_splits)
  next
    case (Unlock l)
    then have "h = (held s)(l := None)" using st by (auto split: if_splits)
    then have "{k. h k = Some i} = {k. held s k = Some i} - {l}" by auto
    then show ?thesis using own Unlock by (simp split: if_splits)
  qed (use own st in \<open>auto split: if_splits\<close>)
  moreover have other: "{l. h l = Some j} = {l. held s l = Some j}" if "j \<noteq> i" for j
    using that st by (cases a) (auto split: if_splits)
  ultimately have "holds_after {l. h l = Some k} ((todo s)[i := as] ! k) = Some {}" if "k < length (todo s)" for k
    using that assms(1) i by (cases "k = i") (simp_all add: orderly_tasks_def)
  moreover have "h l = Some j \<Longrightarrow> j < length (todo s)" for l j
    using st i assms(1) by (cases a) (auto simp: orderly_tasks_def split: if_splits)
  ultimately show ?thesis
    by (simp add: orderly_tasks_def s')
qed

lemma orderly_tasks_fires: "orderly_tasks s \<Longrightarrow> fires is s = Some s' \<Longrightarrow> orderly_tasks s'"
proof (induction "is" arbitrary: s)
  case (Cons i "is")
  then show ?case by (auto split: option.splits dest: orderly_tasks_fire)
qed simp

text \<open>When no task can go on, all are done or one waits for a queue.\<close>

text \<open>A task that is stuck, but not for a queue, waits for a mutex that is held.\<close>

lemma orderly_waits:
  assumes "orderly_tasks s" and "fire i s = None" and i: "i < length (todo s)" "todo s ! i \<noteq> []"
    and no: "\<And>c as. todo s ! i = Send c # as \<Longrightarrow> queued s c < capacity" "\<And>c as. todo s ! i = Recv c # as \<Longrightarrow> queued s c \<noteq> 0"
  shows "\<exists>l j. todo s ! i = Lock l # tl (todo s ! i) \<and> held s l = Some j"
proof -
  from i obtain a where a: "todo s ! i = a # tl (todo s ! i)" by (cases "todo s ! i") auto
  have none: "do_act i a (held s, queued s) = None"
    using assms(2) i(1) a by (cases "todo s ! i") (auto simp: fire_def split: option.splits)
  show ?thesis
  proof (cases a)
    case (Lock l)
    then show ?thesis using none a by (auto split: if_splits)
  next
    case (Unlock l)
    moreover have "holds_after {l. held s l = Some i} (a # tl (todo s ! i)) = Some {}"
      using assms(1) i(1) a by (auto simp: orderly_tasks_def)
    ultimately show ?thesis using none by (auto split: if_splits)
  next
    case (Send c)
    then show ?thesis using none a no(1) [of c] by (auto split: if_splits)
  next
    case (Recv c)
    then show ?thesis using none a no(2) [of c] by (auto split: if_splits)
  qed
qed

lemma orderly_progress:
  assumes "orderly_tasks s" and stuck: "\<forall>i. fire i s = None"
  shows "(\<forall>as \<in> set (todo s). as = [])
    \<or> (\<exists>i < length (todo s). \<exists>as c. todo s ! i = Send c # as \<and> capacity \<le> queued s c \<or> todo s ! i = Recv c # as \<and> queued s c = 0)"
proof (rule ccontr)
  assume no: "\<not> ?thesis"
  define wants where "wants = {l. \<exists>i < length (todo s). \<exists>as. todo s ! i = Lock l # as}"
  have wait: "\<exists>l j. todo s ! i = Lock l # tl (todo s ! i) \<and> held s l = Some j"
    if "i < length (todo s)" "todo s ! i \<noteq> []" for i
    using orderly_waits [OF assms(1) spec [OF stuck] that] no that(1) by (metis not_le_imp_less)
  have higher: "\<exists>k \<in> wants. rank l < rank k" if "l \<in> wants" for l
  proof -
    from that obtain i as where i: "i < length (todo s)" "todo s ! i = Lock l # as" by (auto simp: wants_def)
    with wait [OF i(1)] obtain j where j: "held s l = Some j" by auto
    then have len: "j < length (todo s)" and own: "holds_after {l. held s l = Some j} (todo s ! j) = Some {}"
      using assms(1) by (auto simp: orderly_tasks_def)
    have "todo s ! j \<noteq> []" using own j by auto
    with wait [OF len] obtain k where k: "todo s ! j = Lock k # tl (todo s ! j)" by blast
    with own have "\<forall>h \<in> {l. held s l = Some j}. rank h < rank k"
      by (metis holds_after.simps(2) option.distinct(1))
    with j k len show ?thesis by (auto simp: wants_def)
  qed
  from no obtain i where "i < length (todo s)" "todo s ! i \<noteq> []" by (auto simp: in_set_conv_nth)
  with wait have "wants \<noteq> {}" by (fastforce simp: wants_def)
  then obtain l where l: "l \<in> wants" by auto
  have "\<exists>l \<in> wants. n \<le> rank l" for n
    by (induction n) (use l higher in \<open>auto, meson Suc_le_eq le_less_trans\<close>)
  from this [of 4] obtain k where "4 \<le> rank k" by auto
  then show False by (cases k) simp_all
qed

end
