(* ===== verification/Task_Acts.thy ===== *)
theory Task_Acts
  imports Locking
begin

text \<open>
  What the handlers lock and send, act by act, in a run that does not panic.  Each list follows the
  branches of its handler, given the data that decides them: the neighbor, the message, the event,
  the RIB.  A neighbor's number stands for its mutex.  Sends on TCP and netlink do not involve other
  tasks and are left out.
\<close>

text \<open>A block with a guard, and one that only looks or writes.\<close>

definition guarded :: "lock \<Rightarrow> act list \<Rightarrow> act list" where
  "guarded l as = Lock l # as @ [Unlock l]"

definition peek :: "lock \<Rightarrow> act list" where
  "peek l = guarded l []"

lemma orderly_guarded [orderly_intros]: "orderly (Suc (rank l)) as \<Longrightarrow> r \<le> rank l \<Longrightarrow> orderly r (guarded l as)"
  using orderly_locked [of l as r] by (simp add: guarded_def)

lemma orderly_peek [orderly_intros]: "r \<le> rank l \<Longrightarrow> orderly r (peek l)"
  unfolding peek_def by (intro orderly_intros)

section \<open>The RIB manager\<close>

text \<open>\<open>best_reachable\<close> and the test of the new route's next hop each lock the FIB.\<close>

definition add_nlri_acts :: "address_family \<Rightarrow> u16 \<Rightarrow> route_attributes \<Rightarrow> 'n rib \<Rightarrow> 'n nlri \<Rightarrow> act list" where
  "add_nlri_acts fam asn attrs rib n =
     (case rib n of
        None \<Rightarrow> if is_valid asn attrs then peek (Fib_Lock fam) else []
      | Some as \<Rightarrow> if is_valid asn attrs then peek (Fib_Lock fam) @ peek (Fib_Lock fam) else [])"

fun added_acts ::
    "address_family \<Rightarrow> 'n ipnet_ops \<Rightarrow> ('n, 'm, 'p) fib \<Rightarrow> u16 \<Rightarrow> route_attributes \<Rightarrow> 'n nlri list \<Rightarrow> 'n rib \<times> 'n modified \<Rightarrow> act list" where
  "added_acts fam L fib asn attrs [] st = []"
| "added_acts fam L fib asn attrs (n # ns) st =
     add_nlri_acts fam asn attrs (fst st) n @ added_acts fam L fib asn attrs ns (add_nlri L fib asn attrs n st)"

definition loc_rib_added_acts ::
    "address_family \<Rightarrow> 'n ipnet_ops \<Rightarrow> ('n, 'm, 'p) fib \<Rightarrow> u16 \<Rightarrow> 'n rib_update \<Rightarrow> 'n rib \<Rightarrow> act list" where
  "loc_rib_added_acts fam L fib asn routes rib =
     guarded (Rib_Lock fam) (added_acts fam L fib asn (ru_attributes routes) (ru_nlris routes) (rib, []))"

fun withdrawn_acts ::
    "address_family \<Rightarrow> 'n ipnet_ops \<Rightarrow> ('n, 'm, 'p) fib \<Rightarrow> u32 \<Rightarrow> 'n nlri list \<Rightarrow> 'n rib \<times> 'n modified \<Rightarrow> act list" where
  "withdrawn_acts fam L fib peer [] st = []"
| "withdrawn_acts fam L fib peer (n # ns) st =
     (case fst st n of None \<Rightarrow> [] | Some as \<Rightarrow> peek (Fib_Lock fam))
       @ withdrawn_acts fam L fib peer ns (withdraw_nlri L fib peer n st)"

definition loc_rib_withdraw_acts ::
    "address_family \<Rightarrow> 'n ipnet_ops \<Rightarrow> ('n, 'm, 'p) fib \<Rightarrow> 'n nlri list \<Rightarrow> 'n rib_update \<Rightarrow> 'n rib \<Rightarrow> act list" where
  "loc_rib_withdraw_acts fam L fib order routes rib =
     guarded (Rib_Lock fam)
       (withdrawn_acts fam L fib (peer_rid (ru_attributes routes)) (to_withdraw order rib routes) (rib, []))"

text \<open>Every neighbor is locked in turn; the changes are sent to it while it is.\<close>

definition tell_neighbor_acts :: "nat \<times> 'n neighbor \<Rightarrow> act list" where
  "tell_neighbor_acts n =
     guarded (Neighbor_Lock (fst n))
       (if is_established (snd n) \<and> tx (snd n) \<noteq> None then [Send (Event_Queue (fst n))] else [])"

definition process_rib_event_acts ::
    "address_family \<Rightarrow> 'n ipnet_ops \<Rightarrow> ('n, 'm, 'p) fib \<Rightarrow> u16 \<Rightarrow> ('n rib \<Rightarrow> 'n nlri list) \<Rightarrow> 'n rib_event \<Rightarrow> 'n rib
      \<Rightarrow> 'n neighbor list \<Rightarrow> act list" where
  "process_rib_event_acts fam L fib asn order e rib nbs =
     (case e of UpdateRoutes msg \<Rightarrow>
        (case upd_added msg of None \<Rightarrow> [] | Some routes \<Rightarrow> loc_rib_added_acts fam L fib asn routes rib)
        @ (let rib' = (case upd_added msg of None \<Rightarrow> rib | Some routes \<Rightarrow> fst (loc_rib_added L fib asn routes rib))
           in case upd_withdrawn msg of None \<Rightarrow> []
              | Some routes \<Rightarrow> loc_rib_withdraw_acts fam L fib (order rib') routes rib'))
      @ (if snd (rib_event_step L fib asn order e rib) = [] then []
         else Send (Fib_Queue fam) # concat (map tell_neighbor_acts (zip [0..<length nbs] nbs)))"

text \<open>One round of \<open>rib_mgr\<close>.\<close>

definition rib_mgr_acts ::
    "address_family \<Rightarrow> 'n ipnet_ops \<Rightarrow> ('n, 'm, 'p) fib \<Rightarrow> u16 \<Rightarrow> ('n rib \<Rightarrow> 'n nlri list) \<Rightarrow> 'n rib_event \<Rightarrow> 'n rib
      \<Rightarrow> 'n neighbor list \<Rightarrow> act list" where
  "rib_mgr_acts fam L fib asn order e rib nbs = Recv (Rib_Queue fam) # process_rib_event_acts fam L fib asn order e rib nbs"

section \<open>The FIB manager\<close>

text \<open>\<open>sync\<close> locks the RIB; it is called with the FIB locked.  It gives up before that when there is
  no netlink connection.\<close>

definition sync_acts :: "bool \<Rightarrow> address_family \<Rightarrow> act list" where
  "sync_acts netlink fam = (if netlink then peek (Rib_Lock fam) else [])"

definition fib_mgr_acts :: "bool \<Rightarrow> address_family \<Rightarrow> fib_event \<Rightarrow> act list" where
  "fib_mgr_acts netlink fam e =
     (case e of RibUpdated \<Rightarrow>
        Recv (Fib_Queue fam) # guarded (Fib_Lock fam) (sync_acts netlink fam))"

text \<open>The refresh at its start and whenever no event came for 30 seconds.\<close>

definition fib_refresh_acts :: "address_family \<Rightarrow> act list" where
  "fib_refresh_acts fam = peek (Fib_Lock fam)"

section \<open>Sessions\<close>

definition handle_update_acts :: "nat \<Rightarrow> 'n update_message \<Rightarrow> 'n neighbor \<Rightarrow> act list" where
  "handle_update_acts i m nb =
     (case update_routes m of (fam, ns, wd, hop) \<Rightarrow>
        peek Speaker_Lock @ peek (Neighbor_Lock i)
        @ (if wd \<noteq> [] then peek (Neighbor_Lock i) else [])
        @ (if ns \<noteq> [] then peek (Neighbor_Lock i) else [])
        @ guarded (Neighbor_Lock i) (case ribtx nb fam of None \<Rightarrow> [] | Some ch \<Rightarrow> [Send (Rib_Queue fam)]))"

definition handle_notification_acts :: "nat \<Rightarrow> ('n, 'm, 'p) speaker \<Rightarrow> 'n neighbor \<Rightarrow> act list" where
  "handle_notification_acts i sp nb =
     peek (Neighbor_Lock i)
     @ guarded Speaker_Lock
         (concat (map (\<lambda>fam. case sp_ribtx sp fam of None \<Rightarrow> [] | Some ch \<Rightarrow> [Send (Rib_Queue fam)])
           (case multiprotocol (capabilities_advertised nb) of Some fams \<Rightarrow> fams | None \<Rightarrow> [ipv4_unicast])))
     @ peek (Neighbor_Lock i)
     @ guarded (Neighbor_Lock i) (if tx nb = None then [] else [Send (Event_Queue i)])"

text \<open>The neighbors one after the other, up to the one that collides; what it is sent, it is sent while
  it is locked.\<close>

fun collision_acts :: "u32 \<Rightarrow> u32 \<Rightarrow> (nat \<times> 'n neighbor) list \<Rightarrow> act list" where
  "collision_acts own_rid msg_rid [] = []"
| "collision_acts own_rid msg_rid (n # ns) =
     (if tx (snd n) \<noteq> None \<and> (nb_state (snd n) = OpenConfirm \<or> nb_state (snd n) = OpenSent) \<and> remote_rid (snd n) = Some msg_rid
      then guarded (Neighbor_Lock (fst n)) (if remote_rid (snd n) < Some own_rid then [Send (Event_Queue (fst n))] else [])
      else peek (Neighbor_Lock (fst n)) @ collision_acts own_rid msg_rid ns)"

definition collision_detection_acts :: "open_message \<Rightarrow> ('n, 'm, 'p) speaker \<Rightarrow> act list" where
  "collision_detection_acts m sp =
     peek Speaker_Lock
     @ collision_acts (router_id sp) (om_router_id m) (zip [0..<length (neighbors sp)] (neighbors sp))"

definition handle_open_acts :: "nat \<Rightarrow> bool \<Rightarrow> open_message \<Rightarrow> ('n, 'm, 'p) speaker \<Rightarrow> 'n neighbor \<Rightarrow> act list" where
  "handle_open_acts i confirmed m sp nb =
     peek (Neighbor_Lock i)
     @ (if tx nb = None then []
        else collision_detection_acts m sp
          @ (if fst (collision_detection m sp) then [Send (Event_Queue i)]
             else peek (Neighbor_Lock i)
               @ (if \<not> validate_open m nb then [Send (Event_Queue i)]
                  else peek (Neighbor_Lock i) @ peek (Neighbor_Lock i)
                    @ (if confirmed then [Send (Event_Queue i)] else []))))"

text \<open>With the neighbor locked, \<open>send_locrib\<close> locks the speaker and the RIB of each common family.\<close>

definition send_locrib_acts :: "nat \<Rightarrow> 'n neighbor \<Rightarrow> act list" where
  "send_locrib_acts i nb =
     (case multiprotocol (capabilities_advertised nb) of None \<Rightarrow> []
      | Some adv \<Rightarrow> (case multiprotocol (capabilities_received nb) of None \<Rightarrow> []
         | Some rec \<Rightarrow> concat (map (\<lambda>fam.
             if fam \<in> set rec
             then guarded Speaker_Lock (guarded (Rib_Lock fam) [Send (Event_Queue i)])
             else []) adv)))"

definition notify_acts :: "nat \<Rightarrow> 'n neighbor \<Rightarrow> act list" where
  "notify_acts i nb = peek (Neighbor_Lock i) @ (if tx nb = None then [] else [Send (Event_Queue i)])"

definition process_message_acts :: "nat \<Rightarrow> 'n message_body \<Rightarrow> ('n, 'm, 'p) speaker \<Rightarrow> 'n neighbor \<Rightarrow> act list" where
  "process_message_acts i m sp nb =
     peek (Neighbor_Lock i)
     @ (case nb_state nb of
          OpenSent \<Rightarrow> (case m of
              MB_Keepalive \<Rightarrow> peek (Neighbor_Lock i)
            | MB_Open msg \<Rightarrow> handle_open_acts i False msg sp nb
            | MB_Notification _ \<Rightarrow> []
            | MB_Update _ \<Rightarrow> notify_acts i nb)
        | Active \<Rightarrow> (case m of
              MB_Open msg \<Rightarrow> handle_open_acts i True msg sp nb
            | MB_Notification _ \<Rightarrow> notify_acts i nb
            | _ \<Rightarrow> [])
        | OpenConfirm \<Rightarrow> (case m of
              MB_Keepalive \<Rightarrow> peek (Neighbor_Lock i)
                @ guarded (Neighbor_Lock i) (send_locrib_acts i nb)
            | MB_Notification _ \<Rightarrow> notify_acts i nb
            | _ \<Rightarrow> [])
        | Established \<Rightarrow> (case m of
              MB_Keepalive \<Rightarrow> peek (Neighbor_Lock i)
            | MB_Notification _ \<Rightarrow> handle_notification_acts i sp nb
            | MB_Update msg \<Rightarrow> handle_update_acts i msg nb
            | _ \<Rightarrow> [])
        | _ \<Rightarrow> [])"

text \<open>\<open>sent\<close> tells whether the OPEN went out; when it did not, the state is not written.\<close>

definition send_local_open_acts :: "nat \<Rightarrow> act list" where
  "send_local_open_acts i = peek Speaker_Lock @ peek (Neighbor_Lock i)"

definition send_update_acts ::
    "((route_attributes \<times> 'n nlri list) list \<Rightarrow> (route_attributes \<times> 'n nlri list) list)
      \<Rightarrow> nat \<Rightarrow> 'n neighbor \<Rightarrow> 'n modified \<Rightarrow> act list" where
  "send_update_acts order i nb routes =
     peek (Neighbor_Lock i)
     @ (case remote_rid nb of None \<Rightarrow> []
        | Some rid \<Rightarrow>
            (case order (snd (fold (sort_out rid) routes ([], []))) of
               [] \<Rightarrow> []
             | g # gs \<Rightarrow>
                 if nb_local_ip nb = None \<or> remote_asn nb = None then peek (Neighbor_Lock i)
                 else concat (map (\<lambda>_. peek (Neighbor_Lock i)) (g # gs))))"

definition process_event_acts ::
    "((route_attributes \<times> 'n nlri list) list \<Rightarrow> (route_attributes \<times> 'n nlri list) list)
      \<Rightarrow> bool \<Rightarrow> nat \<Rightarrow> 'n event \<Rightarrow> 'n neighbor \<Rightarrow> act list" where
  "process_event_acts order sent i e nb =
     peek (Neighbor_Lock i)
     @ (case nb_state nb of
          Active \<Rightarrow> (case e of
              TcpConnectionConfirmed \<Rightarrow> send_local_open_acts i @ (if sent then peek (Neighbor_Lock i) else [])
            | _ \<Rightarrow> [])
        | Connect \<Rightarrow> (case e of
              AutomaticStart \<Rightarrow> peek (Neighbor_Lock i)
            | TcpConnectionValid \<Rightarrow> send_local_open_acts i @ (if sent then peek (Neighbor_Lock i) else [])
            | _ \<Rightarrow> [])
        | OpenConfirm \<Rightarrow> (case e of BGPOpen \<Rightarrow> send_local_open_acts i | _ \<Rightarrow> [])
        | Established \<Rightarrow> (case e of RibUpdate routes \<Rightarrow> send_update_acts order i nb routes | _ \<Rightarrow> [])
        | _ \<Rightarrow> [])"

text \<open>A round of \<open>fsm_loop\<close>: an event of the queue or a message of the stream.\<close>

definition fsm_event_acts ::
    "((route_attributes \<times> 'n nlri list) list \<Rightarrow> (route_attributes \<times> 'n nlri list) list)
      \<Rightarrow> bool \<Rightarrow> nat \<Rightarrow> 'n event \<Rightarrow> 'n neighbor \<Rightarrow> act list" where
  "fsm_event_acts order sent i e nb =
     Recv (Event_Queue i) # (if e = TcpConnectionFails then [] else process_event_acts order sent i e nb)"

text \<open>The ends of \<open>fsm_tcp\<close>, and a round of each timer of a session.\<close>

definition fsm_tcp_start_acts ::
    "((route_attributes \<times> 'n nlri list) list \<Rightarrow> (route_attributes \<times> 'n nlri list) list)
      \<Rightarrow> bool \<Rightarrow> nat \<Rightarrow> 'n neighbor \<Rightarrow> act list" where
  "fsm_tcp_start_acts order sent i nb =
     peek (Neighbor_Lock i)
     @ (case nb_state nb of
          Active \<Rightarrow> process_event_acts order sent i TcpConnectionConfirmed nb
        | Connect \<Rightarrow> process_event_acts order sent i TcpConnectionValid nb
        | _ \<Rightarrow> [])"

definition fsm_tcp_end_acts :: "nat \<Rightarrow> act list" where
  "fsm_tcp_end_acts i = peek (Neighbor_Lock i)"

definition timer_hold_acts :: "bool \<Rightarrow> nat \<Rightarrow> 'n neighbor \<Rightarrow> act list" where
  "timer_hold_acts ended i nb =
     peek (Neighbor_Lock i) @ (if tx nb = None \<or> ended then [] else [Send (Event_Queue i)])"

definition timer_keepalive_acts :: "nat \<Rightarrow> 'n neighbor \<Rightarrow> act list" where
  "timer_keepalive_acts i nb =
     (let (nb', ended, expired) = timer_keepalive_round nb
      in peek (Neighbor_Lock i) @ (if expired then [Send (Event_Queue i)] else []))"

section \<open>Connections and queries\<close>

text \<open>\<open>connect\<close> takes the speaker's channels with its neighbor locked, then looks up the address, and
  after the attempt writes what came of it.\<close>

definition connect_acts :: "nat \<Rightarrow> 'n neighbor \<Rightarrow> act list" where
  "connect_acts i nb =
     guarded (Neighbor_Lock i) (peek Speaker_Lock)
     @ peek (Neighbor_Lock i)
     @ (if remote_ip nb = None \<or> remote_port nb = None then [] else peek (Neighbor_Lock i))"

text \<open>\<open>start\<close>, \<open>listen\<close> and \<open>connect_mgr\<close> lock the speaker once, and nothing else meanwhile.\<close>

definition listen_acts :: "act list" where
  "listen_acts = peek Speaker_Lock"

text \<open>The search of \<open>add_incoming\<close> tries the neighbors' mutexes without waiting for them.\<close>

definition add_incoming_acts :: "(nat \<Rightarrow> bool) \<Rightarrow> ip_addr \<Rightarrow> ('n, 'm, 'p) speaker \<Rightarrow> act list" where
  "add_incoming_acts free ip sp =
     peek Speaker_Lock
     @ (case match_incoming free ip sp of
          None \<Rightarrow> []
        | Some i \<Rightarrow> peek (Neighbor_Lock i)
            @ (if should_accept (nb_state (neighbors sp ! i)) then peek (Neighbor_Lock i) else []))"

definition get_neighbor_config_acts :: "string option \<Rightarrow> ('n, 'm, 'p) speaker \<Rightarrow> act list" where
  "get_neighbor_config_acts request sp =
     peek Speaker_Lock
     @ (if \<exists>s. request = Some s \<and> parse_ip s = None then []
        else concat (map (\<lambda>i. peek (Neighbor_Lock i)) [0..<length (neighbors sp)]))"

definition get_rib_acts :: "rib_request \<Rightarrow> ('n, 'm, 'p) speaker \<Rightarrow> act list" where
  "get_rib_acts request sp =
     (case (afi_from_u16 (ucast (rq_afi request)), safi_from_u8 (ucast (rq_safi request))) of
        (Some a, Some s) \<Rightarrow>
          (let fam = \<lparr>afi = a, safi = s\<rparr>
           in guarded Speaker_Lock (case sp_rib sp fam of None \<Rightarrow> [] | Some rib \<Rightarrow> peek (Rib_Lock fam)))
      | _ \<Rightarrow> [])"

section \<open>Which of them keep the order\<close>

lemma orderly_added_acts [orderly_intros]: "r \<le> 3 \<Longrightarrow> orderly r (added_acts fam L fib asn a ns st)"
  by (induction ns arbitrary: st) (simp_all add: add_nlri_acts_def orderly_intros split: option.split)

lemma orderly_withdrawn_acts [orderly_intros]: "r \<le> 3 \<Longrightarrow> orderly r (withdrawn_acts fam L fib peer ns st)"
  by (induction ns arbitrary: st) (simp_all add: orderly_intros split: option.split)

lemma orderly_tell [orderly_intros]: "orderly 0 (tell_neighbor_acts n)"
  unfolding tell_neighbor_acts_def by (intro orderly_intros) simp

lemma orderly_loc_rib [orderly_intros]:
  "r \<le> 2 \<Longrightarrow> orderly r (loc_rib_added_acts fam L fib asn routes rib)"
  "r \<le> 2 \<Longrightarrow> orderly r (loc_rib_withdraw_acts fam L fib ns routes rib)"
  unfolding loc_rib_added_acts_def loc_rib_withdraw_acts_def by (simp_all add: orderly_intros)

lemma orderly_rib_mgr: "orderly 0 (rib_mgr_acts fam L fib asn ord e rib nbs)"
proof (cases e)
  case (UpdateRoutes msg)
  show ?thesis
    unfolding rib_mgr_acts_def process_rib_event_acts_def UpdateRoutes rib_event.case Let_def
    by (simp add: orderly_intros orderly_concat split: option.split)
qed

lemma orderly_handle_update: "orderly 0 (handle_update_acts i m nb)"
  unfolding handle_update_acts_def
  by (cases "update_routes m" rule: prod_cases4) (simp add: orderly_intros split: option.split)

lemma orderly_handle_notification: "orderly 0 (handle_notification_acts i sp nb)"
  unfolding handle_notification_acts_def
  by (intro orderly_intros orderly_concat; simp add: orderly_intros split: option.split)

lemma orderly_collision: "orderly 0 (collision_acts r m ns)"
  by (induction r m ns rule: collision_acts.induct) (simp_all add: orderly_intros)

lemma orderly_handle_open: "orderly 0 (handle_open_acts i c m sp nb)"
  unfolding handle_open_acts_def collision_detection_acts_def
  by (intro orderly_intros orderly_collision; simp)

lemma orderly_send_locrib: "r \<le> 1 \<Longrightarrow> orderly r (send_locrib_acts i nb)"
  unfolding send_locrib_acts_def by (auto intro!: orderly_intros orderly_concat)

lemma orderly_notify: "orderly 0 (notify_acts i nb)"
  unfolding notify_acts_def by (intro orderly_intros; simp)

lemma orderly_process_message: "orderly 0 (process_message_acts i m sp nb)"
  unfolding process_message_acts_def
  by (cases "nb_state nb"; cases m)
    (simp_all add: orderly_intros orderly_notify orderly_handle_open orderly_send_locrib
      orderly_handle_notification orderly_handle_update)

lemma orderly_send_update: "orderly 0 (send_update_acts ord i nb routes)"
  unfolding send_update_acts_def
  by (intro orderly_intros orderly_concat; simp add: orderly_intros orderly_concat split: list.split)

lemma orderly_process_event: "orderly 0 (process_event_acts ord sent i e nb)"
  unfolding process_event_acts_def send_local_open_acts_def
  by (cases "nb_state nb"; cases e) (simp_all add: orderly_intros orderly_send_update)

lemma orderly_session_task:
  "orderly 0 (fsm_event_acts ord sent i e nb)" "orderly 0 (fsm_tcp_start_acts ord sent i nb)"
  "orderly 0 (fsm_tcp_end_acts i)" "orderly 0 (timer_hold_acts ended i nb)" "orderly 0 (timer_keepalive_acts i nb)"
  unfolding fsm_event_acts_def fsm_tcp_start_acts_def fsm_tcp_end_acts_def timer_hold_acts_def timer_keepalive_acts_def
  by (simp_all add: orderly_intros orderly_process_event split: bgp_state.split prod.split)

lemma orderly_connections:
  "orderly 0 (connect_acts i nb)" "orderly 0 (add_incoming_acts free ip sp)"
  "orderly 0 (get_neighbor_config_acts rq sp)" "orderly 0 (get_rib_acts rq' sp)" "orderly 0 (fib_refresh_acts fam)"
  "orderly 0 listen_acts"
  unfolding connect_acts_def add_incoming_acts_def get_neighbor_config_acts_def get_rib_acts_def fib_refresh_acts_def Let_def
    listen_acts_def
  by (simp_all add: orderly_intros orderly_concat split: option.split)

lemma not_orderly_fib_mgr: "\<not> orderly r (fib_mgr_acts True fam e)"
  by (cases e) (auto simp: orderly_def fib_mgr_acts_def sync_acts_def peek_def guarded_def dest!: spec [of _ "{}"])

text \<open>A run of a handler, on a speaker as the handler finds it; all but a round of \<open>fib_mgr\<close> with an event.\<close>

inductive handler_run :: "('n, 'm, 'p) speaker \<Rightarrow> act list \<Rightarrow> bool" for sp :: "('n, 'm, 'p) speaker"
where
  run_rib_mgr: "sp_rib sp fam = Some rib \<Longrightarrow> sp_fib sp fam = Some fib \<Longrightarrow>
    handler_run sp (rib_mgr_acts fam L fib (local_asn sp) order e rib (neighbors sp))"
| run_fib_refresh: "handler_run sp (fib_refresh_acts fam)"
| run_message: "i < length (neighbors sp) \<Longrightarrow> handler_run sp (process_message_acts i m sp (neighbors sp ! i))"
| run_event: "i < length (neighbors sp) \<Longrightarrow> handler_run sp (fsm_event_acts order sent i e (neighbors sp ! i))"
| run_start: "i < length (neighbors sp) \<Longrightarrow> handler_run sp (fsm_tcp_start_acts order sent i (neighbors sp ! i))"
| run_end: "i < length (neighbors sp) \<Longrightarrow> handler_run sp (fsm_tcp_end_acts i)"
| run_hold: "i < length (neighbors sp) \<Longrightarrow> handler_run sp (timer_hold_acts ended i (neighbors sp ! i))"
| run_keepalive: "i < length (neighbors sp) \<Longrightarrow> handler_run sp (timer_keepalive_acts i (neighbors sp ! i))"
| run_connect: "i < length (neighbors sp) \<Longrightarrow> handler_run sp (connect_acts i (neighbors sp ! i))"
| run_listen: "handler_run sp listen_acts"
| run_incoming: "handler_run sp (add_incoming_acts free ip sp)"
| run_neighbor_config: "handler_run sp (get_neighbor_config_acts request sp)"
| run_rib_query: "handler_run sp (get_rib_acts rib_request sp)"

lemma handler_run_orderly: "handler_run sp as \<Longrightarrow> orderly 0 as"
  by (induction rule: handler_run.induct)
    (rule orderly_rib_mgr orderly_connections orderly_process_message orderly_session_task)+

lemma handler_runs_orderly:
  assumes "\<forall>as \<in> set runs. \<exists>sp :: ('n, 'm, 'p) speaker. handler_run sp as"
  shows "orderly 0 (concat runs)"
  by (rule orderly_concat) (use assms handler_run_orderly in blast)

section \<open>How the managers begin\<close>

lemma rib_mgr_acts_add:
  assumes "upd_added msg = Some routes" and "ru_nlris routes \<noteq> []" and "is_valid asn (ru_attributes routes)"
  shows "\<exists>as. rib_mgr_acts fam L fib asn order (UpdateRoutes msg) rib nbs =
    [Recv (Rib_Queue fam), Lock (Rib_Lock fam)] @ Lock (Fib_Lock fam) # as"
proof -
  obtain n ns where ns: "ru_nlris routes = n # ns" using assms(2) by (cases "ru_nlris routes") auto
  obtain as where "added_acts fam L fib asn (ru_attributes routes) (n # ns) (rib, []) = Lock (Fib_Lock fam) # as"
    using assms(3) by (cases "rib n") (simp_all add: add_nlri_acts_def peek_def guarded_def)
  then show ?thesis
    by (simp add: rib_mgr_acts_def process_rib_event_acts_def assms(1) loc_rib_added_acts_def ns guarded_def)
qed

lemma fib_mgr_acts_eq: "fib_mgr_acts True fam e =
    [Recv (Fib_Queue fam), Lock (Fib_Lock fam)] @ Lock (Rib_Lock fam) # [Unlock (Rib_Lock fam), Unlock (Fib_Lock fam)]"
  by (cases e) (simp add: fib_mgr_acts_def sync_acts_def peek_def guarded_def)

text \<open>Two tasks that have each locked what the other locks next.\<close>

lemma crossed_locks:
  assumes "a < length (todo s)" and "b < length (todo s)" and "a \<noteq> b" and "k \<noteq> l" and "c \<noteq> d"
    and "todo s ! a = [Recv c, Lock k] @ Lock l # as" and "todo s ! b = [Recv d, Lock l] @ Lock k # bs"
    and "held s k = None" and "held s l = None" and "0 < queued s c" and "0 < queued s d"
  shows "\<exists>sched s'. fires sched s = Some s' \<and> deadlocked {a, b} s' \<and> held s' k = Some a \<and> held s' l = Some b"
proof -
  let ?q1 = "(queued s)(c := queued s c - 1)"
  let ?s1 = "\<lparr>held = (held s)(k \<mapsto> a), queued = ?q1, todo = (todo s)[a := Lock l # as]\<rparr>"
  let ?q2 = "?q1(d := ?q1 d - 1)"
  let ?s2 = "\<lparr>held = (held ?s1)(l \<mapsto> b), queued = ?q2, todo = (todo ?s1)[b := Lock k # bs]\<rparr>"
  have one: "exec a [Recv c, Lock k] (held s, queued s) = Some ((held s)(k \<mapsto> a), ?q1)"
    using assms by simp
  have two: "exec b [Recv d, Lock l] (held ?s1, queued ?s1) = Some ((held ?s1)(l \<mapsto> b), ?q2)"
    using assms by simp
  have "b < length (todo ?s1)" "todo ?s1 ! b = [Recv d, Lock l] @ Lock k # bs"
    using assms(2,3,7) by simp_all
  note runs = exec_fires [OF one assms(1,6)] exec_fires [OF two this]
  have "fires (replicate (length [Recv c, Lock k]) a @ replicate (length [Recv d, Lock l]) b) s = Some ?s2"
    unfolding fires_append runs(1) option.case by (rule runs(2))
  moreover have "deadlocked {a, b} ?s2"
    using assms(1-5) by (simp add: deadlocked_def waits_def)
  moreover have "held ?s2 k = Some a" "held ?s2 l = Some b" using assms(4) by simp_all
  ultimately show ?thesis by blast
qed

text \<open>The KEEPALIVE that confirms a session sends the RIB to the session's own queue, with the neighbor,
  the speaker and the RIB locked.  Nobody but the task itself empties that queue: if it is full then, as
  a hold timer with an interval of zero keeps it, the task and everything that needs the speaker stop.\<close>

lemma keepalive_acts_begin:
  assumes "nb_state nb = OpenConfirm" and "multiprotocol (capabilities_advertised nb) = Some (pre @ fam # post)"
    and "multiprotocol (capabilities_received nb) = Some rec" and "fam \<in> set rec" and "set pre \<inter> set rec = {}"
  shows "\<exists>as. process_message_acts i MB_Keepalive sp nb = [Lock (Neighbor_Lock i), Unlock (Neighbor_Lock i),
    Lock (Neighbor_Lock i), Unlock (Neighbor_Lock i), Lock (Neighbor_Lock i), Lock Speaker_Lock, Lock (Rib_Lock fam)]
      @ Send (Event_Queue i) # as"
proof -
  let ?f = "\<lambda>fam. if fam \<in> set rec then guarded Speaker_Lock (guarded (Rib_Lock fam) [Send (Event_Queue i)]) else []"
  have none: "concat (map ?f pre) = []" using assms(5) by (auto simp: disjoint_iff)
  have "send_locrib_acts i nb = concat (map ?f pre) @ ?f fam @ concat (map ?f post)"
    using assms(2,3) by (simp add: send_locrib_acts_def)
  then have "send_locrib_acts i nb = [Lock Speaker_Lock, Lock (Rib_Lock fam)] @ Send (Event_Queue i) #
      [Unlock (Rib_Lock fam), Unlock Speaker_Lock] @ concat (map ?f post)"
    unfolding none using assms(4) by (simp add: guarded_def)
  then show ?thesis
    using assms(1) by (simp add: process_message_acts_def peek_def guarded_def)
qed

lemma keepalive_stall:
  assumes "t < length (todo s)" and "todo s ! t = process_message_acts i MB_Keepalive sp nb @ rest"
    and "nb_state nb = OpenConfirm" and "multiprotocol (capabilities_advertised nb) = Some (pre @ fam # post)"
    and "multiprotocol (capabilities_received nb) = Some rec" and "fam \<in> set rec" and "set pre \<inter> set rec = {}"
    and "held s (Neighbor_Lock i) = None" and "held s Speaker_Lock = None" and "held s (Rib_Lock fam) = None"
    and "capacity \<le> queued s (Event_Queue i)"
    and "\<forall>j < length (todo s). j \<noteq> t \<longrightarrow> Recv (Event_Queue i) \<notin> set (todo s ! j)"
  shows "\<exists>sched s'. fires sched s = Some s' \<and> deadlocked {t} s' \<and> held s' Speaker_Lock = Some t"
proof -
  let ?pre = "[Lock (Neighbor_Lock i), Unlock (Neighbor_Lock i), Lock (Neighbor_Lock i), Unlock (Neighbor_Lock i),
    Lock (Neighbor_Lock i), Lock Speaker_Lock, Lock (Rib_Lock fam)]"
  obtain as where acts: "process_message_acts i MB_Keepalive sp nb = ?pre @ Send (Event_Queue i) # as"
    using keepalive_acts_begin [OF assms(3-7)] by blast
  then have todo: "todo s ! t = ?pre @ Send (Event_Queue i) # as @ rest" using assms(2) by simp
  let ?h = "(held s)(Neighbor_Lock i \<mapsto> t, Speaker_Lock \<mapsto> t, Rib_Lock fam \<mapsto> t)"
  let ?s = "\<lparr>held = ?h, queued = queued s, todo = (todo s)[t := Send (Event_Queue i) # as @ rest]\<rparr>"
  have "exec t ?pre (held s, queued s) = Some (?h, queued s)"
    using assms(8-10) by simp
  from exec_fires [OF this assms(1) todo] have "fires (replicate (length ?pre) t) s = Some ?s" .
  moreover have "deadlocked {t} ?s"
    using assms(1,11,12) by (auto simp: deadlocked_def waits_def nth_list_update)
  moreover have "held ?s Speaker_Lock = Some t" by simp
  ultimately show ?thesis by blast
qed

end
