(* ===== verification/Operation_Properties.thy ===== *)
theory Operation_Properties
  imports Session_Task Rib_Spec Task_Acts Session_Properties
begin

text \<open>
  Properties of the running program as a whole: the queries of its state, the composition of the
  session task, the refinement of the RIB manager's specification and the locking of its tasks.
\<close>

section \<open>Queries\<close>

lemma neighbor_queries:
  assumes "reachable L b N cfg sp"
  shows "\<exists>es. get_neighbor_config None sp = Ok es
    \<and> map ne_state es = map (\<lambda>nb. state_text (nb_state nb)) (neighbors sp)
    \<and> (\<forall>e \<in> set es. get_neighbor_config (Some (ne_ip e)) sp = Ok (filter (\<lambda>e'. ne_ip e' = ne_ip e) es))
    \<and> (\<forall>s. parse_ip s = None \<longrightarrow> (\<exists>status. get_neighbor_config (Some s) sp = Err status
        \<and> client show_net order (Some (Neighbors_Command (Some s))) sp = Err (Refused status)))
    \<and> client show_net order (Some (Neighbors_Command None)) sp = Ok (Neighbor_Reply es)"
proof -
  let ?es = "map neighbor_entry_of (neighbors sp)"
  have ips: "\<forall>nb \<in> set (neighbors sp). remote_ip nb \<noteq> None"
    using reachable_sys_ok [OF assms] by (simp add: sys_ok_def neighbor_ok_def)
  have "get_neighbor_config (Some (ne_ip e)) sp = Ok (filter (\<lambda>e'. ne_ip e' = ne_ip e) ?es)" if "e \<in> set ?es" for e
  proof -
    from that obtain nb where nb: "nb \<in> set (neighbors sp)" "e = neighbor_entry_of nb" by auto
    with ips obtain ip where "remote_ip nb = Some ip" by auto
    then have "ne_ip e = show_ip ip" by (simp add: nb(2) ne_ip_entry)
    then show ?thesis
      by (simp only: get_neighbor_config_address entries_by_address [OF ips])
  qed
  moreover have "map ne_state ?es = map (\<lambda>nb. state_text (nb_state nb)) (neighbors sp)"
    by (simp add: neighbor_entry_of_def)
  ultimately show ?thesis
    by (intro exI [of _ ?es]) (simp add: get_neighbor_config_def client_def)
qed

lemma rib_query:
  fixes rib :: "'n rib"
  assumes "reachable L b N cfg sp" and "sp_rib sp fam = Some rib"
    and "set (order rib) = dom rib" and "distinct (order rib)" and "inj show_net"
    and "unat (rq_afi rq) mod 65536 = unat (afi_code (afi fam))" and "unat (rq_safi rq) mod 256 = unat (safi_code (safi fam))"
  shows "\<exists>ts. get_rib show_net order rq sp = Ok ts \<and> distinct ts
    \<and> (\<forall>n. show_net (net n) \<in> set ts \<longleftrightarrow> (\<exists>r rs. rib n = Some (r # rs)))
    \<and> client show_net order (Some (Rib_Command (Some (rq_afi rq)) (Some (rq_safi rq)))) sp = Ok (Rib_Reply ts)
    \<and> (fam = ipv4_unicast \<longrightarrow> client show_net order (Some (Rib_Command None None)) sp = Ok (Rib_Reply ts))"
proof -
  have codes: "(ucast (rq_afi rq) :: u16) = afi_code (afi fam)" "(ucast (rq_safi rq) :: u8) = safi_code (safi fam)"
    using assms(6,7) by (simp_all only: word_unat_eq_iff) (simp_all add: unsigned_ucast_eq unsigned_take_bit_eq take_bit_eq_mod)
  have fam: "\<lparr>afi = afi fam, safi = safi fam\<rparr> = fam" by simp
  have "rib_ok (local_asn sp) rib"
    using reachable_sys_ok [OF assms(1)] assms(2) unfolding sys_ok_def by blast
  then have entries: "rib n = Some rs \<Longrightarrow> rs \<noteq> []" for n rs
    unfolding rib_ok_def by blast
  have inj: "inj_on (\<lambda>n :: 'n nlri. show_net (net n)) A" for A
  proof (rule inj_onI)
    fix x y :: "'n nlri"
    assume "show_net (net x) = show_net (net y)"
    then have "net x = net y" by (rule injD [OF assms(5)])
    then show "x = y" by (intro nlri.equality) simp_all
  qed
  let ?ts = "map (\<lambda>n. show_net (net n)) (order rib)"
  have "get_rib show_net order rq sp = Ok ?ts"
    using assms(2) by (simp add: get_rib_def codes fam)
  moreover from this have "client show_net order (Some (Rib_Command (Some (rq_afi rq)) (Some (rq_safi rq)))) sp = Ok (Rib_Reply ?ts)"
    by (cases rq) (simp add: client_def option_default_def)
  moreover have "client show_net order (Some (Rib_Command None None)) sp = Ok (Rib_Reply ?ts)" if "fam = ipv4_unicast"
  proof -
    have "afi_from_u16 1 = Some Ipv4" "safi_from_u8 1 = Some NLRIUnicast" by code_simp+
    then show ?thesis
      using assms(2) that by (simp add: client_def option_default_def get_rib_def ipv4_unicast_def)
  qed
  moreover have "distinct ?ts" using assms(4) inj by (simp add: distinct_map)
  moreover have "show_net (net n) \<in> set ?ts \<longleftrightarrow> (\<exists>r rs. rib n = Some (r # rs))" for n
  proof -
    have "show_net (net n) \<in> set ?ts \<longleftrightarrow> n \<in> dom rib"
      using inj_on_image_mem_iff [OF inj, of n UNIV "set (order rib)"] assms(3) by simp
    with entries [of n] show ?thesis by (cases "rib n") (auto simp: neq_Nil_conv)
  qed
  ultimately show ?thesis by blast
qed

text \<open>C32: what the gRPC service answers in every reachable state.  It lists all neighbors, in the order of the
  configuration, with their states; a query for an address the list shows, in the very text the list
  shows it, returns exactly the entries of the list with that address; a text that is no address is
  refused, for which the client fails.  A query of a family's RIB returns each prefix that has a route
  once, and no other; the numbers of the family are cut to 16 and 8 bits first, so any AFI that is 1 or 2
  modulo 65536 is taken for that family, and the client's query without options is the one for IPv4 unicast.\<close>

theorem queries:
  fixes rib :: "'n rib"
  assumes "reachable L b N cfg sp" and "sp_rib sp fam = Some rib"
    and "set (order rib) = dom rib" and "distinct (order rib)" and "inj show_net"
    and "unat (rq_afi rq) mod 65536 = unat (afi_code (afi fam))" and "unat (rq_safi rq) mod 256 = unat (safi_code (safi fam))"
  shows "(\<exists>es. get_neighbor_config None sp = Ok es
      \<and> map ne_state es = map (\<lambda>nb. state_text (nb_state nb)) (neighbors sp)
      \<and> (\<forall>e \<in> set es. get_neighbor_config (Some (ne_ip e)) sp = Ok (filter (\<lambda>e'. ne_ip e' = ne_ip e) es))
      \<and> (\<forall>s. parse_ip s = None \<longrightarrow> (\<exists>status. get_neighbor_config (Some s) sp = Err status
          \<and> client show_net order (Some (Neighbors_Command (Some s))) sp = Err (Refused status)))
      \<and> client show_net order (Some (Neighbors_Command None)) sp = Ok (Neighbor_Reply es))
    \<and> (\<exists>ts. get_rib show_net order rq sp = Ok ts \<and> distinct ts
      \<and> (\<forall>n. show_net (net n) \<in> set ts \<longleftrightarrow> (\<exists>r rs. rib n = Some (r # rs)))
      \<and> client show_net order (Some (Rib_Command (Some (rq_afi rq)) (Some (rq_safi rq)))) sp = Ok (Rib_Reply ts)
      \<and> (fam = ipv4_unicast \<longrightarrow> client show_net order (Some (Rib_Command None None)) sp = Ok (Rib_Reply ts)))"
  using neighbor_queries [OF assms(1)] rib_query [where order = order, OF assms] by (rule conjI)

theorem queries_witness:
  "get_neighbor_config (Some ''0.0.0.9'') started1 = Ok [neighbor_entry_of nb1]
    \<and> (\<exists>status. get_neighbor_config (Some ''[::]:0'') started1 = Err status)
    \<and> (\<exists>ts. get_rib show_ref (\<lambda>_. []) \<lparr>rq_afi = 65537, rq_safi = 1\<rparr> started1 = Ok ts \<and> distinct ts)"
proof -
  have n: "neighbors started1 = [nb1]" by (simp add: started1_def sp1_def)
  have rib: "sp_rib started1 ipv4_unicast = Some Map.empty" by (simp add: started1_def)
  have "show_ip (V4 9) = ''0.0.0.9''" by code_simp
  then have ip: "ne_ip (neighbor_entry_of nb1) = ''0.0.0.9''"
    by (simp add: neighbor_entry_of_def nb1_def neighbor_new_def)
  have codes: "unat (rq_afi \<lparr>rq_afi = 65537, rq_safi = 1\<rparr>) mod 65536 = unat (afi_code (afi ipv4_unicast))"
    "unat (rq_safi \<lparr>rq_afi = 65537, rq_safi = 1\<rparr>) mod 256 = unat (safi_code (safi ipv4_unicast))"
    by (simp_all add: ipv4_unicast_def)
  have order: "set [] = dom (Map.empty :: ref_net rib)" "distinct ([] :: ref_net nlri list)" by simp_all
  note q = queries [OF reachable_started1 rib, of "\<lambda>_. []", OF order inj_show_ref codes]
  obtain es where es: "get_neighbor_config None started1 = Ok es"
    and one: "\<forall>e \<in> set es. get_neighbor_config (Some (ne_ip e)) started1 = Ok (filter (\<lambda>e'. ne_ip e' = ne_ip e) es)"
    and none: "\<forall>s. parse_ip s = None \<longrightarrow> (\<exists>status. get_neighbor_config (Some s) started1 = Err status)"
    using conjunct1 [OF q] by blast
  have ts: "\<exists>ts. get_rib show_ref (\<lambda>_. []) \<lparr>rq_afi = 65537, rq_safi = 1\<rparr> started1 = Ok ts \<and> distinct ts"
    using conjunct2 [OF q] by blast
  from es have "es = [neighbor_entry_of nb1]" by (simp add: get_neighbor_config_def n)
  with one none ip parse_ip_bracket [of "''::]:0''"] ts show ?thesis by auto
qed

section \<open>The session task\<close>

lemma reachable_steps: "(sys_step L b)\<^sup>*\<^sup>* sp sp' \<Longrightarrow> reachable L b N cfg sp \<Longrightarrow> reachable L b N cfg sp'"
  by (induction rule: rtranclp_induct) (auto intro: reach_step)

text \<open>C33: whatever the session task meets (events, frames, errors, the end of the stream), interleaved
  with handlers of other tasks in any way, it leaves the speaker in a reachable state: every round is
  one of the steps the invariants are about.  When its loop ends, in success or with an error, the
  neighbor is idle without a channel; it ends without an error only by an event it received.\<close>

theorem session_task:
  assumes "reachable L b N cfg sp" and "i < length (neighbors sp)"
    and "session_start L order (local_info_of sp) ch (neighbors sp ! i) c = (nb, Ok c')"
    and "others_step L b order rib_order ch i ts \<lparr>s_speaker = upd_neighbor i nb sp, s_conn = c', s_queue = [], s_sent = []\<rparr>"
    and "fsm_tcp L b order rib_order ch i ts sp c = (st, r)"
  shows "reachable L b N cfg (s_speaker st)
    \<and> (r = Some (Ok ()) \<longrightarrow> Receive \<in> set ts)
    \<and> (\<forall>res. r = Some res \<longrightarrow> (\<exists>p. res = Panic p)
        \<or> nb_state (neighbors (s_speaker st) ! i) = Idle \<and> tx (neighbors (s_speaker st) ! i) = None)"
proof -
  let ?st = "\<lparr>s_speaker = upd_neighbor i nb sp, s_conn = c', s_queue = [], s_sent = []\<rparr>"
  obtain st1 q where loop: "fsm_loop L b order rib_order ch i ts ?st = (st1, q)"
    by (cases "fsm_loop L b order rib_order ch i ts ?st") auto
  have start: "reachable L b N cfg (upd_neighbor i nb sp)"
    using reach_step [OF assms(1) step_start [OF assms(2,3)]] .
  have steps: "(sys_step L b)\<^sup>*\<^sup>* (upd_neighbor i nb sp) (s_speaker st1)"
    using fsm_loop_steps [OF loop _ assms(4)] assms(2) by simp
  then have reach: "reachable L b N cfg (s_speaker st1)" using start by (rule reachable_steps)
  have len: "i < length (neighbors (s_speaker st1))" using sys_steps_length [OF steps] assms(2) by simp
  have ended: "reachable L b N cfg (s_speaker (end_session i st1))
      \<and> nb_state (neighbors (s_speaker (end_session i st1)) ! i) = Idle \<and> tx (neighbors (s_speaker (end_session i st1)) ! i) = None"
    using reach_step [OF reach step_end [OF len]] len by (simp add: end_session_def session_end_def set_state_def)
  have res: "(st, r) = (case q of None \<Rightarrow> (st1, None) | Some (Panic p) \<Rightarrow> (st1, Some (Panic p))
      | Some x \<Rightarrow> (end_session i st1, Some x))"
    using assms(5) loop by (simp add: fsm_tcp_def assms(3) split: option.splits outcome.splits)
  have "Receive \<in> set ts" if "q = Some (Ok ())" using fsm_loop_Ok loop that by blast
  with res reach ended show ?thesis
    by (cases q) (auto split: outcome.splits)
qed

theorem session_task_witness:
  "\<exists>st. fsm_tcp ref_ipnet Debug (\<lambda>gs. gs) (\<lambda>_. []) 7 0 [Posted TcpConnectionFails, Receive] started1
      \<lparr>conn_out = [], conn_open = True\<rparr> = (st, Some (Ok ()))
    \<and> reachable ref_ipnet Debug netlink1 (Some config1) (s_speaker st)"
proof -
  let ?c = "\<lparr>conn_out = [], conn_open = True\<rparr>"
  have n: "neighbors started1 = [nb1]" by (simp add: started1_def sp1_def)
  have "nb_state nb1 = Idle" by (simp add: nb1_def neighbor_new_def)
  then have start: "session_start ref_ipnet (\<lambda>gs. gs) (local_info_of started1) 7 (neighbors started1 ! 0) ?c =
      (nb1\<lparr>tx := Some 7\<rparr>, Ok ?c)"
    by (simp add: session_start_def n)
  let ?ts = "[Posted TcpConnectionFails, Receive] :: (ref_net, unit, unit) turn list"
  obtain st r where run: "fsm_tcp ref_ipnet Debug (\<lambda>gs. gs) (\<lambda>_. []) 7 0 ?ts started1 ?c = (st, r)"
    by (cases "fsm_tcp ref_ipnet Debug (\<lambda>gs. gs) (\<lambda>_. []) 7 0 ?ts started1 ?c") auto
  have "r = Some (Ok ())"
    using run start by (simp add: fsm_tcp_def fsm_round_def Let_def)
  with run session_task [OF reachable_started1 _ start _ run] show ?thesis
    by (simp add: n fsm_round_def)
qed

text \<open>C34: a NOTIFICATION ends the task: handled in ESTABLISHED with \<open>k\<close> events waiting, it leaves a loop
  that has ended after \<open>k + 1\<close> receptions, whatever the peer, the timers and the other tasks do in
  between; and so does an error of the stream at once.  That the peer has closed the stream does not: the loop
  goes on as if nothing had happened.\<close>

theorem session_ends:
  assumes "nb_state (neighbors (s_speaker st) ! i) = Established" and "tx (neighbors (s_speaker st) ! i) = Some ch"
    and "message_from_bytes b L f = Ok m" and "body m = MB_Notification x"
    and "length (s_queue st) < receives ts"
  shows "(\<exists>st' r. fsm_loop L b order rib_order ch i (Read_Frame now alive f # ts) st = (st', Some r))
    \<and> (\<exists>st'. fsm_loop L b order rib_order ch i (Read_Failed # ts) st = (st', Some (Err ''Connection read error'')))
    \<and> fsm_loop L b order rib_order ch i (replicate n Read_End) st = (st, None)"
proof -
  obtain st1 where st1: "fsm_round L b order rib_order ch i (Read_Frame now alive f) st = (st1, None)"
    "s_queue st1 = s_queue st @ [TcpConnectionFails]"
    using fsm_round_notification [OF assms(1-4)] by blast
  have "snd (fsm_loop L b order rib_order ch i ts st1) \<noteq> None"
    using fsm_loop_drains [of st1 "s_queue st" "[]" ts] st1(2) assms(5) by simp
  moreover have "\<exists>st'. fsm_loop L b order rib_order ch i (Read_Failed # ts) st = (st', Some (Err ''Connection read error''))"
    using read_failed_ends [of L order i st] by (auto simp: fsm_round_def split: prod.splits)
  ultimately show ?thesis
    using st1(1) fsm_loop_end_of_stream by (cases "fsm_loop L b order rib_order ch i ts st1") auto
qed

theorem session_ends_witness:
  "\<exists>f st' r. fsm_loop ref_ipnet Debug (\<lambda>gs. gs) (\<lambda>_. []) 5 0 [Read_Frame 0 (\<lambda>_. True) f, Posted HoldTimerExpires, Receive]
      \<lparr>s_speaker = upd_neighbor 0 ((set_state Established nb1)\<lparr>tx := Some 5\<rparr>) started1,
        s_conn = \<lparr>conn_out = [], conn_open = True\<rparr>, s_queue = [], s_sent = []\<rparr> = (st', Some r)"
proof -
  let ?m = "\<lparr>message_type = MT_Notification, body = MB_Notification (notification_new Cease 2)\<rparr> :: ref_net message"
  let ?st = "\<lparr>s_speaker = upd_neighbor 0 ((set_state Established nb1)\<lparr>tx := Some 5\<rparr>) started1,
    s_conn = \<lparr>conn_out = [], conn_open = True\<rparr>, s_queue = [], s_sent = []\<rparr>"
  have n: "neighbors started1 = [nb1]" by (simp add: started1_def sp1_def)
  have "message_to_bytes ref_ipnet ?m = Ok [3, 6, 2]"
    by (simp add: message_to_bytes_def notification_new_def notification_to_bytes_def as_u8_def)
  moreover have "\<exists>out. codec_encode [3, 6, 2] [] = Ok out"
    by (simp add: codec_encode_def validate_message_length_def MIN_MESSAGE_LENGTH_def MAX_MESSAGE_LENGTH_def MARKER_def Let_def)
  moreover have "valid_message ref_ipnet ?m"
    by (simp add: valid_message_def notification_new_def)
  ultimately obtain f where f: "message_from_bytes Debug ref_ipnet f = Ok (message_norm ref_ipnet ?m)"
    using ref.message_wire_roundtrip [of ?m] by blast
  show ?thesis
    using session_ends [OF _ _ f, of ?st 0 5 _ "[Posted HoldTimerExpires, Receive]"]
    by (simp add: n message_norm_def receives_def) blast
qed

section \<open>The RIB manager's specification\<close>

text \<open>C35: the RIB manager refines its specification.  What the RIB holds after any events is the
  multiset of valid routes announced for each prefix without those withdrawn since, and depends on the
  events alone, not on the FIBs or the orders in which the hash map was walked; and the best
  reachable route of a prefix is, for every FIB, a route of that multiset that none there with a next hop
  in the FIB beats.\<close>

theorem rib_refinement:
  fixes xs :: "('n, 'm, 'p) rib_input list"
  assumes "list_all rib_input_ok xs"
  shows "contents (fold (rib_input_step L asn) xs Map.empty) = fold (spec_event asn) (map (\<lambda>x. snd (snd x)) xs) (\<lambda>_. {#})
    \<and> spec_best L fib (fold (spec_event asn) (map (\<lambda>x. snd (snd x)) xs) (\<lambda>_. {#}) n)
        (rib_best L fib (fold (rib_input_step L asn) xs Map.empty) n)"
proof -
  have "fold (spec_input asn) xs c = fold (spec_event asn) (map (\<lambda>x. snd (snd x)) xs) c" for c
    by (induction xs arbitrary: c) (simp_all add: spec_input_def)
  moreover have "contents (Map.empty :: 'n rib) = (\<lambda>_. {#})" by (simp add: contents_def fun_eq_iff)
  ultimately have "contents (fold (rib_input_step L asn) xs Map.empty) =
      fold (spec_event asn) (map (\<lambda>x. snd (snd x)) xs) (\<lambda>_. {#})"
    using rib.run [OF assms, of Map.empty L asn] by simp
  with rib_best_spec [OF rib_ok_run [OF rib_ok_empty [of asn], of L xs], of L fib n] show ?thesis by simp
qed

definition announce1 :: "u32 \<Rightarrow> ref_net rib_event" where
  "announce1 peer = UpdateRoutes \<lparr>upd_added = Some \<lparr>ru_nlris = [net8], ru_attributes = route_of peer path1\<rparr>,
     upd_withdrawn = None, upd_rid = peer\<rparr>"

definition flush1 :: "u32 \<Rightarrow> ref_net rib_event" where
  "flush1 peer = UpdateRoutes \<lparr>upd_added = None,
     upd_withdrawn = Some \<lparr>ru_nlris = [], ru_attributes = route_of peer path1\<rparr>, upd_rid = peer\<rparr>"

lemma valid_route1: "is_valid 42 (route_of peer path1)"
  by (simp add: is_valid_def route_of_def ra_default_def path1_def)

theorem rib_refinement_witness:
  "\<exists>order. contents (fold (rib_input_step ref_ipnet 42)
      [(fib8, order, announce1 1), (fib8, order, announce1 2), (fib8, order, flush1 1)] Map.empty) net8 =
    {# route_of 2 path1 #}"
proof -
  have "\<exists>ns. finite (dom rib) \<longrightarrow> set ns = dom rib" for rib :: "ref_net rib"
    using finite_list [of "dom rib"] by (cases "finite (dom rib)") auto
  then obtain order where ok: "rib_input_ok (fib8, order, e)" for e :: "ref_net rib_event"
    unfolding rib_input_ok_def fst_conv snd_conv by metis
  let ?xs = "[(fib8, order, announce1 1), (fib8, order, announce1 2), (fib8, order, flush1 1)]"
  have "list_all rib_input_ok ?xs" by (simp add: ok)
  note rib_refinement [OF this, of ref_ipnet 42 fib8 net8]
  then have "contents (fold (rib_input_step ref_ipnet 42) ?xs Map.empty) net8 =
      fold (spec_event 42) (map (\<lambda>x. snd (snd x)) ?xs) (\<lambda>_. {#}) net8" by (rule conjunct1 [THEN fun_cong])
  also have "\<dots> = {# route_of 2 path1 #}"
    by (simp add: spec_event_def announce1_def flush1_def spec_add_def spec_withdrawal_def spec_flush_def valid_route1)
      (simp add: route_of_def)
  finally show ?thesis by blast
qed

section \<open>Locks and queues\<close>

text \<open>C36: the handlers never block each other by their locks alone.  Tasks that do, one after the other, any
  runs of the handlers (the RIB managers, the sessions and their timers, the connections, the queries
  and the FIB managers' refreshes; all but the FIB managers' handling of an event) can only come to a stop with
  everything done or with one of them waiting for a queue.\<close>

theorem lock_discipline:
  assumes "\<forall>as \<in> set (todo s). \<exists>runs. as = concat runs \<and> (\<forall>r \<in> set runs. \<exists>sp :: ('n, 'm, 'p) speaker. handler_run sp r)"
    and "held s = (\<lambda>_. None)" and "fires sched s = Some s'" and "\<forall>i. fire i s' = None"
  shows "(\<forall>as \<in> set (todo s'). as = [])
    \<or> (\<exists>i < length (todo s'). \<exists>as c. todo s' ! i = Send c # as \<and> capacity \<le> queued s' c
        \<or> todo s' ! i = Recv c # as \<and> queued s' c = 0)"
proof -
  have "orderly 0 as" if "as \<in> set (todo s)" for as
    using bspec [OF assms(1) that] handler_runs_orderly [where ?'n = 'n and ?'m = 'm and ?'p = 'p] by blast
  then have "orderly_tasks s" using assms(2) by (intro orderly_tasks_init) simp_all
  from orderly_progress [OF orderly_tasks_fires [OF this assms(3)] assms(4)] show ?thesis .
qed

definition quiet1 :: tasks where
  "quiet1 = \<lparr>held = (\<lambda>_. None), queued = (\<lambda>_. 0),
     todo = [fib_refresh_acts ipv4_unicast, fsm_event_acts (\<lambda>gs. gs) True 0 HoldTimerExpires nb1]\<rparr>"

theorem lock_discipline_witness:
  "\<exists>s'. fires [0, 0] quiet1 = Some s' \<and> (\<exists>i as c. todo s' ! i = Recv c # as \<and> queued s' c = 0)"
proof -
  have n: "neighbors started1 = [nb1]" by (simp add: started1_def sp1_def)
  have runs: "handler_run started1 (fib_refresh_acts ipv4_unicast)"
    "handler_run started1 (fsm_event_acts (\<lambda>gs. gs) True 0 HoldTimerExpires nb1)"
    using run_fib_refresh run_event [of 0 started1 "\<lambda>gs. gs" True HoldTimerExpires] by (simp_all add: n)
  have all: "\<forall>as \<in> set (todo quiet1). \<exists>runs. as = concat runs
      \<and> (\<forall>r \<in> set runs. \<exists>sp :: (ref_net, unit, unit) speaker. handler_run sp r)"
  proof
    fix as assume "as \<in> set (todo quiet1)"
    then have "handler_run started1 as" using runs by (auto simp: quiet1_def)
    then show "\<exists>runs. as = concat runs \<and> (\<forall>r \<in> set runs. \<exists>sp :: (ref_net, unit, unit) speaker. handler_run sp r)"
      by (intro exI [of _ "[as]"]) auto
  qed
  obtain rest where rest: "fsm_event_acts (\<lambda>gs. gs) True 0 HoldTimerExpires nb1 = Recv (Event_Queue 0) # rest"
    by (simp add: fsm_event_acts_def)
  let ?s = "\<lparr>held = (\<lambda>_. None), queued = (\<lambda>_. 0), todo = [[], Recv (Event_Queue 0) # rest]\<rparr>"
  have run: "fires [0, 0] quiet1 = Some ?s"
    by (simp add: quiet1_def fib_refresh_acts_def peek_def guarded_def fire_def rest fun_eq_iff)
  have "fire i ?s = None" for i
    by (auto simp: fire_def nth_Cons split: nat.split)
  with lock_discipline [OF all _ run] have "\<exists>i as c. todo ?s ! i = Recv c # as \<and> queued ?s c = 0"
    by (auto simp: quiet1_def capacity_def)
  with run show ?thesis by blast
qed

text \<open>C37: the two managers of a family block each other.  From every state in which both have an event to
  handle, the RIB manager's bringing a valid route, and neither of their locks is held, there is an
  order of their acts after which the RIB manager holds the RIB and waits for the FIB, and the FIB
  manager holds the FIB and waits for the RIB; from then on neither does anything, whatever
  the other tasks do.\<close>

theorem managers_deadlock:
  assumes "r < length (todo s)" and "f < length (todo s)" and "r \<noteq> f"
    and "todo s ! r = rib_mgr_acts fam L fib asn order (UpdateRoutes msg) rib nbs @ more_r"
    and "todo s ! f = fib_mgr_acts True fam RibUpdated @ more_f"
    and "held s (Rib_Lock fam) = None" and "held s (Fib_Lock fam) = None"
    and "0 < queued s (Rib_Queue fam)" and "0 < queued s (Fib_Queue fam)"
    and "upd_added msg = Some routes" and "ru_nlris routes \<noteq> []" and "is_valid asn (ru_attributes routes)"
  shows "\<exists>sched s'. fires sched s = Some s' \<and> held s' (Rib_Lock fam) = Some r \<and> held s' (Fib_Lock fam) = Some f
    \<and> (\<forall>later s''. fires later s' = Some s'' \<longrightarrow> fire r s'' = None \<and> fire f s'' = None \<and> todo s'' ! r = todo s' ! r)"
proof -
  obtain as where "todo s ! r = [Recv (Rib_Queue fam), Lock (Rib_Lock fam)] @ Lock (Fib_Lock fam) # as"
    using rib_mgr_acts_add [OF assms(10-12), of fam L fib order rib nbs] assms(4) by auto
  from crossed_locks [OF assms(1-3) _ _ this _ assms(6-9)] assms(5)
  obtain sched s' where s': "fires sched s = Some s'" "deadlocked {r, f} s'"
    "held s' (Rib_Lock fam) = Some r" "held s' (Fib_Lock fam) = Some f"
    by (auto simp: fib_mgr_acts_eq)
  have "fire r s'' = None \<and> fire f s'' = None \<and> todo s'' ! r = todo s' ! r" if "fires later s' = Some s''" for later s''
    using deadlocked_forever [OF s'(2) that] waits_blocked by (auto simp: deadlocked_def)
  with s' show ?thesis by blast
qed

definition managers1 :: tasks where
  "managers1 = \<lparr>held = (\<lambda>_. None), queued = (\<lambda>_. 1),
     todo = [rib_mgr_acts ipv4_unicast ref_ipnet fib8 42 (\<lambda>_. []) (announce1 1) Map.empty [],
       fib_mgr_acts True ipv4_unicast RibUpdated]\<rparr>"

theorem managers_deadlock_witness:
  "\<exists>sched s'. fires sched managers1 = Some s' \<and> held s' (Rib_Lock ipv4_unicast) = Some 0
    \<and> held s' (Fib_Lock ipv4_unicast) = Some 1 \<and> fire 0 s' = None \<and> fire 1 s' = None"
proof -
  let ?msg = "\<lparr>upd_added = Some \<lparr>ru_nlris = [net8], ru_attributes = route_of 1 path1\<rparr>, upd_withdrawn = None, upd_rid = 1\<rparr>"
  obtain sched s' where s': "fires sched managers1 = Some s'" "held s' (Rib_Lock ipv4_unicast) = Some 0"
    "held s' (Fib_Lock ipv4_unicast) = Some 1"
    and later: "\<forall>later s''. fires later s' = Some s'' \<longrightarrow> fire 0 s'' = None \<and> fire 1 s'' = None \<and> todo s'' ! 0 = todo s' ! 0"
    using managers_deadlock [of 0 managers1 1 ipv4_unicast ref_ipnet fib8 42 "\<lambda>_. []" ?msg Map.empty "[]" "[]" "[]"
      "\<lparr>ru_nlris = [net8], ru_attributes = route_of 1 path1\<rparr>"] valid_route1 [of 1]
    by (auto simp: managers1_def announce1_def)
  have "fires [] s' = Some s'" by simp
  with s' later show ?thesis by blast
qed

end
