(* ===== verification/Sections.thy ===== *)
theory Sections
  imports Prelude
begin

text \<open>
  Tasks as sequences of critical sections.  What a task does while it holds a mutex no other task
  sees half done; between two of its sections any section of another task can come.  A task is a
  tree: it is done, or its next section changes the shared state and what it read there decides how it
  goes on.  Run alone, a task is a function of the state; the locale \<open>guarantee\<close> is for what holds
  when its sections are interleaved with others.
\<close>

section \<open>Tasks\<close>

datatype ('s, 'r) task = Done 'r | Section "'s \<Rightarrow> 's" "'s \<Rightarrow> ('s, 'r) task"

primrec bind_task :: "('s, 'r) task \<Rightarrow> ('r \<Rightarrow> ('s, 'q) task) \<Rightarrow> ('s, 'q) task" where
  "bind_task (Done r) f = f r"
| "bind_task (Section g k) f = Section g (\<lambda>s. bind_task (k s) f)"

text \<open>The task alone: all its sections, one after the other.\<close>

primrec run_task :: "('s, 'r) task \<Rightarrow> 's \<Rightarrow> 's \<times> 'r" where
  "run_task (Done r) s = (s, r)"
| "run_task (Section g k) s = run_task (k s) (g s)"

text \<open>A section that only reads, and one that only writes.\<close>

definition reading :: "('s \<Rightarrow> 'r) \<Rightarrow> ('s, 'r) task" where
  "reading f = Section (\<lambda>s. s) (\<lambda>s. Done (f s))"

definition writing :: "('s \<Rightarrow> 's) \<Rightarrow> ('s, unit) task" where
  "writing f = Section f (\<lambda>s. Done ())"

named_theorems run_simps "runs of tasks without interference"

lemma run_bind [run_simps]: "run_task (bind_task t f) s = (case run_task t s of (s', r) \<Rightarrow> run_task (f r) s')"
  by (induction t arbitrary: s) simp_all

lemma run_reading [run_simps]: "run_task (reading f) s = (s, f s)"
  by (simp add: reading_def)

lemma run_writing [run_simps]: "run_task (writing f) s = (f s, ())"
  by (simp add: writing_def)

lemma run_Done [run_simps]: "run_task (Done r) s = (s, r)"
  by simp

lemma bind_Done [simp]: "bind_task t Done = t"
  by (induction t) simp_all

lemma bind_assoc: "bind_task (bind_task t f) g = bind_task t (\<lambda>r. bind_task (f r) g)"
  by (induction t) simp_all

text \<open>A task for each element of a list, in order, stopped by the first that says so.\<close>

fun each_task :: "('x \<Rightarrow> ('s, unit) task) \<Rightarrow> 'x list \<Rightarrow> ('s, unit) task" where
  "each_task f [] = Done ()"
| "each_task f (x # xs) = bind_task (f x) (\<lambda>_. each_task f xs)"

section \<open>Guarantees\<close>

text \<open>
  \<open>ensures ok le t Q s\<close>: from a point where the shared state was \<open>s\<close> on, and as long as all other tasks keep
  \<open>ok\<close> and only move the state up in \<open>le\<close>, every section of \<open>t\<close> keeps \<open>ok\<close> and moves the state up in \<open>le\<close>,
  and the result satisfies \<open>Q\<close>.  What a section has read once is remembered as a lower bound of the
  states to come.
\<close>

primrec ensures :: "('s \<Rightarrow> bool) \<Rightarrow> ('s \<Rightarrow> 's \<Rightarrow> bool) \<Rightarrow> ('s, 'r) task \<Rightarrow> ('s \<Rightarrow> 'r \<Rightarrow> bool) \<Rightarrow> 's \<Rightarrow> bool" where
  "ensures ok le (Done r) Q s0 = Q s0 r"
| "ensures ok le (Section g k) Q s0 =
     (\<forall>s. le s0 s \<longrightarrow> ok s \<longrightarrow> ok (g s) \<and> le s (g s) \<and> ensures ok le (k s) Q (g s))"

text \<open>The shared state and the tasks under way.  Any task with sections left can run the next one.\<close>

inductive interleaved :: "('s \<Rightarrow> ('s, 'r) task \<Rightarrow> bool) \<Rightarrow> 's \<Rightarrow> 's \<Rightarrow> ('s, 'r) task list \<Rightarrow> bool"
  for may_start :: "'s \<Rightarrow> ('s, 'r) task \<Rightarrow> bool" and s0 :: 's
where
  pool_init: "interleaved may_start s0 s0 []"
| pool_start: "interleaved may_start s0 s ts \<Longrightarrow> may_start s t \<Longrightarrow> interleaved may_start s0 s (ts @ [t])"
| pool_run: "interleaved may_start s0 s ts \<Longrightarrow> j < length ts \<Longrightarrow> ts ! j = Section g k \<Longrightarrow>
    interleaved may_start s0 (g s) (ts[j := k s])"

lemma pool_run_task:
  "interleaved may_start s0 s ts \<Longrightarrow> j < length ts \<Longrightarrow> run_task (ts ! j) s = (s', r) \<Longrightarrow>
    interleaved may_start s0 s' (ts[j := Done r])"
proof (induction "ts ! j" arbitrary: ts s)
  case (Done x)
  then have "ts[j := Done r] = ts" using list_update_id [of ts j] by (metis prod.inject run_task.simps(1))
  with Done show ?case by (metis prod.inject run_task.simps(1))
next
  case (Section g k)
  have "interleaved may_start s0 (g s) (ts[j := k s])"
    using Section.prems Section.hyps(2) by (metis pool_run)
  moreover have "run_task (ts[j := k s] ! j) (g s) = (s', r)"
    using Section.prems Section.hyps(2) by (metis nth_list_update_eq run_task.simps(2))
  ultimately have "interleaved may_start s0 s' (ts[j := k s, j := Done r])"
    using Section.prems(2) by (intro Section.hyps(1)) simp_all
  then show ?case by simp
qed

lemma pool_reading:
  assumes "interleaved may_start s0 s ts" and "j < length ts" and "ts ! j = bind_task (reading f) k"
  shows "interleaved may_start s0 s (ts[j := k (f s)])"
  using pool_run [OF assms(1,2), of "\<lambda>s. s" "\<lambda>s. k (f s)"] assms(3) by (simp add: reading_def)

locale guarantee =
  fixes ok :: "'s \<Rightarrow> bool" and le :: "'s \<Rightarrow> 's \<Rightarrow> bool"
  assumes refl: "le s s" and trans: "le s t \<Longrightarrow> le t u \<Longrightarrow> le s u"
begin

lemma ensures_bind:
  "ensures ok le t Q s \<Longrightarrow> (\<And>s' r. le s s' \<Longrightarrow> Q s' r \<Longrightarrow> ensures ok le (f r) R s') \<Longrightarrow>
    ensures ok le (bind_task t f) R s"
proof (induction t arbitrary: s)
  case (Done r)
  then show ?case using refl by simp
next
  case (Section g k)
  show ?case
    unfolding bind_task.simps ensures.simps
  proof (intro allI impI conjI)
    fix s1 assume s1: "le s s1" "ok s1"
    with Section.prems(1) have step: "ok (g s1)" "le s1 (g s1)" "ensures ok le (k s1) Q (g s1)" by simp_all
    then show "ok (g s1)" "le s1 (g s1)" by simp_all
    have "ensures ok le (f r) R s'" if "le (g s1) s'" "Q s' r" for s' r
      using Section.prems(2) that trans [OF trans [OF s1(1) step(2)]] by blast
    with step(3) show "ensures ok le (bind_task (k s1) f) R (g s1)"
      by (intro Section.IH [OF rangeI]) simp_all
  qed
qed

lemma ensures_weaken: "ensures ok le t Q s \<Longrightarrow> (\<And>s r. Q s r \<Longrightarrow> R s r) \<Longrightarrow> ensures ok le t R s"
  by (induction t arbitrary: s) simp_all

text \<open>What a task ensures from a state it ensures from every later one.\<close>

lemma ensures_later:
  "ensures ok le t (\<lambda>_. Q) s \<Longrightarrow> le s s' \<Longrightarrow> ensures ok le t (\<lambda>_. Q) s'"
  using trans by (cases t) auto

lemma ensures_reading:
  "(\<And>s'. le s s' \<Longrightarrow> ok s' \<Longrightarrow> Q s' (f s')) \<Longrightarrow> ensures ok le (reading f) Q s"
  using refl by (simp add: reading_def)

lemma ensures_writing:
  "(\<And>s'. le s s' \<Longrightarrow> ok s' \<Longrightarrow> ok (f s') \<and> le s' (f s') \<and> Q (f s') ()) \<Longrightarrow> ensures ok le (writing f) Q s"
  by (simp add: writing_def)

lemma ensures_each:
  assumes "\<And>x s. x \<in> set xs \<Longrightarrow> le s0 s \<Longrightarrow> ensures ok le (f x) (\<lambda>_ _. True) s"
  shows "le s0 s \<Longrightarrow> ensures ok le (each_task f xs) (\<lambda>_ _. True) s"
  using assms
proof (induction xs arbitrary: s)
  case (Cons x xs)
  have "ensures ok le (f x) (\<lambda>_ _. True) s" using Cons.prems by simp
  then show ?case
    unfolding each_task.simps
    by (rule ensures_bind) (use Cons trans in auto)
qed simp

text \<open>Tasks that ensure the same kind of result can be interleaved at will.\<close>

lemma interleaved_ensures:
  assumes "interleaved may_start s0 s ts" and "ok s0"
    and start: "\<And>s t. ok s \<Longrightarrow> le s0 s \<Longrightarrow> may_start s t \<Longrightarrow> ensures ok le t (\<lambda>_. Q) s"
  shows "ok s \<and> le s0 s \<and> (\<forall>t \<in> set ts. ensures ok le t (\<lambda>_. Q) s)"
  using assms(1)
proof (induction rule: interleaved.induct)
  case pool_init
  then show ?case using assms(2) refl by simp
next
  case (pool_start s ts t)
  then show ?case using start by auto
next
  case (pool_run s ts j g k)
  then have "ensures ok le (Section g k) (\<lambda>_. Q) s" by (metis nth_mem)
  then have step: "ok (g s)" "le s (g s)" "ensures ok le (k s) (\<lambda>_. Q) (g s)"
    using pool_run.IH refl by simp_all
  have "ensures ok le t (\<lambda>_. Q) (g s)" if "t \<in> set (ts[j := k s])" for t
    using that set_update_subset_insert [of ts j "k s"] step pool_run.IH ensures_later by blast
  with step pool_run.IH trans show ?case by blast
qed

lemma interleaved_results:
  assumes "interleaved may_start s0 s ts" and "ok s0"
    and "\<And>s t. ok s \<Longrightarrow> le s0 s \<Longrightarrow> may_start s t \<Longrightarrow> ensures ok le t (\<lambda>_. Q) s" and "Done r \<in> set ts"
  shows "Q r"
  using interleaved_ensures [OF assms(1-3)] assms(4) by fastforce

end

end
