(* ===== verification/Handler_Sections.thy ===== *)
theory Handler_Sections
  imports Sections System
begin

text \<open>
  The handlers of a session section by section: every block of the code that holds a mutex is one
  section, and what is read in it is used in the later ones as it was read.  The names are those of the
  handlers of \<open>Message_Handler\<close>, \<open>Fsm\<close> and \<open>Speaker\<close>, which run whole.  A task returns what it sent and how
  it ended; messages to the peer go to a connection of its own.
\<close>

type_synonym ('n, 'm, 'p, 'r) speaker_task = "(('n, 'm, 'p) speaker, 'r) task"

type_synonym ('n, 'm, 'p) message_task = "(('n, 'm, 'p) speaker, 'n action list \<times> (string, unit) outcome) task"

section \<open>Sections under a mutex\<close>

definition read_neighbor :: "nat \<Rightarrow> ('n neighbor \<Rightarrow> 'r) \<Rightarrow> ('n, 'm, 'p, 'r) speaker_task" where
  "read_neighbor i f = reading (\<lambda>sp. f (neighbors sp ! i))"

definition write_neighbor :: "nat \<Rightarrow> ('n neighbor \<Rightarrow> 'n neighbor) \<Rightarrow> ('n, 'm, 'p, unit) speaker_task" where
  "write_neighbor i f = writing (\<lambda>sp. upd_neighbor i (f (neighbors sp ! i)) sp)"

text \<open>A section that changes the neighbor and takes something with it.\<close>

definition update_neighbor :: "nat \<Rightarrow> ('n neighbor \<Rightarrow> 'n neighbor \<times> 'r) \<Rightarrow> ('n, 'm, 'p, 'r) speaker_task" where
  "update_neighbor i f =
     Section (\<lambda>sp. upd_neighbor i (fst (f (neighbors sp ! i))) sp) (\<lambda>sp. Done (snd (f (neighbors sp ! i))))"

section \<open>Messages\<close>

text \<open>The collision scan locks one neighbor after the other.\<close>

fun collision_task :: "u32 \<Rightarrow> u32 \<Rightarrow> nat list \<Rightarrow> ('n, 'm, 'p, bool \<times> 'n action list) speaker_task" where
  "collision_task rid msg_rid [] = Done (False, [])"
| "collision_task rid msg_rid (j # js) =
     bind_task (read_neighbor j (\<lambda>n. collision_scan rid msg_rid [n])) (\<lambda>(found, acts).
       if found then Done (True, acts) else collision_task rid msg_rid js)"

text \<open>A task's \<open>alive\<close> says of each of its sends that can fail which receivers are there then: \<open>alive k\<close> is for the
  one after which \<open>k\<close> may follow.\<close>

definition open_task ::
    "(nat \<Rightarrow> chan \<Rightarrow> bool) \<Rightarrow> bool \<Rightarrow> open_message \<Rightarrow> nat \<Rightarrow> ('n, 'm, 'p) message_task" where
  "open_task alive active m i =
     (let failed = (if active then ''failed'' else ''Failed'');
          no_channel = (if active then ''Neighbor TX channel not initialized'' else ''No tx channel available'')
      in bind_task (read_neighbor i tx) (\<lambda>t. case t of
         None \<Rightarrow> Done ([], Err no_channel)
       | Some t \<Rightarrow>
           bind_task (reading (\<lambda>sp. (router_id sp, length (neighbors sp)))) (\<lambda>(rid, n).
           bind_task (collision_task rid (om_router_id m) [0..<n]) (\<lambda>(collides, acts).
             if collides
             then (let (sent, r) = send_event (alive 0) (failed @ '' to send OpenCollisionDump event'') t OpenCollisionDump
                   in Done (acts @ sent, r))
             else bind_task (read_neighbor i (validate_open m)) (\<lambda>valid.
               if \<not> valid
               then (let (sent, r) = send_event (alive 0) (failed @ '' to send BGPOpenMsgErr event'') t BGPOpenMsgErr
                     in Done (acts @ sent, r))
               else bind_task (update_neighbor i (update_from_open m)) (\<lambda>r. case r of
                   Ok _ \<Rightarrow> bind_task (read_neighbor i tx) (\<lambda>ta. case ta of
                       None \<Rightarrow> Done (acts, Err no_channel)
                     | Some ta \<Rightarrow>
                         (let (sent, r) = (if active then send_event (alive 0) ''failed to send BGPOpen event'' t BGPOpen
                                else ([], Ok ()))
                          in Done (acts @ Start_Keepalive_Timer ta # sent, r)))
                 | _ \<Rightarrow> Done (acts, r)))))))"

definition notify_task :: "(nat \<Rightarrow> chan \<Rightarrow> bool) \<Rightarrow> string \<Rightarrow> string \<Rightarrow> nat \<Rightarrow> ('n, 'm, 'p) message_task" where
  "notify_task alive no_channel failed i =
     bind_task (read_neighbor i tx) (\<lambda>t. case t of
         None \<Rightarrow> Done ([], Err no_channel)
       | Some t \<Rightarrow> Done (send_event (alive 0) failed t NotifMsg))"

definition keepalive_task :: "nat \<Rightarrow> ('n, 'm, 'p) message_task" where
  "keepalive_task i = bind_task (write_neighbor i handle_keepalive) (\<lambda>_. Done ([], Ok ()))"

definition opensent_task :: "(nat \<Rightarrow> chan \<Rightarrow> bool) \<Rightarrow> 'n message_body \<Rightarrow> nat \<Rightarrow> ('n, 'm, 'p) message_task" where
  "opensent_task alive m i =
     (case m of
        MB_Keepalive \<Rightarrow> keepalive_task i
      | MB_Open msg \<Rightarrow> open_task alive False msg i
      | MB_Notification _ \<Rightarrow> Done ([], Ok ())
      | MB_Update _ \<Rightarrow> notify_task alive ''No tx channel available'' ''failed to send notifmsg event'' i)"

definition active_task :: "(nat \<Rightarrow> chan \<Rightarrow> bool) \<Rightarrow> 'n message_body \<Rightarrow> nat \<Rightarrow> ('n, 'm, 'p) message_task" where
  "active_task alive m i =
     (case m of
        MB_Open msg \<Rightarrow> open_task alive True msg i
      | MB_Notification _ \<Rightarrow> notify_task alive ''No tx channel available'' ''failed to send notifmsg event'' i
      | _ \<Rightarrow> Done ([], Ok ()))"

text \<open>\<open>send_locrib\<close> works on a copy of the neighbor and locks the speaker and a RIB for each family.\<close>

fun locrib_task ::
    "(nat \<Rightarrow> chan \<Rightarrow> bool) \<Rightarrow> ('n rib \<Rightarrow> 'n nlri list) \<Rightarrow> chan option \<Rightarrow> address_family list \<Rightarrow> address_family list
      \<Rightarrow> ('n, 'm, 'p) message_task" where
  "locrib_task alive order t rec [] = Done ([], Ok ())"
| "locrib_task alive order t rec (fam # fams) =
     (if fam \<in> set rec
      then bind_task (reading (\<lambda>sp. send_locrib_families (alive (length fams)) sp order t rec [fam])) (\<lambda>(acts, r). case r of
             Ok _ \<Rightarrow> bind_task (locrib_task alive order t rec fams) (\<lambda>(more, r). Done (acts @ more, r))
           | _ \<Rightarrow> Done (acts, r))
      else locrib_task alive order t rec fams)"

definition send_locrib_task ::
    "(nat \<Rightarrow> chan \<Rightarrow> bool) \<Rightarrow> ('n rib \<Rightarrow> 'n nlri list) \<Rightarrow> 'n neighbor \<Rightarrow> ('n, 'm, 'p) message_task" where
  "send_locrib_task alive order nb =
     (case multiprotocol (capabilities_advertised nb) of
        None \<Rightarrow> Done ([], Panic (ExpectFailed ''BUG: Advertised capabilities should be set before BGP establishment''))
      | Some adv \<Rightarrow>
          (case multiprotocol (capabilities_received nb) of
             None \<Rightarrow> Done ([], Panic (ExpectFailed ''BUG: Received capabilities should be set after processing OPEN message''))
           | Some rec \<Rightarrow> locrib_task alive order (tx nb) rec adv))"

definition openconfirm_task ::
    "(nat \<Rightarrow> chan \<Rightarrow> bool) \<Rightarrow> ('n rib \<Rightarrow> 'n nlri list) \<Rightarrow> 'n message_body \<Rightarrow> nat \<Rightarrow> ('n, 'm, 'p) message_task" where
  "openconfirm_task alive order m i =
     (case m of
        MB_Keepalive \<Rightarrow>
          bind_task (write_neighbor i handle_keepalive) (\<lambda>_.
          bind_task (update_neighbor i (\<lambda>nb. let nb = set_state Established nb in (nb, nb))) (send_locrib_task alive order))
      | MB_Notification _ \<Rightarrow>
          notify_task alive ''Neighbor TX channel not initialized'' ''Failed to send notification event'' i
      | _ \<Rightarrow> Done ([], Ok ()))"

definition notification_task :: "nat \<Rightarrow> nat \<Rightarrow> ('n, 'm, 'p) message_task" where
  "notification_task now i =
     bind_task (read_neighbor i (\<lambda>nb. (case remote_rid nb of Some r \<Rightarrow> r | None \<Rightarrow> 0,
         case multiprotocol (capabilities_advertised nb) of Some fs \<Rightarrow> fs | None \<Rightarrow> [ipv4_unicast]))) (\<lambda>(rid, fams).
     bind_task (reading (\<lambda>sp. withdraw_neighbor_routes sp rid now fams)) (\<lambda>acts.
     bind_task (write_neighbor i (\<lambda>nb. (set_state Idle nb)\<lparr>adjrib := Map.empty\<rparr>)) (\<lambda>_.
     bind_task (read_neighbor i tx) (\<lambda>t.
       Done (acts @ (case t of Some t \<Rightarrow> [Send_Event t TcpConnectionFails] | None \<Rightarrow> []), Ok ())))))"

definition update_task :: "'n update_message \<Rightarrow> nat \<Rightarrow> nat \<Rightarrow> ('n, 'm, 'p) message_task" where
  "update_task m now i =
     (let (fam, ns, wd, hop) = update_routes m
      in bind_task (reading local_asn) (\<lambda>asn.
         bind_task (read_neighbor i (\<lambda>nb. ra_new (path_attributes m) (ucast asn) (remote_asn nb) (remote_rid nb)
             (remote_ip nb) hop now)) (\<lambda>attrs. case attrs of
           Err e \<Rightarrow> Done ([], Err e)
         | Panic p \<Rightarrow> Done ([], Panic p)
         | Ok attrs \<Rightarrow>
             (let wd_update = \<lparr>ru_nlris = wd, ru_attributes = attrs\<rparr>;
                  ns_update = \<lparr>ru_nlris = ns, ru_attributes = attrs\<rparr>
              in bind_task (if wd \<noteq> [] then write_neighbor i (adjrib_withdraw fam wd_update) else Done ()) (\<lambda>_.
                 bind_task (if ns \<noteq> [] then write_neighbor i (adjrib_add fam ns_update) else Done ()) (\<lambda>_.
                 read_neighbor i (\<lambda>nb. case remote_rid nb of
                   None \<Rightarrow> ([], Panic (ExpectFailed ''BUG: Remote RID should be set after processing OPEN message''))
                 | Some r \<Rightarrow>
                     ((case ribtx nb fam of
                         None \<Rightarrow> []
                       | Some ch \<Rightarrow> [Send_Rib ch (UpdateRoutes \<lparr>upd_added = (if ns \<noteq> [] then Some ns_update else None),
                           upd_withdrawn = (if wd \<noteq> [] then Some wd_update else None), upd_rid = r\<rparr>)]), Ok ())))))))) "

definition established_task :: "'n message_body \<Rightarrow> nat \<Rightarrow> nat \<Rightarrow> ('n, 'm, 'p) message_task" where
  "established_task m now i =
     (case m of
        MB_Keepalive \<Rightarrow> keepalive_task i
      | MB_Notification _ \<Rightarrow> notification_task now i
      | MB_Update msg \<Rightarrow> update_task msg now i
      | _ \<Rightarrow> Done ([], Ok ()))"

definition message_task ::
    "(nat \<Rightarrow> chan \<Rightarrow> bool) \<Rightarrow> ('n rib \<Rightarrow> 'n nlri list) \<Rightarrow> 'n message \<Rightarrow> nat \<Rightarrow> nat \<Rightarrow> ('n, 'm, 'p) message_task" where
  "message_task alive order m now i =
     bind_task (read_neighbor i nb_state) (\<lambda>st. case st of
         Active \<Rightarrow> active_task alive (body m) i
       | OpenConfirm \<Rightarrow> openconfirm_task alive order (body m) i
       | OpenSent \<Rightarrow> opensent_task alive (body m) i
       | Established \<Rightarrow> established_task (body m) now i
       | _ \<Rightarrow> Done ([], Ok ()))"

section \<open>Messages, run whole\<close>

lemma upd_neighbor_same [simp]: "upd_neighbor i (neighbors sp ! i) sp = sp"
  by (simp add: upd_neighbor_def)

lemma upd_neighbor_upd [simp]: "upd_neighbor i nb' (upd_neighbor i nb sp) = upd_neighbor i nb' sp"
  by (simp add: upd_neighbor_def)

lemma run_read_neighbor [run_simps]: "run_task (read_neighbor i f) sp = (sp, f (neighbors sp ! i))"
  by (simp add: read_neighbor_def run_simps)

lemma run_write_neighbor [run_simps]:
  "run_task (write_neighbor i f) sp = (upd_neighbor i (f (neighbors sp ! i)) sp, ())"
  by (simp add: write_neighbor_def run_simps)

lemma run_update_neighbor [run_simps]:
  "run_task (update_neighbor i f) sp = (case f (neighbors sp ! i) of (nb, r) \<Rightarrow> (upd_neighbor i nb sp, r))"
  by (simp add: update_neighbor_def split: prod.split)

text \<open>What a handler that ran whole leaves and returns.\<close>

fun whole :: "nat \<Rightarrow> ('n, 'm, 'p) speaker \<Rightarrow> 'n neighbor \<times> 'r \<Rightarrow> ('n, 'm, 'p) speaker \<times> 'r" where
  "whole i sp (nb, r) = (upd_neighbor i nb sp, r)"

lemma run_collision:
  "run_task (collision_task rid msg_rid js) sp = (sp, collision_scan rid msg_rid (map ((!) (neighbors sp)) js))"
  by (induction js) (auto simp: run_simps split: option.split)

lemma run_open:
  assumes "i < length (neighbors sp)"
  shows "run_task (open_task (\<lambda>_. alive) active m i) sp = whole i sp (handle_open alive active m sp (neighbors sp ! i))"
  using assms
  by (auto simp: open_task_def handle_open_def run_simps run_collision collision_detection_def map_nth update_from_open_def
      Let_def split: option.split prod.split outcome.split bool.split)

lemma run_locrib:
  "run_task (locrib_task (\<lambda>_. alive) order t rec fams) sp = (sp, send_locrib_families alive sp order t rec fams)"
  by (induction fams) (auto simp: run_simps Let_def split: outcome.split prod.split)

lemma run_send_locrib: "run_task (send_locrib_task (\<lambda>_. alive) order nb) sp = (sp, send_locrib alive sp order nb)"
  by (simp add: send_locrib_task_def send_locrib_def run_locrib run_simps split: option.split)

lemma run_notify:
  "run_task (notify_task (\<lambda>_. alive) no_channel failed i) sp =
    whole i sp (notify alive no_channel failed (neighbors sp ! i))"
  by (cases "tx (neighbors sp ! i)"; cases "alive (the (tx (neighbors sp ! i)))")
    (simp_all add: notify_task_def notify_def send_event_def run_simps)

lemma run_notification:
  assumes "i < length (neighbors sp)" and "handle_notification m sp now (neighbors sp ! i) = (nb, acts)"
  shows "run_task (notification_task now i) sp = (upd_neighbor i nb sp, acts, Ok ())"
  using assms
  by (auto simp: notification_task_def handle_notification_def run_simps Let_def)

lemma run_update:
  assumes "i < length (neighbors sp)"
  shows "run_task (update_task m now i) sp = whole i sp (handle_update m sp now (neighbors sp ! i))"
proof -
  obtain fam ns wd hop where m: "update_routes m = (fam, ns, wd, hop)" by (cases "update_routes m") auto
  have adj: "remote_rid (adjrib_withdraw fam u nb) = remote_rid nb" "remote_rid (adjrib_add fam u nb) = remote_rid nb"
    "ribtx (adjrib_withdraw fam u nb) = ribtx nb" "ribtx (adjrib_add fam u nb) = ribtx nb" for u nb
    by (simp_all add: adjrib_withdraw_def adjrib_add_def split: option.split)
  show ?thesis
    using assms
    by (cases "wd = []"; cases "ns = []")
      (auto simp: update_task_def handle_update_def m run_simps Let_def adj split: outcome.split option.split)
qed

lemma run_whole_message:
  assumes "i < length (neighbors sp)"
  shows "run_task (message_task (\<lambda>_. alive) order m now i) sp =
    whole i sp (process_message alive order m sp now (neighbors sp ! i))"
proof (cases "nb_state (neighbors sp ! i)")
  case Active
  then show ?thesis
    using assms
    by (cases "body m") (auto simp: message_task_def process_message_def active_task_def process_message_active_def
        run_simps run_open run_notify split: option.split)
next
  case OpenSent
  then show ?thesis
    using assms
    by (cases "body m") (auto simp: message_task_def process_message_def opensent_task_def process_message_opensent_def
        keepalive_task_def run_simps run_open run_notify split: option.split)
next
  case OpenConfirm
  have locrib: "send_locrib alive (upd_neighbor i nb' sp) order nb = send_locrib alive sp order nb" for nb nb'
  proof -
    have "send_locrib_families alive (upd_neighbor i nb' sp) order t rec fams = send_locrib_families alive sp order t rec fams" for t rec fams
      by (induction fams) (simp_all split: outcome.split)
    then show ?thesis by (simp add: send_locrib_def split: option.split)
  qed
  from OpenConfirm show ?thesis
    using assms
    by (cases "body m") (auto simp: message_task_def process_message_def openconfirm_task_def process_message_openconfirm_def
        run_simps run_send_locrib run_notify locrib Let_def split: option.split prod.split)
next
  case Established
  have "run_task (message_task (\<lambda>_. alive) order m now i) sp = run_task (established_task (body m) now i) sp"
    using Established by (simp add: message_task_def run_simps)
  also have "\<dots> = whole i sp (process_message_established (body m) sp now (neighbors sp ! i))"
    using assms
    by (cases "body m") (auto simp: established_task_def process_message_established_def
        keepalive_task_def run_simps run_update run_notification split: prod.split)
  finally show ?thesis using Established by (simp add: process_message_def)
qed (simp_all add: message_task_def process_message_def process_message_connect_def process_message_idle_def run_simps)

end
