(* ===== verification/Event_Sections.thy ===== *)
theory Event_Sections
  imports Handler_Sections
begin

text \<open>
  The rest of the handlers section by section: the events of a session, the start and the end of its
  task, the connections, the timer, and the RIB managers.
\<close>

section \<open>Events\<close>

definition send_open_task ::
    "'n ipnet_ops \<Rightarrow> string \<Rightarrow> nat \<Rightarrow> conn \<Rightarrow> ('n, 'm, 'p, (string, conn) outcome) speaker_task" where
  "send_open_task L msg i c =
     bind_task (reading local_info_of) (\<lambda>s.
     bind_task (read_neighbor i capabilities_advertised) (\<lambda>caps.
       Done (map_err (\<lambda>_. msg) (send_open L (li_asn s) (li_router_id s) (li_hold_time s) caps c))))"

text \<open>An OPEN that went out takes the neighbor to OPENSENT.\<close>

definition open_and_wait_task ::
    "'n ipnet_ops \<Rightarrow> string \<Rightarrow> nat \<Rightarrow> conn \<Rightarrow> ('n, 'm, 'p, (string, conn) outcome) speaker_task" where
  "open_and_wait_task L msg i c =
     bind_task (send_open_task L msg i c) (\<lambda>r. case r of
         Ok c' \<Rightarrow> bind_task (write_neighbor i (set_state OpenSent)) (\<lambda>_. Done (Ok c'))
       | _ \<Rightarrow> Done r)"

definition connect_event_task ::
    "'n ipnet_ops \<Rightarrow> 'n event \<Rightarrow> nat \<Rightarrow> conn \<Rightarrow> ('n, 'm, 'p, (string, conn) outcome) speaker_task" where
  "connect_event_task L e i c =
     (case e of
        KeepaliveTimerExpires \<Rightarrow> Done (map_err (\<lambda>_. ''Failed to send keepalive in CONNECT state'') (send_keepalive L c))
      | ManualStart \<Rightarrow> Done (map_err (\<lambda>_. ''Failed to send keepalive on manual start'') (send_keepalive L c))
      | AutomaticStart \<Rightarrow> bind_task (write_neighbor i init_peer) (\<lambda>_. Done (Ok c))
      | TcpConnectionValid \<Rightarrow> open_and_wait_task L ''Failed to send OPEN message in CONNECT state'' i c
      | _ \<Rightarrow> Done (Ok c))"

definition active_event_task ::
    "'n ipnet_ops \<Rightarrow> 'n event \<Rightarrow> nat \<Rightarrow> conn \<Rightarrow> ('n, 'm, 'p, (string, conn) outcome) speaker_task" where
  "active_event_task L e i c =
     (case e of
        TcpConnectionConfirmed \<Rightarrow> open_and_wait_task L ''Failed to send OPEN message in ACTIVE state'' i c
      | _ \<Rightarrow> Done (Ok c))"

definition openconfirm_event_task ::
    "'n ipnet_ops \<Rightarrow> 'n event \<Rightarrow> nat \<Rightarrow> conn \<Rightarrow> ('n, 'm, 'p, (string, conn) outcome) speaker_task" where
  "openconfirm_event_task L e i c =
     (case e of
        KeepaliveTimerExpires \<Rightarrow> Done (map_err (\<lambda>_. ''Failed to send keepalive in OPENCONFIRM state'') (send_keepalive L c))
      | BGPOpen \<Rightarrow> send_open_task L ''Failed to send OPEN message in OPENCONFIRM state'' i c
      | _ \<Rightarrow> Done (Ok c))"

text \<open>\<open>send_update\<close> locks the neighbor for its router id and then once for each group.\<close>

fun groups_task ::
    "nat \<Rightarrow> (route_attributes \<times> 'n nlri list) list
      \<Rightarrow> ('n, 'm, 'p, (string, 'n path_attribute list \<times> 'n nlri list) outcome) speaker_task" where
  "groups_task i [] = Done (Ok ([], []))"
| "groups_task i (g # gs) =
     bind_task (read_neighbor i (\<lambda>nb. send_group nb g)) (\<lambda>r. case r of
         Ok (pa, ns) \<Rightarrow> bind_task (groups_task i gs) (\<lambda>r. Done (bind_outcome r (\<lambda>(pas, nss). Ok (pa @ pas, ns @ nss))))
       | Err e \<Rightarrow> Done (Err e)
       | Panic p \<Rightarrow> Done (Panic p))"

definition send_update_task ::
    "'n ipnet_ops \<Rightarrow> ((route_attributes \<times> 'n nlri list) list \<Rightarrow> (route_attributes \<times> 'n nlri list) list)
      \<Rightarrow> 'n modified \<Rightarrow> nat \<Rightarrow> conn \<Rightarrow> ('n, 'm, 'p, (string, conn) outcome) speaker_task" where
  "send_update_task L order routes i c =
     bind_task (read_neighbor i remote_rid) (\<lambda>rid. case rid of
         None \<Rightarrow> Done (Err ''Remote router ID not set'')
       | Some rid \<Rightarrow>
           (let (wd, updates) = fold (sort_out rid) routes ([], [])
            in if updates = [] \<and> wd = [] then Done (Ok c)
               else bind_task (groups_task i (order updates)) (\<lambda>r. Done (bind_outcome r (\<lambda>(pas, ns).
                 bind_outcome (to_wire L MT_Update (MB_Update \<lparr>withdrawn_routes = wd, path_attributes = pas, um_nlri = ns\<rparr>))
                   (\<lambda>data. framed_send ''Failed to send UPDATE message'' data c))))))"

definition established_event_task ::
    "'n ipnet_ops \<Rightarrow> ((route_attributes \<times> 'n nlri list) list \<Rightarrow> (route_attributes \<times> 'n nlri list) list)
      \<Rightarrow> 'n event \<Rightarrow> nat \<Rightarrow> conn \<Rightarrow> ('n, 'm, 'p, (string, conn) outcome) speaker_task" where
  "established_event_task L order e i c =
     (case e of
        KeepaliveTimerExpires \<Rightarrow> Done (map_err (\<lambda>_. ''Failed to send keepalive in ESTABLISHED state'') (send_keepalive L c))
      | RibUpdate routes \<Rightarrow>
          bind_task (send_update_task L order routes i c) (\<lambda>r. Done (case r of Err _ \<Rightarrow> Ok c | _ \<Rightarrow> r))
      | _ \<Rightarrow> Done (Ok c))"

definition event_task ::
    "'n ipnet_ops \<Rightarrow> ((route_attributes \<times> 'n nlri list) list \<Rightarrow> (route_attributes \<times> 'n nlri list) list)
      \<Rightarrow> 'n event \<Rightarrow> nat \<Rightarrow> conn \<Rightarrow> ('n, 'm, 'p, (string, conn) outcome) speaker_task" where
  "event_task L order e i c =
     bind_task (read_neighbor i nb_state) (\<lambda>st. case st of
         Active \<Rightarrow> active_event_task L e i c
       | Connect \<Rightarrow> connect_event_task L e i c
       | OpenConfirm \<Rightarrow> openconfirm_event_task L e i c
       | Established \<Rightarrow> established_event_task L order e i c
       | _ \<Rightarrow> Done (Ok c))"

section \<open>Sessions, connections, timers\<close>

definition session_start_task ::
    "'n ipnet_ops \<Rightarrow> ((route_attributes \<times> 'n nlri list) list \<Rightarrow> (route_attributes \<times> 'n nlri list) list)
      \<Rightarrow> chan \<Rightarrow> nat \<Rightarrow> conn \<Rightarrow> ('n, 'm, 'p, (string, conn) outcome) speaker_task" where
  "session_start_task L order ch i c =
     bind_task (update_neighbor i (\<lambda>nb. (nb\<lparr>tx := Some ch\<rparr>, nb_state nb))) (\<lambda>st. case st of
         Active \<Rightarrow> event_task L order TcpConnectionConfirmed i c
       | Connect \<Rightarrow> event_task L order TcpConnectionValid i c
       | _ \<Rightarrow> Done (Ok c))"

definition session_end_task :: "nat \<Rightarrow> ('n, 'm, 'p, unit) speaker_task" where
  "session_end_task i = write_neighbor i session_end"

definition hold_timer_task :: "nat \<Rightarrow> ('n, 'm, 'p, (string, nat \<times> chan) outcome) speaker_task" where
  "hold_timer_task i = read_neighbor i timer_hold_round"

definition keepalive_timer_task :: "nat \<Rightarrow> ('n, 'm, 'p, bool \<times> bool) speaker_task" where
  "keepalive_timer_task i = update_neighbor i timer_keepalive_round"

definition connect_task :: "connection \<Rightarrow> nat \<Rightarrow> ('n, 'm, 'p, (string, unit) outcome) speaker_task" where
  "connect_task socket i =
     bind_task (writing (\<lambda>sp. upd_neighbor i (connect_prepare (sp_ribtx sp) (neighbors sp ! i)) sp)) (\<lambda>_.
     bind_task (read_neighbor i (\<lambda>nb. (remote_ip nb, remote_port nb))) (\<lambda>(ip, port).
       if ip = None then Done (Err ''Remote IP not configured'')
       else if port = None then Done (Err ''Remote port not configured'')
       else case socket of
           Refused e \<Rightarrow> bind_task (write_neighbor i connect_failed) (\<lambda>_. Done (Err (''Connection failed: '' @ e)))
         | Connected None \<Rightarrow> bind_task (write_neighbor i (set_state Connect)) (\<lambda>_. Done (Err ''Failed to get local address''))
         | Connected (Some (ip, port)) \<Rightarrow> bind_task (write_neighbor i (connect_succeeded ip port)) (\<lambda>_. Done (Ok ()))))"

definition incoming_task ::
    "(nat \<Rightarrow> bool) \<Rightarrow> ip_addr \<Rightarrow> (ip_addr \<times> u16) option \<Rightarrow> ('n, 'm, 'p, (string, nat option) outcome) speaker_task" where
  "incoming_task free ip local_addr =
     bind_task (reading (match_incoming free ip)) (\<lambda>matched. case matched of
         None \<Rightarrow> Done (Ok None)
       | Some i \<Rightarrow>
           bind_task (read_neighbor i (\<lambda>nb. should_accept (nb_state nb))) (\<lambda>accepted.
             if \<not> accepted then Done (Ok None)
             else case local_addr of
                 None \<Rightarrow> Done (Panic (ExpectFailed ''BUG: Socket should have a local address after accept''))
               | Some (lip, lport) \<Rightarrow>
                   bind_task (write_neighbor i (\<lambda>nb. set_state Active nb\<lparr>nb_local_ip := Some lip, nb_local_port := Some lport\<rparr>))
                     (\<lambda>_. Done (Ok (Some i)))))"

section \<open>The RIB managers\<close>

text \<open>A section with the RIB of a family locked, which is kept all through an event, and the FIB's answer to
  whether it reaches an address, for which the FIB is locked anew each time.\<close>

definition reaches :: "'n ipnet_ops \<Rightarrow> address_family \<Rightarrow> ('n, 'm, 'p) speaker \<Rightarrow> ip_addr \<Rightarrow> bool" where
  "reaches L fam sp hop = (case sp_fib sp fam of None \<Rightarrow> False | Some fib \<Rightarrow> has_route L fib hop)"

definition rib_of :: "address_family \<Rightarrow> ('n, 'm, 'p) speaker \<Rightarrow> 'n rib" where
  "rib_of fam sp = (case sp_rib sp fam of None \<Rightarrow> Map.empty | Some rib \<Rightarrow> rib)"

definition update_rib ::
    "address_family \<Rightarrow> ((ip_addr \<Rightarrow> bool) \<Rightarrow> 'n rib \<Rightarrow> 'n rib \<times> 'r) \<Rightarrow> 'n ipnet_ops \<Rightarrow> ('n, 'm, 'p, 'r) speaker_task" where
  "update_rib fam f L =
     Section (\<lambda>sp. case sp_rib sp fam of
           None \<Rightarrow> sp
         | Some rib \<Rightarrow> sp\<lparr>sp_rib := (sp_rib sp)(fam \<mapsto> fst (f (reaches L fam sp) rib))\<rparr>)
       (\<lambda>sp. Done (snd (f (reaches L fam sp) (rib_of fam sp))))"

definition best_of :: "(ip_addr \<Rightarrow> bool) \<Rightarrow> route_attributes list \<Rightarrow> route_attributes option" where
  "best_of reach as = find (\<lambda>a. reach (next_hop a)) as"

text \<open>A prefix that has routes asks the FIB twice: for the best route so far, and for the new one.\<close>

definition add_nlri_task ::
    "'n ipnet_ops \<Rightarrow> address_family \<Rightarrow> u16 \<Rightarrow> route_attributes \<Rightarrow> 'n nlri \<Rightarrow> ('n, 'm, 'p, 'n modified) speaker_task" where
  "add_nlri_task L fam asn a n =
     (if \<not> is_valid asn a then Done []
      else bind_task (update_rib fam (\<lambda>reach rib. case rib n of
          None \<Rightarrow> (rib(n \<mapsto> [a]), Inl (reach (next_hop a)))
        | Some as \<Rightarrow> (rib, Inr (best_of reach as))) L) (\<lambda>r. case r of
          Inl announce \<Rightarrow> Done (if announce then [(n, Some a)] else [])
        | Inr previous_best \<Rightarrow>
            update_rib fam (\<lambda>reach rib. (rib(n \<mapsto> rank_insert a (case rib n of None \<Rightarrow> [] | Some as \<Rightarrow> as)),
              if reach (next_hop a)
              then (case previous_best of
                      None \<Rightarrow> [(n, Some a)]
                    | Some best \<Rightarrow> if ra_cmp a best = Greater then [(n, Some a)] else [])
              else [])) L))"

definition withdraw_nlri_task ::
    "'n ipnet_ops \<Rightarrow> address_family \<Rightarrow> u32 \<Rightarrow> 'n nlri \<Rightarrow> ('n, 'm, 'p, 'n modified) speaker_task" where
  "withdraw_nlri_task L fam peer n =
     update_rib fam (\<lambda>reach rib. case rib n of
         None \<Rightarrow> (rib, [])
       | Some as \<Rightarrow>
           (let previous_best = best_of reach as;
                as' = filter (\<lambda>a. \<not> is_from_neighbor peer a) as
            in (if as' = [] then rib(n := None) else rib(n \<mapsto> as'),
                case previous_best of
                  None \<Rightarrow> []
                | Some best \<Rightarrow> if peer_rid best = peer then [(n, None)] else []))) L"

fun modified_task :: "('x \<Rightarrow> ('s, 'n modified) task) \<Rightarrow> 'x list \<Rightarrow> 'n modified \<Rightarrow> ('s, 'n modified) task" where
  "modified_task f [] md = Done md"
| "modified_task f (x # xs) md = bind_task (f x) (\<lambda>more. modified_task f xs (md @ more))"

definition added_task ::
    "'n ipnet_ops \<Rightarrow> address_family \<Rightarrow> u16 \<Rightarrow> 'n rib_update \<Rightarrow> ('n, 'm, 'p, 'n modified) speaker_task" where
  "added_task L fam asn routes = modified_task (add_nlri_task L fam asn (ru_attributes routes)) (ru_nlris routes) []"

definition withdrawn_task ::
    "'n ipnet_ops \<Rightarrow> ('n rib \<Rightarrow> 'n nlri list) \<Rightarrow> address_family \<Rightarrow> 'n rib_update \<Rightarrow> ('n, 'm, 'p, 'n modified) speaker_task" where
  "withdrawn_task L order fam routes =
     bind_task (reading (\<lambda>sp. to_withdraw (order (rib_of fam sp)) (rib_of fam sp) routes)) (\<lambda>ns.
       modified_task (withdraw_nlri_task L fam (peer_rid (ru_attributes routes))) ns [])"

fun tell_task :: "'n modified \<Rightarrow> nat list \<Rightarrow> ('n, 'm, 'p, 'n action list) speaker_task" where
  "tell_task md [] = Done []"
| "tell_task md (j # js) =
     bind_task (read_neighbor j (\<lambda>n. if is_established n
         then (case tx n of Some t \<Rightarrow> [Send_Event t (RibUpdate md)] | None \<Rightarrow> []) else [])) (\<lambda>acts.
     bind_task (tell_task md js) (\<lambda>more. Done (acts @ more)))"

text \<open>\<open>asn\<close> and the number \<open>k\<close> of neighbors are those of the speaker when the manager was started.\<close>

definition rib_event_task ::
    "'n ipnet_ops \<Rightarrow> ('n rib \<Rightarrow> 'n nlri list) \<Rightarrow> bool \<Rightarrow> address_family \<Rightarrow> u16 \<Rightarrow> nat \<Rightarrow> 'n rib_event
      \<Rightarrow> ('n, 'm, 'p, fib_event list \<times> 'n action list \<times> (string, unit) outcome) speaker_task" where
  "rib_event_task L order fib_alive fam asn k e =
     (case e of UpdateRoutes msg \<Rightarrow>
        bind_task (case upd_added msg of None \<Rightarrow> Done [] | Some routes \<Rightarrow> added_task L fam asn routes) (\<lambda>added.
        bind_task (case upd_withdrawn msg of None \<Rightarrow> Done [] | Some routes \<Rightarrow> withdrawn_task L order fam routes) (\<lambda>withdrawn.
        let md = added @ withdrawn
        in if md = [] then Done ([], [], Ok ())
           else if \<not> fib_alive then Done ([], [], Err ''Failed to send FIB update event'')
           else bind_task (tell_task md [0..<k]) (\<lambda>acts. Done ([RibUpdated], acts, Ok ())))))"

definition fib_refresh_task :: "address_family \<Rightarrow> ('n, 'm, 'p) fib_entry list \<Rightarrow> ('n, 'm, 'p, unit) speaker_task" where
  "fib_refresh_task fam routes =
     writing (\<lambda>sp. case sp_fib sp fam of
         None \<Rightarrow> sp
       | Some fib \<Rightarrow> sp\<lparr>sp_fib := (sp_fib sp)(fam \<mapsto> fib\<lparr>fib_routes := routes\<rparr>)\<rparr>)"

section \<open>Events, run whole\<close>

text \<open>An event whose handler fails leaves the neighbor as it was.\<close>

fun whole_event ::
    "nat \<Rightarrow> ('n, 'm, 'p) speaker \<Rightarrow> (string, 'n neighbor \<times> conn) outcome \<Rightarrow> ('n, 'm, 'p) speaker \<times> (string, conn) outcome" where
  "whole_event i sp (Ok (nb, c)) = (upd_neighbor i nb sp, Ok c)"
| "whole_event i sp (Err e) = (sp, Err e)"
| "whole_event i sp (Panic p) = (sp, Panic p)"

lemma whole_event_cases:
  "whole_event i sp r = (case r of Ok (nb, c) \<Rightarrow> (upd_neighbor i nb sp, Ok c) | Err e \<Rightarrow> (sp, Err e) | Panic p \<Rightarrow> (sp, Panic p))"
  by (cases r) (auto split: prod.split)

lemma run_send_open:
  "run_task (send_open_task L msg i c) sp = (sp, send_local_open L (local_info_of sp) msg (neighbors sp ! i) c)"
  by (simp add: send_open_task_def send_local_open_def run_simps)

lemma run_groups: "run_task (groups_task i gs) sp = (sp, send_groups (neighbors sp ! i) gs)"
  by (induction gs) (auto simp: run_simps split: outcome.split)

lemma run_send_update:
  "run_task (send_update_task L order routes i c) sp = (sp, send_update L order (neighbors sp ! i) routes c)"
proof (cases "remote_rid (neighbors sp ! i)")
  case (Some rid)
  obtain wd updates where sorted: "fold (sort_out rid) routes ([], []) = (wd, updates)" by fastforce
  show ?thesis
    using Some
    by (cases "send_groups (neighbors sp ! i) (order updates)")
      (auto simp: send_update_task_def send_update_def update_for_def ok_or_def run_simps run_groups sorted)
qed (simp add: send_update_task_def send_update_def update_for_def ok_or_def run_simps)

lemma run_open_and_wait:
  "run_task (open_and_wait_task L msg i c) sp = whole_event i sp
    (bind_outcome (send_local_open L (local_info_of sp) msg (neighbors sp ! i) c)
      (\<lambda>c. Ok (set_state OpenSent (neighbors sp ! i), c)))"
  by (cases "send_local_open L (local_info_of sp) msg (neighbors sp ! i) c")
    (simp_all add: open_and_wait_task_def run_simps run_send_open)

lemma whole_event_conn:
  "whole_event i sp (bind_outcome r (\<lambda>c. Ok (neighbors sp ! i, c))) = (sp, r)"
  by (cases r) simp_all

lemma run_whole_event:
  "run_task (event_task L order e i c) sp =
    whole_event i sp (process_event L order (local_info_of sp) e (neighbors sp ! i) c)"
proof (cases "nb_state (neighbors sp ! i)")
  case Active
  then show ?thesis
    by (cases e) (simp_all add: event_task_def process_event_def active_event_task_def process_event_active_def
        run_simps run_open_and_wait)
next
  case Connect
  then show ?thesis
    by (cases e) (simp_all add: event_task_def process_event_def connect_event_task_def process_event_connect_def
        run_simps run_open_and_wait whole_event_conn)
next
  case OpenConfirm
  then show ?thesis
    by (cases e) (simp_all add: event_task_def process_event_def openconfirm_event_task_def process_event_openconfirm_def
        run_simps run_send_open whole_event_conn)
next
  case Established
  have sent: "(sp, case r of Err _ \<Rightarrow> Ok c | _ \<Rightarrow> r) = whole_event i sp
      (case r of Ok c' \<Rightarrow> Ok (neighbors sp ! i, c') | Err _ \<Rightarrow> Ok (neighbors sp ! i, c) | Panic p \<Rightarrow> Panic p)"
    for r :: "(string, conn) outcome"
    by (cases r) simp_all
  from Established show ?thesis
    by (cases e) (simp_all add: event_task_def process_event_def established_event_task_def process_event_established_def
        run_simps run_send_update whole_event_conn sent)
next
  case OpenSent
  then show ?thesis
    by (simp add: event_task_def process_event_def process_event_opensent_def run_simps)
next
  case Idle
  then show ?thesis by (simp add: event_task_def process_event_def run_simps)
qed

text \<open>The start of a session keeps the channel it has put in place, whatever becomes of its first event.\<close>

lemma run_whole_session_start:
  assumes "i < length (neighbors sp)"
  shows "run_task (session_start_task L order ch i c) sp =
    whole i sp (session_start L order (local_info_of sp) ch (neighbors sp ! i) c)"
proof -
  let ?sp = "upd_neighbor i ((neighbors sp ! i)\<lparr>tx := Some ch\<rparr>) sp"
  have info: "local_info_of ?sp = local_info_of sp" by (simp add: local_info_of_def upd_neighbor_def)
  have whole: "whole_event i ?sp r = whole i sp (case r of Ok (nb, c) \<Rightarrow> (nb, Ok c)
      | Err e \<Rightarrow> ((neighbors sp ! i)\<lparr>tx := Some ch\<rparr>, Err e) | Panic p \<Rightarrow> ((neighbors sp ! i)\<lparr>tx := Some ch\<rparr>, Panic p))" for r
    by (cases r) auto
  show ?thesis
    using assms
    by (cases "nb_state (neighbors sp ! i)")
      (simp_all add: session_start_task_def session_start_def run_simps run_whole_event info whole Let_def)
qed

lemma run_whole_connect:
  assumes "i < length (neighbors sp)"
  shows "run_task (connect_task socket i) sp = whole i sp (connect (sp_ribtx sp) socket (neighbors sp ! i))"
  using assms
  by (auto simp: connect_task_def connect_def connect_prepare_def run_simps Let_def split: option.split connection.split)

lemma run_whole_incoming:
  "run_task (incoming_task free ip local_addr) sp = add_incoming free ip local_addr sp"
  by (auto simp: incoming_task_def add_incoming_def run_simps Let_def split: option.split)

section \<open>The RIB managers, run whole\<close>

definition put_rib :: "address_family \<Rightarrow> 'n rib \<Rightarrow> ('n, 'm, 'p) speaker \<Rightarrow> ('n, 'm, 'p) speaker" where
  "put_rib fam rib sp = sp\<lparr>sp_rib := (sp_rib sp)(fam \<mapsto> rib)\<rparr>"

lemma put_rib_simps [simp]:
  "sp_rib (put_rib fam rib sp) fam = Some rib" "sp_fib (put_rib fam rib sp) = sp_fib sp"
  "neighbors (put_rib fam rib sp) = neighbors sp" "put_rib fam rib' (put_rib fam rib sp) = put_rib fam rib' sp"
  "sp_rib sp fam = Some rib \<Longrightarrow> put_rib fam rib sp = sp"
  by (simp_all add: put_rib_def) (cases sp, auto simp: fun_upd_idem)

lemma reaches_fib: "sp_fib sp fam = Some fib \<Longrightarrow> reaches L fam sp = has_route L fib"
  by (auto simp: reaches_def)

lemma best_of_fib: "best_of (has_route L fib) = best_reachable L fib"
  by (simp add: best_of_def best_reachable_def fun_eq_iff)

lemma run_update_rib:
  assumes "sp_rib sp fam = Some rib" and "sp_fib sp fam = Some fib"
  shows "run_task (update_rib fam f L) sp = (put_rib fam (fst (f (has_route L fib) rib)) sp, snd (f (has_route L fib) rib))"
  using assms by (simp add: update_rib_def put_rib_def rib_of_def reaches_fib)

lemma run_add_nlri:
  assumes "sp_rib sp fam = Some rib" and "sp_fib sp fam = Some fib" and "add_nlri L fib asn a n (rib, md) = (rib', md')"
  shows "\<exists>more. run_task (add_nlri_task L fam asn a n) sp = (put_rib fam rib' sp, more) \<and> md' = md @ more"
  using assms
  by (cases "rib n")
    (auto simp: add_nlri_task_def add_nlri_def run_simps run_update_rib [where rib = rib and fib = fib] best_of_fib Let_def
      split: if_splits option.splits)

lemma run_withdraw_nlri:
  assumes "sp_rib sp fam = Some rib" and "sp_fib sp fam = Some fib" and "withdraw_nlri L fib peer n (rib, md) = (rib', md')"
  shows "\<exists>more. run_task (withdraw_nlri_task L fam peer n) sp = (put_rib fam rib' sp, more) \<and> md' = md @ more"
  using assms
  by (cases "rib n")
    (auto simp: withdraw_nlri_task_def withdraw_nlri_def run_update_rib [where rib = rib and fib = fib] best_of_fib Let_def
      split: option.splits)

lemma run_modified:
  assumes "\<And>x sp rib md rib' md'. sp_rib sp fam = Some rib \<Longrightarrow> sp_fib sp fam = Some fib \<Longrightarrow> g x (rib, md) = (rib', md') \<Longrightarrow>
      \<exists>more. run_task (f x) sp = (put_rib fam rib' sp, more) \<and> md' = md @ more"
    and "sp_rib sp fam = Some rib" and "sp_fib sp fam = Some fib" and "fold g xs (rib, md) = (rib', md')"
  shows "run_task (modified_task f xs md) sp = (put_rib fam rib' sp, md')"
  using assms(2-)
proof (induction xs arbitrary: sp rib md)
  case (Cons x xs)
  obtain rib1 md1 where one: "g x (rib, md) = (rib1, md1)" by fastforce
  from assms(1) [OF Cons.prems(1,2) this] obtain more where
    more: "run_task (f x) sp = (put_rib fam rib1 sp, more)" "md1 = md @ more" by blast
  have "run_task (modified_task f xs md1) (put_rib fam rib1 sp) = (put_rib fam rib' (put_rib fam rib1 sp), md')"
    using Cons.prems one by (intro Cons.IH) simp_all
  with more show ?case by (simp add: run_simps)
qed (simp add: run_simps)

lemma run_added:
  assumes "sp_rib sp fam = Some rib" and "sp_fib sp fam = Some fib" and "loc_rib_added L fib asn routes rib = (rib', md)"
  shows "run_task (added_task L fam asn routes) sp = (put_rib fam rib' sp, md)"
  unfolding added_task_def
  by (rule run_modified [where g = "add_nlri L fib asn (ru_attributes routes)"])
    (use assms run_add_nlri in \<open>auto simp: loc_rib_added_def\<close>)

lemma run_withdrawn:
  assumes "sp_rib sp fam = Some rib" and "sp_fib sp fam = Some fib"
    and "loc_rib_withdraw L fib (order rib) routes rib = (rib', md)"
  shows "run_task (withdrawn_task L order fam routes) sp = (put_rib fam rib' sp, md)"
proof -
  have "run_task (modified_task (withdraw_nlri_task L fam (peer_rid (ru_attributes routes)))
      (to_withdraw (order rib) rib routes) []) sp = (put_rib fam rib' sp, md)"
    by (rule run_modified [where g = "withdraw_nlri L fib (peer_rid (ru_attributes routes))"])
      (use assms run_withdraw_nlri in \<open>auto simp: loc_rib_withdraw_def\<close>)
  then show ?thesis using assms(1) by (simp add: withdrawn_task_def run_simps rib_of_def)
qed

lemma run_tell:
  "run_task (tell_task md js) sp = (sp, concat (map (\<lambda>n. if is_established n
    then (case tx n of Some t \<Rightarrow> [Send_Event t (RibUpdate md)] | None \<Rightarrow> []) else []) (map ((!) (neighbors sp)) js)))"
  by (induction js) (auto simp: run_simps)

lemma run_whole_rib_event:
  assumes "sp_rib sp fam = Some rib" and "sp_fib sp fam = Some fib"
  shows "run_task (rib_event_task L order alive fam (local_asn sp) (length (neighbors sp)) e) sp =
    process_rib_event L order alive fam e rib fib sp"
proof -
  obtain msg where e: "e = UpdateRoutes msg" by (cases e) auto
  obtain rib1 md1 where one: "(case upd_added msg of None \<Rightarrow> (rib, [])
      | Some routes \<Rightarrow> loc_rib_added L fib (local_asn sp) routes rib) = (rib1, md1)" by fastforce
  obtain rib2 md2 where two: "(case upd_withdrawn msg of None \<Rightarrow> (rib1, [])
      | Some routes \<Rightarrow> loc_rib_withdraw L fib (order rib1) routes rib1) = (rib2, md2)" by fastforce
  have "run_task (case upd_added msg of None \<Rightarrow> Done [] | Some routes \<Rightarrow> added_task L fam (local_asn sp) routes) sp =
      (put_rib fam rib1 sp, md1)"
    using one assms run_added [OF assms, of L "local_asn sp"] by (auto split: option.splits)
  moreover have "run_task (case upd_withdrawn msg of None \<Rightarrow> Done [] | Some routes \<Rightarrow> withdrawn_task L order fam routes)
      (put_rib fam rib1 sp) = (put_rib fam rib2 sp, md2)"
    using two assms(2) run_withdrawn [of "put_rib fam rib1 sp" fam rib1 fib L order] by (auto split: option.splits)
  ultimately show ?thesis
    by (auto simp: rib_event_task_def process_rib_event_def rib_event_step_def e one two run_simps run_tell map_nth Let_def
        put_rib_def)
qed

end
