(* ===== verification/Interleaving.thy ===== *)
theory Interleaving
  imports Event_Sections Protocol
begin

text \<open>
  The handlers interleaved section by section.  Between two sections of a handler any section of any other
  can come, so a neighbor may be in another state than the one the handler was chosen for.  What
  survives this: the invariant of the speaker, the configuration of its neighbors, and that a
  router id, once known, stays known; each section is shown to keep them, whatever came before it.
  Mutexes held over several sections are not kept track of: the interleavings here include
  those of the program.
\<close>

section \<open>What every section guarantees\<close>

definition keeps :: "'n neighbor \<Rightarrow> 'n neighbor \<Rightarrow> bool" where
  "keeps nb nb' \<longleftrightarrow> same_config nb nb' \<and> (remote_rid nb \<noteq> None \<longrightarrow> remote_rid nb' \<noteq> None)"

definition moved :: "('n, 'm, 'p) speaker \<Rightarrow> ('n, 'm, 'p) speaker \<Rightarrow> bool" where
  "moved sp sp' \<longleftrightarrow> same_speaker sp sp' \<and> (\<forall>i < length (neighbors sp). keeps (neighbors sp ! i) (neighbors sp' ! i))"

lemma keeps_refl [simp]: "keeps nb nb"
  by (simp add: keeps_def same_config_def)

lemma keeps_trans: "keeps a b \<Longrightarrow> keeps b c \<Longrightarrow> keeps a c"
  by (simp add: keeps_def same_config_def)

lemma moved_refl [simp]: "moved sp sp"
  by (simp add: moved_def same_speaker_def)

lemma moved_trans: "moved a b \<Longrightarrow> moved b c \<Longrightarrow> moved a c"
  unfolding moved_def by (auto simp: same_speaker_def intro: keeps_trans)

interpretation sections: guarantee sys_ok moved
  by unfold_locales (simp_all add: moved_trans)

abbreviation holds :: "('n, 'm, 'p, 'r) speaker_task \<Rightarrow> (('n, 'm, 'p) speaker \<Rightarrow> 'r \<Rightarrow> bool) \<Rightarrow> ('n, 'm, 'p) speaker \<Rightarrow> bool" where
  "holds \<equiv> ensures sys_ok moved"

lemma moved_length: "moved sp sp' \<Longrightarrow> length (neighbors sp') = length (neighbors sp)"
  by (simp add: moved_def same_speaker_def)

lemma moved_keeps: "moved sp sp' \<Longrightarrow> i < length (neighbors sp) \<Longrightarrow> keeps (neighbors sp ! i) (neighbors sp' ! i)"
  by (simp add: moved_def)

lemma sys_ok_neighbor: "sys_ok sp \<Longrightarrow> i < length (neighbors sp) \<Longrightarrow> neighbor_ok (neighbors sp ! i)"
  by (simp add: sys_ok_def)

text \<open>A change of a neighbor that is harmless: what it keeps, and a router id where the state asks for one.\<close>

definition harmless :: "'n neighbor \<Rightarrow> 'n neighbor \<Rightarrow> bool" where
  "harmless nb nb' \<longleftrightarrow> keeps nb nb' \<and> (nb_state nb' \<in> {OpenConfirm, Established} \<longrightarrow>
     nb_state nb' = nb_state nb \<or> remote_rid nb' \<noteq> None)"

lemma harmless_ok: "harmless nb nb' \<Longrightarrow> neighbor_ok nb \<Longrightarrow> neighbor_ok nb'"
  by (auto simp: harmless_def keeps_def same_config_def neighbor_ok_def)

lemma moved_upd: "keeps (neighbors sp ! i) nb \<Longrightarrow> moved sp (upd_neighbor i nb sp)"
  unfolding moved_def
proof (intro conjI allI impI)
  fix j assume "keeps (neighbors sp ! i) nb" "j < length (neighbors sp)"
  then show "keeps (neighbors sp ! j) (neighbors (upd_neighbor i nb sp) ! j)" by (cases "j = i") simp_all
qed (simp add: same_speaker_def)

lemma sys_ok_upd: "sys_ok sp \<Longrightarrow> neighbor_ok nb \<Longrightarrow> sys_ok (upd_neighbor i nb sp)"
  using set_update_subset_insert [of "neighbors sp" i nb] by (auto simp: sys_ok_def)

lemma holds_update_neighbor:
  assumes "i < length (neighbors sp)"
    and "\<And>sp'. moved sp sp' \<Longrightarrow> sys_ok sp' \<Longrightarrow> harmless (neighbors sp' ! i) (fst (f (neighbors sp' ! i)))
      \<and> Q (upd_neighbor i (fst (f (neighbors sp' ! i))) sp') (snd (f (neighbors sp' ! i)))"
  shows "holds (update_neighbor i f) Q sp"
  unfolding update_neighbor_def ensures.simps
proof (intro allI impI conjI)
  fix sp' assume sp': "moved sp sp'" "sys_ok sp'"
  from assms(2) [OF this] have h: "harmless (neighbors sp' ! i) (fst (f (neighbors sp' ! i)))"
    and q: "Q (upd_neighbor i (fst (f (neighbors sp' ! i))) sp') (snd (f (neighbors sp' ! i)))" by auto
  have "neighbor_ok (neighbors sp' ! i)"
    using sys_ok_neighbor [OF sp'(2)] assms(1) moved_length [OF sp'(1)] by simp
  with harmless_ok [OF h] sys_ok_upd [OF sp'(2)]
  show "sys_ok (upd_neighbor i (fst (f (neighbors sp' ! i))) sp')" by simp
  show "moved sp' (upd_neighbor i (fst (f (neighbors sp' ! i))) sp')" using h by (simp add: harmless_def moved_upd)
  show "Q (upd_neighbor i (fst (f (neighbors sp' ! i))) sp') (snd (f (neighbors sp' ! i)))" by (rule q)
qed

lemma holds_write_neighbor:
  assumes "i < length (neighbors sp)"
    and "\<And>sp'. moved sp sp' \<Longrightarrow> sys_ok sp' \<Longrightarrow> harmless (neighbors sp' ! i) (f (neighbors sp' ! i))
      \<and> Q (upd_neighbor i (f (neighbors sp' ! i)) sp') ()"
  shows "holds (write_neighbor i f) Q sp"
proof -
  have as_update: "write_neighbor i f = update_neighbor i (\<lambda>nb. (f nb, ()))"
    by (simp add: write_neighbor_def writing_def update_neighbor_def)
  show ?thesis
    unfolding as_update by (rule holds_update_neighbor [OF assms(1)]) (use assms(2) in simp)
qed

lemma holds_read_neighbor:
  assumes "i < length (neighbors sp)"
    and "\<And>sp'. moved sp sp' \<Longrightarrow> sys_ok sp' \<Longrightarrow> neighbor_ok (neighbors sp' ! i) \<Longrightarrow> keeps (neighbors sp ! i) (neighbors sp' ! i) \<Longrightarrow>
      Q sp' (f (neighbors sp' ! i))"
  shows "holds (read_neighbor i f) Q sp"
  unfolding read_neighbor_def
  by (rule sections.ensures_reading) (use assms sys_ok_neighbor moved_length moved_keeps in metis)

text \<open>Changes that need no more than this.\<close>

lemma harmless_changes [simp]:
  "harmless nb (handle_keepalive nb)" "harmless nb (set_state Idle nb)" "harmless nb (set_state Active nb)"
  "harmless nb (set_state OpenSent nb)" "harmless nb (set_state Connect nb)" "harmless nb ((set_state Idle nb)\<lparr>adjrib := x\<rparr>)" "harmless nb (session_end nb)"
  "harmless nb (nb\<lparr>tx := t\<rparr>)" "harmless nb (init_peer nb)" "harmless nb (connect_failed nb)"
  "harmless nb (connect_prepare rtx nb)" "harmless nb (connect_succeeded ip port nb)"
  "harmless nb (set_state Active nb\<lparr>nb_local_ip := y, nb_local_port := z\<rparr>)"
  "harmless nb (adjrib_add fam u nb)" "harmless nb (adjrib_withdraw fam u nb)"
  "harmless nb (fst (timer_keepalive_round nb))"
  by (simp_all add: harmless_def keeps_def same_config_def handle_keepalive_def set_state_def session_end_def init_peer_def
      connect_failed_def connect_prepare_def connect_succeeded_def adjrib_add_def adjrib_withdraw_def
      timer_keepalive_round_def Let_def split: option.split)

section \<open>The tasks of messages\<close>

text \<open>The assumptions marked with BUG that can fail: all others hold, in every interleaving.\<close>

definition expected_end :: "(string, unit) outcome \<Rightarrow> bool" where
  "expected_end r \<longleftrightarrow> (\<forall>msg. r = Panic (ExpectFailed msg) \<longrightarrow> msg \<in>
     {''BUG: Received capabilities should be set after processing OPEN message'',
      ''BUG: RIB should exist for negotiated address family'',
      ''BUG: Neighbor TX channel should be initialized before establishment'',
      ''BUG: Failed to send RIB update to established neighbor''})"

lemma expected_end_simps [simp]: "expected_end (Ok u)" "expected_end (Err e)"
  by (simp_all add: expected_end_def)

lemma expected_panic: "expected_end (Panic (ExpectFailed msg)) \<longleftrightarrow> msg \<in>
     {''BUG: Received capabilities should be set after processing OPEN message'',
      ''BUG: RIB should exist for negotiated address family'',
      ''BUG: Neighbor TX channel should be initialized before establishment'',
      ''BUG: Failed to send RIB update to established neighbor''}"
  by (simp add: expected_end_def)

abbreviation ends :: "('n, 'm, 'p) message_task \<Rightarrow> ('n, 'm, 'p) speaker \<Rightarrow> bool" where
  "ends t \<equiv> holds t (\<lambda>_ r. expected_end (snd r))"

lemma holds_bind:
  "holds t Q sp \<Longrightarrow> (\<And>sp' r. moved sp sp' \<Longrightarrow> Q sp' r \<Longrightarrow> holds (f r) R sp') \<Longrightarrow> holds (bind_task t f) R sp"
  by (rule sections.ensures_bind)

lemma holds_if: "(c \<Longrightarrow> holds t Q sp) \<Longrightarrow> (\<not> c \<Longrightarrow> holds u Q sp) \<Longrightarrow> holds (if c then t else u) Q sp"
  by simp

lemma holds_any: "holds t Q sp \<Longrightarrow> holds t (\<lambda>_ _. True) sp"
  by (rule sections.ensures_weaken) simp_all

lemma holds_reading: "(\<And>sp'. moved sp sp' \<Longrightarrow> sys_ok sp' \<Longrightarrow> Q sp' (f sp')) \<Longrightarrow> holds (reading f) Q sp"
  by (rule sections.ensures_reading)

lemma holds_reading_any: "holds (reading f) (\<lambda>_ _. True) sp"
  by (rule holds_reading) simp

lemma holds_read_any: "holds (read_neighbor i f) (\<lambda>_ _. True) sp"
  by (simp add: read_neighbor_def holds_reading_any)

lemma holds_write_any:
  "i < length (neighbors sp) \<Longrightarrow> (\<And>nb. harmless nb (f nb)) \<Longrightarrow> holds (write_neighbor i f) (\<lambda>_ _. True) sp"
  by (rule holds_write_neighbor) simp_all

lemma holds_collision: "holds (collision_task rid msg_rid js) (\<lambda>_ _. True) sp"
proof (induction js arbitrary: sp)
  case (Cons j js)
  show ?case
    unfolding collision_task.simps
    by (rule holds_bind [OF holds_read_any]) (simp add: Cons.IH split: prod.split)
qed simp

text \<open>What the capabilities of an OPEN can panic with: slices and lengths, no assumption marked with BUG.\<close>

lemma capability_step_panic: "capability_step c st \<noteq> Panic (ExpectFailed msg)"
  by (cases st; cases "capability_code c")
    (auto simp: capability_step_def read_af_def slice_def bind_eq_Panic split: if_splits option.splits)

lemma capability_steps_panic: "capability_steps cs st \<noteq> Panic (ExpectFailed msg)"
  by (induction cs arbitrary: st) (auto simp: bind_eq_Panic capability_step_panic)

lemma update_from_open_end: "expected_end (snd (update_from_open m nb))"
proof -
  have "neighbor_capabilities_from cs \<noteq> Panic (ExpectFailed msg)" for cs msg
    by (auto simp: neighbor_capabilities_from_def bind_eq_Panic capability_steps_panic)
  then show ?thesis
    by (auto simp: update_from_open_def expected_end_def Let_def split: outcome.split)
qed

lemma update_from_open_harmless:
  assumes "neighbor_ok nb" and "validate_open m nb"
  shows "harmless nb (fst (update_from_open m nb))"
  using assms
  by (auto simp: update_from_open_def harmless_def keeps_def same_config_def validate_open_def Let_def
      split: outcome.split option.splits)

text \<open>The AS number that was checked is still the configured one when the OPEN is taken over.\<close>

lemma validate_open_later: "keeps nb nb' \<Longrightarrow> remote_asn nb \<noteq> None \<Longrightarrow> validate_open m nb \<Longrightarrow> validate_open m nb'"
  by (auto simp: keeps_def same_config_def validate_open_def split: option.splits)

lemma holds_open:
  fixes sp :: "('n, 'm, 'p) speaker"
  assumes i: "i < length (neighbors sp)"
  shows "ends (open_task alive active m i) sp"
proof -
  have take_over: "holds (update_neighbor i (update_from_open m)) (\<lambda>_. expected_end) sp1"
    if sp1: "i < length (neighbors sp1)" "validate_open m (neighbors sp1 ! i)" "remote_asn (neighbors sp1 ! i) \<noteq> None" for sp1
  proof (rule holds_update_neighbor [OF sp1(1)])
    fix sp' assume sp': "moved sp1 sp'" "sys_ok sp'"
    have "neighbor_ok (neighbors sp' ! i)"
      using sys_ok_neighbor [OF sp'(2)] sp1(1) moved_length [OF sp'(1)] by simp
    moreover have "validate_open m (neighbors sp' ! i)"
      by (rule validate_open_later [OF moved_keeps [OF sp'(1) sp1(1)] sp1(3,2)])
    ultimately show "harmless (neighbors sp' ! i) (fst (update_from_open m (neighbors sp' ! i)))
        \<and> expected_end (snd (update_from_open m (neighbors sp' ! i)))"
      by (simp add: update_from_open_harmless update_from_open_end)
  qed
  have finish: "ends (bind_task (update_neighbor i (update_from_open m)) (\<lambda>r. case r of
      Ok _ \<Rightarrow> bind_task (read_neighbor i tx) (\<lambda>ta. case ta of
          None \<Rightarrow> Done (acts, Err no_channel)
        | Some ta \<Rightarrow> (case last t of (sent, r) \<Rightarrow> Done (acts @ Start_Keepalive_Timer ta # sent, r)))
    | _ \<Rightarrow> Done (acts, r))) sp1"
    if "i < length (neighbors sp1)" "validate_open m (neighbors sp1 ! i)" "remote_asn (neighbors sp1 ! i) \<noteq> None"
      "\<And>t. expected_end (snd (last t))"
    for sp1 acts t no_channel last
    using that(4)
    by (intro holds_bind [OF take_over [OF that(1-3)]])
      (auto simp: case_prod_beta split: outcome.split option.split intro!: holds_bind [OF holds_read_any])
  have check: "holds (read_neighbor i (validate_open m)) (\<lambda>sp2 v. i < length (neighbors sp2) \<and>
      remote_asn (neighbors sp2 ! i) \<noteq> None \<and> (v \<longrightarrow> validate_open m (neighbors sp2 ! i))) sp1"
    if "i < length (neighbors sp1)" for sp1
    by (rule holds_read_neighbor [OF that]) (use that in \<open>simp add: moved_length neighbor_ok_def\<close>)
  have checked: "ends (bind_task (read_neighbor i (validate_open m)) (\<lambda>valid.
      if \<not> valid
      then (case send_event (alive 0) failed t BGPOpenMsgErr of (sent, r) \<Rightarrow> Done (acts @ sent, r))
      else bind_task (update_neighbor i (update_from_open m)) (\<lambda>r. case r of
          Ok _ \<Rightarrow> bind_task (read_neighbor i tx) (\<lambda>ta. case ta of
              None \<Rightarrow> Done (acts, Err no_channel)
            | Some ta \<Rightarrow> (case last t of (sent, r) \<Rightarrow> Done (acts @ Start_Keepalive_Timer ta # sent, r)))
        | _ \<Rightarrow> Done (acts, r)))) sp1"
    if "i < length (neighbors sp1)" "\<And>t. expected_end (snd (last t))"
    for sp1 :: "('n, 'm, 'p) speaker" and acts t failed no_channel last
    apply (rule holds_bind [OF check [OF that(1)]])
    apply (rule holds_if)
     apply (simp add: send_event_def)
    apply (rule finish [OF _ _ _ that(2)])
      apply simp_all
    done
  have body: "ends (bind_task (read_neighbor i tx) (\<lambda>t. case t of
         None \<Rightarrow> Done ([], Err no_channel)
       | Some t \<Rightarrow>
           bind_task (reading (\<lambda>sp. (router_id sp, length (neighbors sp)))) (\<lambda>(rid, n).
           bind_task (collision_task rid (om_router_id m) [0..<n]) (\<lambda>(collides, acts).
             if collides then (case send_event (alive 0) dump t OpenCollisionDump of (sent, r) \<Rightarrow> Done (acts @ sent, r))
             else bind_task (read_neighbor i (validate_open m)) (\<lambda>valid.
               if \<not> valid
               then (case send_event (alive 0) failed t BGPOpenMsgErr of (sent, r) \<Rightarrow> Done (acts @ sent, r))
               else bind_task (update_neighbor i (update_from_open m)) (\<lambda>r. case r of
                   Ok _ \<Rightarrow> bind_task (read_neighbor i tx) (\<lambda>ta. case ta of
                       None \<Rightarrow> Done (acts, Err no_channel)
                     | Some ta \<Rightarrow> (case last t of (sent, r) \<Rightarrow> Done (acts @ Start_Keepalive_Timer ta # sent, r)))
                 | _ \<Rightarrow> Done (acts, r))))))) sp" if last: "\<And>t. expected_end (snd (last t))" for no_channel dump failed last
    apply (rule holds_bind [OF holds_read_any])
    apply (clarsimp split: option.split)
    apply (rule holds_bind [OF holds_reading_any])
    apply clarsimp
    apply (rule holds_bind [OF holds_collision])
    apply (simp only: split_paired_all prod.case)
    apply (rule holds_if)
     apply (simp add: send_event_def)
    apply (rule checked)
    using i apply (simp add: moved_length)
    apply (rule last)
    done
  show ?thesis
    unfolding open_task_def Let_def by (rule body) (simp add: send_event_def)
qed

lemma holds_notify: "ends (notify_task alive no_channel failed i) sp"
  unfolding notify_task_def by (rule holds_bind [OF holds_read_any]) (simp add: send_event_def split: option.split)

lemma holds_keepalive: "i < length (neighbors sp) \<Longrightarrow> ends (keepalive_task i) sp"
  unfolding keepalive_task_def by (rule holds_bind [OF holds_write_any]) simp_all

lemma holds_opensent: "i < length (neighbors sp) \<Longrightarrow> ends (opensent_task alive m i) sp"
  by (cases m) (simp_all add: opensent_task_def holds_open holds_notify holds_keepalive)

lemma holds_active: "i < length (neighbors sp) \<Longrightarrow> ends (active_task alive m i) sp"
  by (cases m) (simp_all add: active_task_def holds_open holds_notify)

text \<open>A RIB holds no entry without routes, so that its best ones can always be sent.\<close>

lemma send_locrib_family_end:
  assumes "sys_ok sp"
  shows "expected_end (snd (send_locrib_families alive sp order t rec [fam]))"
proof (cases "sp_rib sp fam")
  case (Some rib)
  with assms have "rib_ok (local_asn sp) rib" by (simp add: sys_ok_def)
  with Some show ?thesis
    by (cases t) (simp_all add: locrib_routes_ok Let_def expected_end_def expect_def)
qed (simp add: expected_end_def expect_def)

lemma holds_locrib: "ends (locrib_task alive order t rec fams) sp"
proof (induction fams arbitrary: sp)
  case (Cons fam fams)
  have one: "ends (reading (\<lambda>sp. send_locrib_families (alive (length fams)) sp order t rec [fam])) sp"
    by (rule holds_reading) (rule send_locrib_family_end)
  show ?case
    unfolding locrib_task.simps
    by (auto simp del: send_locrib_families.simps intro!: holds_bind [OF one] holds_bind [OF Cons.IH] Cons.IH
        split: outcome.split)
qed simp

lemma holds_openconfirm:
  assumes i: "i < length (neighbors sp)" and rid: "remote_rid (neighbors sp ! i) \<noteq> None"
    and adv: "multiprotocol (capabilities_advertised (neighbors sp ! i)) \<noteq> None"
  shows "ends (openconfirm_task alive order m i) sp"
proof -
  let ?up = "update_neighbor i (\<lambda>nb. let nb = set_state Established nb in (nb, nb))"
  have up: "holds ?up (\<lambda>_ nb. multiprotocol (capabilities_advertised nb) \<noteq> None) sp1" if "moved sp sp1" for sp1
  proof (rule holds_update_neighbor)
    fix sp2 assume "moved sp1 sp2"
    with that have "moved sp sp2" by (rule moved_trans)
    from moved_keeps [OF this i] rid adv show "harmless (neighbors sp2 ! i) (fst (let nb = set_state Established (neighbors sp2 ! i) in (nb, nb)))
        \<and> multiprotocol (capabilities_advertised (snd (let nb = set_state Established (neighbors sp2 ! i) in (nb, nb)))) \<noteq> None"
      by (auto simp: keeps_def same_config_def harmless_def set_state_def Let_def)
  qed (use i moved_length [OF that] in simp)
  have send: "ends (send_locrib_task alive order nb) sp2" if "multiprotocol (capabilities_advertised nb) \<noteq> None" for nb sp2
    using that by (auto simp: send_locrib_task_def holds_locrib expected_panic split: option.split)
  show ?thesis
    by (cases m) (auto simp: openconfirm_task_def holds_notify i
        intro!: holds_bind [OF holds_write_any] holds_bind [OF up] send)
qed

lemma holds_notification: "i < length (neighbors sp) \<Longrightarrow> ends (notification_task now i) sp"
  unfolding notification_task_def
  by (auto intro!: holds_bind [OF holds_read_any] holds_bind [OF holds_reading_any] holds_bind [OF holds_write_any]
      simp: moved_length)

text \<open>An UPDATE finds the router id of the session, in each of its sections.\<close>

lemma holds_update:
  assumes i: "i < length (neighbors sp)" and rid: "remote_rid (neighbors sp ! i) \<noteq> None"
  shows "ends (update_task m now i) sp"
proof -
  obtain fam ns wd hop where m: "update_routes m = (fam, ns, wd, hop)" by (cases "update_routes m") auto
  have later: "i < length (neighbors sp1) \<and> remote_rid (neighbors sp1 ! i) \<noteq> None" if "moved sp sp1" for sp1
    using moved_keeps [OF that i] moved_length [OF that] i rid by (simp add: keeps_def)
  let ?attrs = "\<lambda>asn nb. (ra_new (path_attributes m) (ucast (asn :: u16)) (remote_asn nb) (remote_rid nb) (remote_ip nb) hop now)
    :: (string, route_attributes) outcome"
  have attrs: "holds (read_neighbor i (?attrs asn)) (\<lambda>_ r. \<exists>a. r = Ok a) sp1" if "moved sp sp1" for sp1 asn
  proof (rule holds_read_neighbor)
    fix sp2 assume sp2: "moved sp1 sp2" "neighbor_ok (neighbors sp2 ! i)"
    have "remote_rid (neighbors sp2 ! i) \<noteq> None" using later [OF moved_trans [OF that sp2(1)]] by simp
    with sp2(2) show "\<exists>a. ?attrs asn (neighbors sp2 ! i) = Ok a"
      by (intro ra_new_total) (simp_all add: neighbor_ok_def)
  qed (use later [OF that] in simp)
  have adj: "holds (if c then write_neighbor i f else Done ()) (\<lambda>_ _. True) sp1"
    if "moved sp sp1" "\<And>nb. harmless nb (f nb)" for sp1 c f
    using that later [OF that(1)] by (simp add: holds_write_any)
  have last: "ends (read_neighbor i (\<lambda>nb. case remote_rid nb of
      None \<Rightarrow> ([], Panic (ExpectFailed msg)) | Some r \<Rightarrow> (g nb r, Ok ()))) sp1" if "moved sp sp1" for sp1 g msg
  proof (rule holds_read_neighbor)
    fix sp2 assume "moved sp1 sp2"
    from later [OF moved_trans [OF that this]]
    show "expected_end (snd (case remote_rid (neighbors sp2 ! i) of
        None \<Rightarrow> ([], Panic (ExpectFailed msg)) | Some r \<Rightarrow> (g (neighbors sp2 ! i) r, Ok ())))" by auto
  qed (use later [OF that] in simp)
  have trans: "moved sp sp2" if "moved sp sp1" "moved sp1 sp2" for sp1 sp2 using moved_trans that by blast
  show ?thesis
    unfolding update_task_def m Let_def prod.case
    apply (rule holds_bind [OF holds_reading_any])
    apply (rule holds_bind [OF attrs])
     apply assumption
    apply (erule exE)
    apply (simp only: outcome.case)
    apply (rule holds_bind [OF adj])
      apply (erule (1) trans)
     apply simp
    apply (rule holds_bind [OF adj])
      apply (erule (2) trans [OF trans])
     apply simp
    apply (rule last)
    apply (erule (3) trans [OF trans [OF trans]])
    done
qed

lemma holds_established:
  "i < length (neighbors sp) \<Longrightarrow> remote_rid (neighbors sp ! i) \<noteq> None \<Longrightarrow> ends (established_task m now i) sp"
  by (cases m) (simp_all add: established_task_def holds_keepalive holds_notification holds_update)

lemma holds_message:
  assumes i: "i < length (neighbors sp)"
  shows "ends (message_task alive order m now i) sp"
proof -
  have state: "holds (read_neighbor i nb_state) (\<lambda>sp' st. neighbor_ok (neighbors sp' ! i) \<and> st = nb_state (neighbors sp' ! i)) sp"
    by (rule holds_read_neighbor [OF i]) simp
  have "ends (case st of Active \<Rightarrow> active_task alive (body m) i
       | OpenConfirm \<Rightarrow> openconfirm_task alive order (body m) i
       | OpenSent \<Rightarrow> opensent_task alive (body m) i
       | Established \<Rightarrow> established_task (body m) now i
       | _ \<Rightarrow> Done ([], Ok ())) sp'"
    if "moved sp sp'" "neighbor_ok (neighbors sp' ! i) \<and> st = nb_state (neighbors sp' ! i)" for sp' st
    using that i moved_length [OF that(1)]
    by (cases st) (auto simp: neighbor_ok_def holds_active holds_opensent holds_openconfirm holds_established)
  then show ?thesis
    unfolding message_task_def by (rule holds_bind [OF state])
qed

section \<open>The other tasks\<close>

text \<open>Of the other tasks only the invariant matters, not how they end.\<close>

abbreviation safe :: "('n, 'm, 'p, 'r) speaker_task \<Rightarrow> ('n, 'm, 'p) speaker \<Rightarrow> bool" where
  "safe t \<equiv> holds t (\<lambda>_ _. True)"

lemma safe_bind: "safe t sp \<Longrightarrow> (\<And>sp' r. moved sp sp' \<Longrightarrow> safe (f r) sp') \<Longrightarrow> safe (bind_task t f) sp"
  by (rule holds_bind)

text \<open>With the neighbor still there.\<close>

lemma safe_at:
  "i < length (neighbors sp) \<Longrightarrow> safe t sp \<Longrightarrow> (\<And>sp' r. i < length (neighbors sp') \<Longrightarrow> safe (f r) sp') \<Longrightarrow>
    safe (bind_task t f) sp"
  by (rule safe_bind) (simp_all add: moved_length)

lemma safe_update:
  "i < length (neighbors sp) \<Longrightarrow> (\<And>nb. harmless nb (fst (f nb))) \<Longrightarrow> safe (update_neighbor i f) sp"
  by (rule holds_update_neighbor) simp_all

lemma safe_send_open: "safe (send_open_task L msg i c) sp"
  unfolding send_open_task_def
  by (rule safe_bind [OF holds_reading_any]) (auto intro!: safe_bind [OF holds_read_any])

lemma safe_open_and_wait: "i < length (neighbors sp) \<Longrightarrow> safe (open_and_wait_task L msg i c) sp"
  unfolding open_and_wait_task_def
  by (rule safe_bind [OF safe_send_open])
    (auto simp: moved_length intro!: safe_bind [OF holds_write_any] split: outcome.split)

lemma safe_groups: "safe (groups_task i gs) sp"
proof (induction gs arbitrary: sp)
  case (Cons g gs)
  show ?case
    unfolding groups_task.simps
    by (rule safe_bind [OF holds_read_any]) (auto intro!: safe_bind [OF Cons.IH] split: outcome.split)
qed simp

lemma safe_send_update: "safe (send_update_task L order routes i c) sp"
  unfolding send_update_task_def
  by (rule safe_bind [OF holds_read_any])
    (auto simp: Let_def intro!: safe_bind [OF safe_groups] split: option.split prod.split)

lemma safe_event:
  fixes sp :: "('n, 'm, 'p) speaker"
  assumes "i < length (neighbors sp)"
  shows "safe (event_task L order e i c) sp"
proof -
  have "safe (connect_event_task L e i c) sp'" "safe (active_event_task L e i c) sp'"
    "safe (openconfirm_event_task L e i c) sp'" "safe (established_event_task L order e i c) sp'"
    if "i < length (neighbors sp')" for sp' :: "('n, 'm, 'p) speaker"
    using that
    by (cases e, auto simp: connect_event_task_def active_event_task_def openconfirm_event_task_def
        established_event_task_def safe_open_and_wait safe_send_open
        intro!: safe_bind [OF holds_write_any] safe_bind [OF safe_send_update])+
  then show ?thesis
    unfolding event_task_def
    by (intro safe_at [OF assms] holds_read_any) (simp split: bgp_state.split)
qed

lemma safe_session_start:
  assumes "i < length (neighbors sp)"
  shows "safe (session_start_task L order ch i c) sp"
  unfolding session_start_task_def
  by (intro safe_at [OF assms] safe_update [OF assms]) (simp_all add: safe_event split: bgp_state.split)

lemma safe_session_end: "i < length (neighbors sp) \<Longrightarrow> safe (session_end_task i) sp"
  by (simp add: session_end_task_def holds_write_any)

lemma safe_keepalive_timer: "i < length (neighbors sp) \<Longrightarrow> safe (keepalive_timer_task i) sp"
  by (simp add: keepalive_timer_task_def safe_update)

lemma safe_hold_timer: "safe (hold_timer_task i) sp"
  by (simp add: hold_timer_task_def holds_read_any)

lemma safe_prepare:
  assumes "i < length (neighbors sp0)"
  shows "safe (writing (\<lambda>sp. upd_neighbor i (connect_prepare (sp_ribtx sp) (neighbors sp ! i)) sp)) sp0"
proof (rule sections.ensures_writing)
  fix sp assume sp: "moved sp0 sp" "sys_ok sp"
  let ?nb = "connect_prepare (sp_ribtx sp) (neighbors sp ! i)"
  have h: "harmless (neighbors sp ! i) ?nb" by (rule harmless_changes)
  have "i < length (neighbors sp)" using assms moved_length [OF sp(1)] by presburger
  from harmless_ok [OF h sys_ok_neighbor [OF sp(2) this]] have "sys_ok (upd_neighbor i ?nb sp)"
    by (rule sys_ok_upd [OF sp(2)])
  moreover have "keeps (neighbors sp ! i) ?nb" using h unfolding harmless_def by (rule conjunct1)
  ultimately show "sys_ok (upd_neighbor i ?nb sp) \<and> moved sp (upd_neighbor i ?nb sp) \<and> True"
    by (intro conjI moved_upd TrueI)
qed

lemma safe_connect:
  assumes "i < length (neighbors sp)"
  shows "safe (connect_task socket i) sp"
proof -
  have write_last: "safe (bind_task (write_neighbor i f) (\<lambda>_. Done r)) sp'"
    if "i < length (neighbors sp')" "\<And>nb. harmless nb (f nb)" for sp' f and r :: "(string, unit) outcome"
    using that by (intro safe_bind [OF holds_write_any]) simp_all
  show ?thesis
    unfolding connect_task_def
    apply (rule safe_at [OF assms safe_prepare [OF assms]])
    apply (rule safe_at [OF _ holds_read_any], assumption)
    apply (simp add: write_last split: prod.split option.split connection.split)
    done
qed

lemma safe_incoming: "safe (incoming_task free ip local_addr) sp"
proof -
  have matched: "holds (reading (match_incoming free ip)) (\<lambda>sp' r. \<forall>i. r = Some i \<longrightarrow> i < length (neighbors sp')) sp"
    by (rule holds_reading) (auto dest: match_incoming_Some)
  have accept: "safe (bind_task (read_neighbor i (\<lambda>nb. should_accept (nb_state nb))) (\<lambda>accepted.
      if \<not> accepted then Done (Ok None)
      else case local_addr of
          None \<Rightarrow> Done (Panic (ExpectFailed ''BUG: Socket should have a local address after accept''))
        | Some (lip, lport) \<Rightarrow>
            bind_task (write_neighbor i (\<lambda>nb. set_state Active nb\<lparr>nb_local_ip := Some lip, nb_local_port := Some lport\<rparr>))
              (\<lambda>_. Done (Ok (Some i))))) sp'" if "i < length (neighbors sp')" for sp' i
    by (rule safe_at [OF that holds_read_any]) (simp add: safe_bind [OF holds_write_any] split: option.split prod.split)
  show ?thesis
    unfolding incoming_task_def
    by (rule holds_bind [OF matched]) (simp add: accept moved_length split: option.split)
qed

section \<open>The RIB managers\<close>

lemma safe_update_rib:
  assumes "\<And>reach rib. rib_ok (local_asn sp0) rib \<Longrightarrow> rib_ok (local_asn sp0) (fst (f reach rib))"
  shows "safe (update_rib fam f L) sp0"
  unfolding update_rib_def ensures.simps
proof (intro allI impI conjI TrueI)
  fix sp assume sp: "moved sp0 sp" "sys_ok sp"
  have asn: "local_asn sp = local_asn sp0" using sp(1) by (simp add: moved_def same_speaker_def)
  let ?sp = "case sp_rib sp fam of None \<Rightarrow> sp
    | Some rib \<Rightarrow> sp\<lparr>sp_rib := (sp_rib sp)(fam \<mapsto> fst (f (reaches L fam sp) rib))\<rparr>"
  show "moved sp ?sp" by (simp add: moved_def same_speaker_def split: option.split)
  show "sys_ok ?sp"
    using sp(2) assms by (auto simp: sys_ok_def asn split: option.split)
qed

text \<open>Whatever was added to the prefix since the manager looked, its routes stay ranked.\<close>

lemma safe_add_nlri:
  fixes n :: "'n nlri"
  assumes "asn = local_asn sp"
  shows "safe (add_nlri_task L fam asn a n) sp"
proof -
  have first: "rib_ok k rib \<Longrightarrow> is_valid k a \<Longrightarrow> rib_ok k (fst (case rib n of
      None \<Rightarrow> (rib(n \<mapsto> [a]), x) | Some as \<Rightarrow> (rib, g as)))"
    for k and rib :: "'n rib" and x :: "bool + route_attributes option" and g
    by (auto intro!: rib_ok_upd split: option.split)
  have again: "rib_ok k rib \<Longrightarrow> is_valid k a \<Longrightarrow>
      rib_ok k (rib(n \<mapsto> rank_insert a (case rib n of None \<Rightarrow> [] | Some as \<Rightarrow> as)))" for k and rib :: "'n rib"
    by (intro rib_ok_upd; cases "rib n") (auto simp: ranked_rank_insert dest: rib_okD)
  show ?thesis
    unfolding add_nlri_task_def
    using assms
    apply (auto intro!: safe_bind [OF safe_update_rib] safe_update_rib simp: again moved_def same_speaker_def
        split: sum.split)
    by (rule first)
qed

lemma safe_withdraw_nlri: "safe (withdraw_nlri_task L fam peer n) sp"
  unfolding withdraw_nlri_task_def
proof (rule safe_update_rib)
  fix reach and rib :: "'a rib"
  assume "rib_ok (local_asn sp) rib"
  then show "rib_ok (local_asn sp) (fst (case rib n of None \<Rightarrow> (rib, []) | Some as \<Rightarrow>
      (let previous_best = best_of reach as; as' = filter (\<lambda>a. \<not> is_from_neighbor peer a) as
       in (if as' = [] then rib(n := None) else rib(n \<mapsto> as'),
           case previous_best of None \<Rightarrow> [] | Some best \<Rightarrow> if peer_rid best = peer then [(n, None)] else []))))"
    using rib_okD [of "local_asn sp" rib n] by (auto simp: Let_def ranked_filter intro!: rib_ok_upd split: option.split)
qed

lemma safe_modified:
  assumes "\<And>x sp'. moved sp sp' \<Longrightarrow> safe (f x) sp'"
  shows "safe (modified_task f xs md) sp"
  using assms
proof (induction xs arbitrary: sp md)
  case (Cons x xs)
  show ?case
    unfolding modified_task.simps
    by (rule safe_bind [OF Cons.prems], rule moved_refl, rule Cons.IH, rule Cons.prems, rule moved_trans)
qed simp

lemma safe_added: "asn = local_asn sp \<Longrightarrow> safe (added_task L fam asn routes) sp"
  unfolding added_task_def
  by (rule safe_modified, rule safe_add_nlri) (simp add: moved_def same_speaker_def)

lemma safe_withdrawn: "safe (withdrawn_task L order fam routes) sp"
  unfolding withdrawn_task_def
  by (intro safe_bind holds_reading_any safe_modified safe_withdraw_nlri)

lemma safe_tell: "safe (tell_task md js) sp"
proof (induction js arbitrary: sp)
  case (Cons j js)
  show ?case
    unfolding tell_task.simps
    by (intro safe_bind [OF holds_read_any] safe_bind [OF Cons.IH]) simp
qed simp

lemma safe_rib_event: "asn = local_asn sp \<Longrightarrow> safe (rib_event_task L order alive fam asn k e) sp"
  unfolding rib_event_task_def
  by (cases e; rule rib_event.case [THEN ssubst])
    (auto intro!: safe_bind [OF safe_added] safe_bind [OF safe_withdrawn] safe_bind [OF safe_tell] simp: Let_def
      split: option.split)

lemma safe_fib_refresh: "safe (fib_refresh_task fam routes) sp"
  unfolding fib_refresh_task_def
  by (rule sections.ensures_writing) (auto simp: sys_ok_def moved_def same_speaker_def split: option.split)

section \<open>All handlers at once\<close>

definition silent :: "('n, 'm, 'p, 'r) speaker_task \<Rightarrow> ('n, 'm, 'p) message_task" where
  "silent t = bind_task t (\<lambda>_. Done ([], Ok ()))"

text \<open>The tasks that can start at any time: on any neighbor, with anything from outside.\<close>

inductive handler_task :: "'n ipnet_ops \<Rightarrow> ('n, 'm, 'p) speaker \<Rightarrow> ('n, 'm, 'p) message_task \<Rightarrow> bool"
  for L :: "'n ipnet_ops" and sp :: "('n, 'm, 'p) speaker"
where
  task_message: "i < length (neighbors sp) \<Longrightarrow> handler_task L sp (message_task alive order m now i)"
| task_event: "i < length (neighbors sp) \<Longrightarrow> handler_task L sp (silent (event_task L order e i c))"
| task_unconnected: "i < length (neighbors sp) \<Longrightarrow>
    handler_task L sp (silent (write_neighbor i (process_event_unconnected e)))"
| task_start: "i < length (neighbors sp) \<Longrightarrow> handler_task L sp (silent (session_start_task L order ch i c))"
| task_end: "i < length (neighbors sp) \<Longrightarrow> handler_task L sp (silent (session_end_task i))"
| task_tick: "i < length (neighbors sp) \<Longrightarrow> handler_task L sp (silent (keepalive_timer_task i))"
| task_hold: "i < length (neighbors sp) \<Longrightarrow> handler_task L sp (silent (hold_timer_task i))"
| task_connect: "i < length (neighbors sp) \<Longrightarrow> handler_task L sp (silent (connect_task socket i))"
| task_incoming: "handler_task L sp (silent (incoming_task free ip local_addr))"
| task_rib: "handler_task L sp (silent (rib_event_task L order alive fam (local_asn sp) k e))"
| task_fib: "handler_task L sp (silent (fib_refresh_task fam routes))"

lemma ends_silent: "safe t sp \<Longrightarrow> ends (silent t) sp"
  unfolding silent_def by (rule holds_bind) simp_all

lemma harmless_unconnected [simp]: "harmless nb (process_event_unconnected e nb)"
  by (cases e) (simp_all add: process_event_unconnected_def process_event_idle_def harmless_def [of nb nb])

lemma ends_handler: "handler_task L sp t \<Longrightarrow> ends t sp"
  by (induction rule: handler_task.induct)
    (simp_all add: holds_message ends_silent safe_event holds_write_any safe_session_start safe_session_end
      safe_keepalive_timer safe_hold_timer safe_connect safe_incoming safe_rib_event safe_fib_refresh)

text \<open>What holds of all interleavings of all handlers.\<close>

lemma interleaved_handlers:
  assumes "interleaved (handler_task L) sp0 sp ts" and "sys_ok sp0"
  shows "sys_ok sp" and "moved sp0 sp" and "Done (acts, r) \<in> set ts \<Longrightarrow> expected_end r"
proof -
  have "sys_ok sp \<and> moved sp0 sp \<and> (\<forall>t \<in> set ts. ensures sys_ok moved t (\<lambda>_ r. expected_end (snd r)) sp)"
    by (rule sections.interleaved_ensures [OF assms]) (rule ends_handler)
  then show "sys_ok sp" "moved sp0 sp" "Done (acts, r) \<in> set ts \<Longrightarrow> expected_end r" by fastforce+
qed

end
