(* ===== verification/Concurrency_Properties.thy ===== *)
theory Concurrency_Properties
  imports Interleaving Operation_Properties Environment_Properties
begin

text \<open>
  Properties of the handlers as sequences of critical sections.  Alone they are the handlers of the
  other theories (the lemmas \<open>run_whole_\<dots>\<close>).  Interleaved they keep the invariant, and they do what no
  handler does alone.
\<close>

section \<open>A channel nobody reads\<close>

text \<open>The initial routes cannot be sent: there is no channel, or its receiver is gone.\<close>

definition unsendable :: "(chan \<Rightarrow> bool) \<Rightarrow> chan option \<Rightarrow> string \<Rightarrow> bool" where
  "unsendable alive t msg \<longleftrightarrow> (case t of
     None \<Rightarrow> msg = ''BUG: Neighbor TX channel should be initialized before establishment''
   | Some ch \<Rightarrow> \<not> alive ch \<and> msg = ''BUG: Failed to send RIB update to established neighbor'')"

lemma send_locrib_fails:
  assumes "\<forall>fam \<in> set adv \<inter> set rec. sp_rib sp fam \<noteq> None" and "set adv \<inter> set rec \<noteq> {}" and "sys_ok sp"
    and "unsendable alive t msg"
  shows "send_locrib_families alive sp order t rec adv = ([], Panic (ExpectFailed msg))"
  using assms(1,2)
proof (induction adv)
  case (Cons fam fams)
  show ?case
  proof (cases "fam \<in> set rec")
    case True
    then obtain rib where "sp_rib sp fam = Some rib" "rib_ok (local_asn sp) rib"
      using Cons.prems assms(3) by (auto simp: sys_ok_def)
    with True assms(4) show ?thesis
      by (auto simp: locrib_routes_ok expect_def unsendable_def split: option.splits)
  qed (use Cons in simp)
qed simp

lemma send_locrib_works:
  assumes "\<forall>fam \<in> set adv \<inter> set rec. sp_rib sp fam \<noteq> None" and "sys_ok sp" and "alive ch"
  shows "snd (send_locrib_families alive sp order (Some ch) rec adv) = Ok ()"
proof -
  have "\<forall>fam \<in> set adv. fam \<in> set rec \<longrightarrow> (\<exists>rib. sp_rib sp fam = Some rib \<and> rib_ok (local_asn sp) rib)"
    using assms(1,2) unfolding sys_ok_def by blast
  from send_locrib_families_ok [OF this, where alive = alive, OF assms(3)] show ?thesis by simp
qed

text \<open>A connection that is closed takes no OPEN; its task ends where it starts.\<close>

lemma session_start_closed:
  assumes "nb_state nb = Active" and "length (announced_families (capabilities_advertised nb)) \<le> 42" and "\<not> conn_open c"
  shows "session_start L order s ch nb c = (nb\<lparr>tx := Some ch\<rparr>, Err ''Failed to send OPEN message in ACTIVE state'')"
proof -
  have "\<exists>data. to_wire L MT_Open (MB_Open (open_new asn rid hold caps)) = (Ok data :: (string, bytes) outcome)" for asn rid hold caps
    by (simp add: to_wire_def message_to_bytes_def message_new_def)
  then obtain data where "to_wire L MT_Open (MB_Open (open_new (li_asn s) (li_router_id s) (li_hold_time s)
      (capabilities_advertised nb))) = (Ok data :: (string, bytes) outcome)" by blast
  then have "map_err (\<lambda>_. msg) (send_open L (li_asn s) (li_router_id s) (li_hold_time s) (capabilities_advertised nb) c) =
      Err msg" for msg :: string
    using assms(3) by (auto simp: send_open_def framed_send_def codec_encode_def validate_message_length_def Let_def)
  then show ?thesis
    using assms(1) by (simp add: session_start_def process_event_def process_event_active_def send_local_open_def Let_def)
qed

text \<open>C38: a session that sends to a channel nobody reads.  Two connections of a neighbor have been accepted,
  and their tasks start.  The first notes its channel and reads the state, ACTIVE; the other notes its own, fails
  to send its OPEN, for its connection is closed, and returns at once: it neither takes its
  channel back nor resets the state.  The first goes on and opens its session, with the channel of the task
  that is gone; the peer's OPEN is taken, and its KEEPALIVE makes the neighbor ESTABLISHED and
  then panics unless that channel still has a receiver, although its own has one.  From then on every connection
  of the peer is refused.  With the starts one after the other, either the channel is
  the session's own or the other start does not fail.\<close>

theorem dead_channel:
  fixes sp :: "('n, 'm, 'p) speaker"
  assumes "reachable L b N cfg sp" and "i < length (neighbors sp)" and "nb_state (neighbors sp ! i) = Active"
    and "length (announced_families (capabilities_advertised (neighbors sp ! i))) \<le> 42"
    and "conn_open c" and "\<not> conn_open closed" and "body m1 = MB_Open msg" and "body m2 = MB_Keepalive"
    and "remote_asn (neighbors sp ! i) = Some (om_asn msg)" and "remote_rid (neighbors sp ! i) \<noteq> Some (om_router_id msg)"
    and "\<forall>j < length (neighbors sp). j \<noteq> i \<longrightarrow> \<not> is_opening (om_router_id msg) (neighbors sp ! j)"
    and "neighbor_capabilities_from (capabilities_from_params (params (om_opt_params msg))) = Ok caps"
    and "multiprotocol (capabilities_advertised (neighbors sp ! i)) = Some adv" and "multiprotocol caps = Some rec"
    and "set adv \<inter> set rec \<noteq> {}" and "\<forall>fam \<in> set adv \<inter> set rec. sp_rib sp fam \<noteq> None"
  shows "(\<exists>g k sp0 sp1 sp2 sp3 c'. session_start_task L order own i c = Section g k
        \<and> run_task (session_start_task L order other i closed) (g sp) = (sp0, Err ''Failed to send OPEN message in ACTIVE state'')
        \<and> run_task (k sp) sp0 = (sp1, Ok c')
        \<and> nb_state (neighbors sp1 ! i) = OpenSent \<and> tx (neighbors sp1 ! i) = Some other
        \<and> (\<forall>alive. run_task (message_task (\<lambda>_. alive) ro m1 now i) sp1 = (sp2, [Start_Keepalive_Timer other], Ok ()))
        \<and> (\<forall>alive. \<exists>acts. run_task (message_task (\<lambda>_. alive) ro m2 now i) sp2 = (sp3, if alive other then (acts, Ok ())
            else ([], Panic (ExpectFailed ''BUG: Failed to send RIB update to established neighbor''))))
        \<and> nb_state (neighbors sp3 ! i) = Established
        \<and> (\<forall>free ip local_addr. match_incoming free ip sp3 = Some i \<longrightarrow> add_incoming free ip local_addr sp3 = (sp3, Ok None)))
    \<and> (\<exists>sp0 sp1 c'. run_task (session_start_task L order other i closed) sp = (sp0, Err ''Failed to send OPEN message in ACTIVE state'')
        \<and> run_task (session_start_task L order own i c) sp0 = (sp1, Ok c') \<and> tx (neighbors sp1 ! i) = Some own)
    \<and> (\<exists>sp0 sp1 c'. run_task (session_start_task L order own i c) sp = (sp0, Ok c')
        \<and> run_task (session_start_task L order other i closed) sp0 = (sp1, Ok closed))"
proof -
  define nb where "nb = neighbors sp ! i"
  note nb = assms(3,4,9-10,13) [folded nb_def] and i = assms(2)
  let ?mine = "upd_neighbor i (nb\<lparr>tx := Some own\<rparr>) sp" and ?lost = "upd_neighbor i (nb\<lparr>tx := Some other\<rparr>) sp"
  let ?sp1 = "upd_neighbor i (waiting other nb) sp" and ?nb2 = "opened msg caps (waiting other nb)"
  let ?sp2 = "upd_neighbor i ?nb2 sp" and ?nb3 = "set_state Established (handle_keepalive (opened msg caps (waiting other nb)))"
  let ?sp3 = "upd_neighbor i ?nb3 sp" and ?panic = "Panic (ExpectFailed ''BUG: Failed to send RIB update to established neighbor'')"
  have info: "local_info_of (upd_neighbor i nb' sp) = local_info_of sp" for nb'
    by (simp add: local_info_of_def upd_neighbor_def)
  obtain c' where c': "\<And>ch. session_start L order (local_info_of sp) ch nb c = (waiting ch nb, Ok c')"
    "send_open L (li_asn (local_info_of sp)) (li_router_id (local_info_of sp)) (li_hold_time (local_info_of sp))
      (capabilities_advertised nb) c = Ok c'"
    using session_start_active [OF nb(1,2) assms(5), of L order "local_info_of sp"] unfolding waiting_def
    by (metis outcome.inject(1))
  define g where "g s = upd_neighbor i ((neighbors s ! i)\<lparr>tx := Some own\<rparr>) s" for s :: "('n, 'm, 'p) speaker"
  define k :: "('n, 'm, 'p) speaker \<Rightarrow> ('n, 'm, 'p, (string, conn) outcome) speaker_task" where "k s = (case nb_state (neighbors s ! i) of Active \<Rightarrow> event_task L order TcpConnectionConfirmed i c
      | Connect \<Rightarrow> event_task L order TcpConnectionValid i c | _ \<Rightarrow> Done (Ok c))" for s
  have split: "session_start_task L order own i c = Section g k"
    by (simp add: session_start_task_def update_neighbor_def g_def k_def fun_eq_iff)
  have lost: "run_task (session_start_task L order other i closed) (g sp) = (?lost, Err ''Failed to send OPEN message in ACTIVE state'')"
    using session_start_closed [of "nb\<lparr>tx := Some own\<rparr>" closed L order "local_info_of sp" other] nb i assms(6)
    by (simp add: run_whole_session_start g_def info flip: nb_def)
  have goes_on: "run_task (k sp) ?lost = (?sp1, Ok c')"
    using nb i c'(2)
    by (simp add: k_def run_whole_event info process_event_def process_event_active_def send_local_open_def waiting_def flip: nb_def)
  have no_other: "\<not> is_opening (om_router_id msg) n" if n: "n \<in> set (neighbors ?sp1)" for n
  proof -
    obtain j where "j < length (neighbors sp)" "n = neighbors ?sp1 ! j"
      using n by (auto simp: in_set_conv_nth)
    then show ?thesis using assms(11) nb(4) i by (cases "j = i") (auto simp: is_opening_def)
  qed
  have "process_message alive ro m1 ?sp1 now (waiting other nb) = (?nb2, [Start_Keepalive_Timer other], Ok ())" for alive
    using no_other nb(3) assms(7,12) by (intro open_accepted) simp_all
  then have opens: "run_task (message_task (\<lambda>_. alive) ro m1 now i) ?sp1 = (?sp2, [Start_Keepalive_Timer other], Ok ())" for alive
    using i by (simp add: run_whole_message)
  have nb3: "capabilities_advertised ?nb3 = capabilities_advertised nb" "capabilities_received ?nb3 = caps" "tx ?nb3 = Some other"
    "nb_state ?nb3 = Established"
    by (simp_all add: opened_def handle_keepalive_def set_state_def waiting_def)
  have "process_message alive ro m2 ?sp2 now ?nb2 = (?nb3, send_locrib alive ?sp2 ro ?nb3)" for alive
    by (rule keepalive_establishes) (simp_all add: opened_def assms(8))
  moreover have "send_locrib alive ?sp2 ro ?nb3 = send_locrib_families alive ?sp2 ro (Some other) rec adv" for alive
    unfolding send_locrib_def nb3 nb(5) assms(14) by simp
  ultimately have kept: "run_task (message_task (\<lambda>_. alive) ro m2 now i) ?sp2 =
      (?sp3, send_locrib_families alive ?sp2 ro (Some other) rec adv)" for alive
    using i by (simp add: run_whole_message)
  have "sys_ok ?sp2" "\<forall>fam \<in> set adv \<inter> set rec. sp_rib ?sp2 fam \<noteq> None"
    using sys_ok_upd [OF reachable_sys_ok [OF assms(1)], of ?nb2 i] sys_ok_neighbor [OF reachable_sys_ok [OF assms(1)] i] assms(16)
    by (simp_all add: neighbor_ok_def opened_def waiting_def set_state_def nb_def)
  note ends = send_locrib_works [OF this(2,1)] send_locrib_fails [OF this(2) assms(15) this(1), where t = "Some other"]
  have confirmed: "\<exists>acts. run_task (message_task (\<lambda>_. alive) ro m2 now i) ?sp2 = (?sp3, if alive other then (acts, Ok ()) else ([], ?panic))"
    for alive
    unfolding kept using ends [of alive] by (auto simp: unsendable_def prod_eq_iff)
  have refused: "add_incoming free ip local_addr ?sp3 = (?sp3, Ok None)" if "match_incoming free ip ?sp3 = Some i" for free ip local_addr
    using that i nb3(4) by (simp add: add_incoming_def should_accept_def Let_def)
  have "\<exists>g k sp0 sp1 sp2 sp3 c'. session_start_task L order own i c = Section g k
        \<and> run_task (session_start_task L order other i closed) (g sp) = (sp0, Err ''Failed to send OPEN message in ACTIVE state'')
        \<and> run_task (k sp) sp0 = (sp1, Ok c')
        \<and> nb_state (neighbors sp1 ! i) = OpenSent \<and> tx (neighbors sp1 ! i) = Some other
        \<and> (\<forall>alive. run_task (message_task (\<lambda>_. alive) ro m1 now i) sp1 = (sp2, [Start_Keepalive_Timer other], Ok ()))
        \<and> (\<forall>alive. \<exists>acts. run_task (message_task (\<lambda>_. alive) ro m2 now i) sp2 = (sp3, if alive other then (acts, Ok ()) else ([], ?panic)))
        \<and> nb_state (neighbors sp3 ! i) = Established
        \<and> (\<forall>free ip local_addr. match_incoming free ip sp3 = Some i \<longrightarrow> add_incoming free ip local_addr sp3 = (sp3, Ok None))"
    using split lost goes_on opens confirmed nb3(4) refused i
    by (intro exI [of _ g] exI [of _ k] exI [of _ ?lost] exI [of _ ?sp1] exI [of _ ?sp2] exI [of _ ?sp3] exI [of _ c']) simp
  moreover have "run_task (session_start_task L order other i closed) sp = (?lost, Err ''Failed to send OPEN message in ACTIVE state'')"
    using session_start_closed [OF nb(1,2) assms(6)] i by (simp add: run_whole_session_start flip: nb_def)
  moreover have "run_task (session_start_task L order own i c) ?lost = (upd_neighbor i (waiting own nb) sp, Ok c')"
    using c'(1) i by (simp add: run_whole_session_start info session_start_def flip: nb_def)
  moreover have "run_task (session_start_task L order own i c) sp = (upd_neighbor i (waiting own nb) sp, Ok c')"
    using c'(1) i by (simp add: run_whole_session_start flip: nb_def)
  moreover have "run_task (session_start_task L order other i closed) (upd_neighbor i (waiting own nb) sp) =
      (upd_neighbor i ((waiting own nb)\<lparr>tx := Some other\<rparr>) sp, Ok closed)"
    using i by (simp add: run_whole_session_start session_start_def waiting_def Let_def)
  ultimately show ?thesis using i by (intro conjI) (blast | simp)+
qed

theorem dead_channel_witness:
  "\<exists>(sp :: (ref_net, unit, unit) speaker) g k sp0 sp1 sp2 sp3 c' m1 m2.
      session_start_task ref_ipnet (\<lambda>gs. gs) 5 0 \<lparr>conn_out = [], conn_open = True\<rparr> = Section g k
    \<and> run_task (session_start_task ref_ipnet (\<lambda>gs. gs) 6 0 \<lparr>conn_out = [], conn_open = False\<rparr>) (g sp) =
        (sp0, Err ''Failed to send OPEN message in ACTIVE state'')
    \<and> run_task (k sp) sp0 = (sp1, Ok c')
    \<and> run_task (message_task (\<lambda>_ ch. ch = 5) (\<lambda>_. []) m1 0 0) sp1 = (sp2, [Start_Keepalive_Timer 6], Ok ())
    \<and> run_task (message_task (\<lambda>_ ch. ch = 5) (\<lambda>_. []) m2 0 0) sp2 =
        (sp3, [], Panic (ExpectFailed ''BUG: Failed to send RIB update to established neighbor''))"
proof -
  let ?nb = "accepted (V4 1) 179 tried1" and ?tried = "upd_neighbor 0 tried1 started1"
  let ?sp = "upd_neighbor 0 ?nb started1" and ?open = "open_norm (open_new 65001 16843009 9 capabilities_default)"
  let ?m1 = "\<lparr>message_type = MT_Open, body = MB_Open ?open\<rparr> :: ref_net message"
  let ?m2 = "\<lparr>message_type = MT_Keepalive, body = MB_Keepalive\<rparr> :: ref_net message"
  have "match_incoming (\<lambda>_. True) (V4 9) ?tried = Some 0" by (simp add: match_incoming_def)
  from incoming_accepted [OF this, of "V4 1" 179]
  have "sys_step ref_ipnet Debug ?tried ?sp" by (intro step_incoming) simp
  with reachable1(1) have reach: "reachable ref_ipnet Debug netlink1 (Some config1) ?sp" by (rule reach_step)
  have caps: "neighbor_capabilities_from (capabilities_from_params (params (om_opt_params ?open))) =
      Ok (capabilities_default\<lparr>multiprotocol := Some [ipv4_unicast]\<rparr>)" by (rule peer_capabilities)
  have open_msg: "body ?m1 = MB_Open ?open" and keepalive: "body ?m2 = MB_Keepalive" by simp_all
  have nb: "0 < length (neighbors ?sp)" "nb_state (neighbors ?sp ! 0) = Active"
    "length (announced_families (capabilities_advertised (neighbors ?sp ! 0))) \<le> 42"
    "remote_asn (neighbors ?sp ! 0) = Some (om_asn ?open)" "remote_rid (neighbors ?sp ! 0) \<noteq> Some (om_router_id ?open)"
    "\<forall>j < length (neighbors ?sp). j \<noteq> 0 \<longrightarrow> \<not> is_opening (om_router_id ?open) (neighbors ?sp ! j)"
    "multiprotocol (capabilities_advertised (neighbors ?sp ! 0)) = Some [ipv4_unicast]"
    "\<forall>fam \<in> set [ipv4_unicast] \<inter> set [ipv4_unicast]. sp_rib ?sp fam \<noteq> None" "set [ipv4_unicast] \<inter> set [ipv4_unicast] \<noteq> {}"
    by (simp_all add: open_norm_fields, simp add: started1_def)
  have c: "conn_open \<lparr>conn_out = [], conn_open = True\<rparr>" "\<not> conn_open \<lparr>conn_out = [], conn_open = False\<rparr>"
    "multiprotocol (capabilities_default\<lparr>multiprotocol := Some [ipv4_unicast]\<rparr>) = Some [ipv4_unicast]" by simp_all
  from dead_channel [where own = 5 and other = 6 and order = "\<lambda>gs. gs" and ro = "\<lambda>_. []" and now = 0,
      OF reach nb(1-3) c(1,2) open_msg keepalive nb(4-6) caps nb(7) c(3) nb(9,8), THEN conjunct1]
  obtain g k sp0 sp1 sp2 sp3 c' where
    "session_start_task ref_ipnet (\<lambda>gs. gs) 5 0 \<lparr>conn_out = [], conn_open = True\<rparr> = Section g k"
    "run_task (session_start_task ref_ipnet (\<lambda>gs. gs) 6 0 \<lparr>conn_out = [], conn_open = False\<rparr>) (g ?sp) =
        (sp0, Err ''Failed to send OPEN message in ACTIVE state'')"
    "run_task (k ?sp) sp0 = (sp1, Ok c')"
    "\<forall>alive. run_task (message_task (\<lambda>_. alive) (\<lambda>_. []) ?m1 0 0) sp1 = (sp2, [Start_Keepalive_Timer 6], Ok ())"
    "\<forall>alive. \<exists>acts. run_task (message_task (\<lambda>_. alive) (\<lambda>_. []) ?m2 0 0) sp2 = (sp3, if alive 6 then (acts, Ok ())
        else ([], Panic (ExpectFailed ''BUG: Failed to send RIB update to established neighbor'')))" by blast
  moreover from this(5) have "run_task (message_task (\<lambda>_ ch. ch = 5) (\<lambda>_. []) ?m2 0 0) sp2 =
      (sp3, [], Panic (ExpectFailed ''BUG: Failed to send RIB update to established neighbor''))"
    by (auto dest: spec [of _ "\<lambda>ch. ch = 5"])
  ultimately show ?thesis by blast
qed

section \<open>Interleaved\<close>

text \<open>A message and the end of another session of its neighbor, which comes when the state has been read.\<close>

lemma torn_by_end:
  fixes m :: "'n message"
  assumes i: "i < length (neighbors sp)" and state: "nb_state (neighbors sp ! i) = OpenConfirm"
    and rest: "run_task (openconfirm_task alive rib_order (body m) i) (upd_neighbor i (session_end (neighbors sp ! i)) sp) = (sp', r)"
  shows "interleaved (handler_task L) sp sp' [Done r, Done ([], Ok ())]"
proof -
  let ?m = "message_task alive rib_order m now i" and ?e = "silent (session_end_task i)"
  let ?rest = "openconfirm_task alive rib_order (body m) i" and ?sp1 = "upd_neighbor i (session_end (neighbors sp ! i)) sp"
  have "interleaved (handler_task L) sp sp ([] @ [?m])"
    by (intro pool_start pool_init task_message i)
  then have "interleaved (handler_task L) sp sp (([] @ [?m]) @ [?e])"
    by (rule pool_start) (rule task_end [OF i])
  then have both: "interleaved (handler_task L) sp sp [?m, ?e]" by simp
  have look: "[?m, ?e] ! 0 = bind_task (reading (\<lambda>sp. nb_state (neighbors sp ! i))) (\<lambda>st. case st of
         Active \<Rightarrow> active_task alive (body m) i
       | OpenConfirm \<Rightarrow> openconfirm_task alive rib_order (body m) i
       | OpenSent \<Rightarrow> opensent_task alive (body m) i
       | Established \<Rightarrow> established_task (body m) now i
       | _ \<Rightarrow> Done ([], Ok ()))"
    by (simp add: message_task_def read_neighbor_def)
  have "interleaved (handler_task L) sp sp [?rest, ?e]"
    using pool_reading [OF both _ look] state by simp
  from pool_run_task [OF this, of 1 ?sp1 "([], Ok ())"]
  have "interleaved (handler_task L) sp ?sp1 [?rest, Done ([], Ok ())]"
    by (simp add: silent_def session_end_task_def run_simps)
  from pool_run_task [OF this, of 0 sp' r] rest show ?thesis by simp
qed

text \<open>C39: what holds however the critical sections of any number of handlers, on any neighbors and with any
  messages, events and failures, are interleaved, from any state a speaker reaches.  A neighbor keeps its
  configuration, its address and AS number among it, and a router id once it knows one; in OPENCONFIRM and
  ESTABLISHED it knows its peer's; every RIB is ranked, without empty entries and without routes through
  the local AS.  And of the assumptions the code marks with BUG, the handlers of messages can only fail four: a peer
  without multiprotocol capability, a family without RIB, a channel another session has taken away, and one
  whose receiver is gone.\<close>

theorem interleaving_invariant:
  assumes "reachable L b N cfg sp0" and "interleaved (handler_task L) sp0 sp ts"
  shows "length (neighbors sp) = length (neighbors sp0)
    \<and> (\<forall>i < length (neighbors sp0). same_config (neighbors sp0 ! i) (neighbors sp ! i)
        \<and> (remote_rid (neighbors sp0 ! i) \<noteq> None \<longrightarrow> remote_rid (neighbors sp ! i) \<noteq> None))
    \<and> (\<forall>nb \<in> set (neighbors sp). remote_ip nb \<noteq> None \<and> remote_asn nb \<noteq> None
        \<and> multiprotocol (capabilities_advertised nb) \<noteq> None
        \<and> (nb_state nb \<in> {OpenConfirm, Established} \<longrightarrow> remote_rid nb \<noteq> None))
    \<and> (\<forall>fam rib. sp_rib sp fam = Some rib \<longrightarrow> rib_ok (local_asn sp) rib)
    \<and> (\<forall>acts msg. Done (acts, Panic (ExpectFailed msg)) \<in> set ts \<longrightarrow> msg \<in>
        {''BUG: Received capabilities should be set after processing OPEN message'',
         ''BUG: RIB should exist for negotiated address family'',
         ''BUG: Neighbor TX channel should be initialized before establishment'',
         ''BUG: Failed to send RIB update to established neighbor''})"
proof -
  note all = interleaved_handlers [OF assms(2) reachable_sys_ok [OF assms(1)]]
  have "msg \<in> {''BUG: Received capabilities should be set after processing OPEN message'',
         ''BUG: RIB should exist for negotiated address family'',
         ''BUG: Neighbor TX channel should be initialized before establishment'',
         ''BUG: Failed to send RIB update to established neighbor''}"
    if "Done (acts, Panic (ExpectFailed msg)) \<in> set ts" for acts msg
    using all(3) [OF that] unfolding expected_panic .
  moreover have "\<forall>nb \<in> set (neighbors sp). neighbor_ok nb" "\<forall>fam rib. sp_rib sp fam = Some rib \<longrightarrow> rib_ok (local_asn sp) rib"
    using all(1) by (simp_all add: sys_ok_def)
  moreover have "length (neighbors sp) = length (neighbors sp0)" by (rule moved_length [OF all(2)])
  moreover have "keeps (neighbors sp0 ! i) (neighbors sp ! i)" if "i < length (neighbors sp0)" for i
    by (rule moved_keeps [OF all(2) that])
  ultimately show ?thesis unfolding neighbor_ok_def keeps_def by blast
qed

theorem interleaving_invariant_witness:
  "\<exists>(sp0 :: (ref_net, unit, unit) speaker) sp r. interleaved (handler_task ref_ipnet) sp0 sp [Done r, Done ([], Ok ())]
    \<and> nb_state (neighbors sp0 ! 0) = OpenConfirm \<and> length (neighbors sp) = 1 \<and> remote_rid (neighbors sp ! 0) \<noteq> None"
proof -
  let ?sp0 = "upd_neighbor 0 opening1 started1" and ?m = "\<lparr>message_type = MT_Keepalive, body = MB_Keepalive\<rparr> :: ref_net message"
  obtain sp r where "run_task (openconfirm_task (\<lambda>_ _. True) (\<lambda>_. []) (body ?m) 0)
      (upd_neighbor 0 (session_end (neighbors ?sp0 ! 0)) ?sp0) = (sp, r)" by (rule prod.exhaust)
  then have i: "interleaved (handler_task ref_ipnet) ?sp0 sp [Done r, Done ([], Ok ())]"
    by (intro torn_by_end [where i = 0 and m = ?m]) simp_all
  from interleaving_invariant [OF reachable1(2) i] have "length (neighbors sp) = 1" "remote_rid (neighbors sp ! 0) \<noteq> None"
    by auto
  with i show ?thesis by (intro exI [of _ ?sp0] exI [of _ sp] exI [of _ r]) simp
qed

section \<open>Torn handlers\<close>

text \<open>C40: what the handlers do not do alone.  A KEEPALIVE that establishes a session with a family in common that has
  a RIB, with the end of another session of the same neighbor (two connections are open when both sides connect at
  once) between the look at the state and its change, leaves the neighbor in ESTABLISHED without a channel: the session's task
  panics, and from then on every connection of the peer is refused.  Run whole, in either order, the two
  handlers leave the neighbor idle.\<close>

theorem torn_establishment:
  assumes "reachable L b N cfg sp" and "i < length (neighbors sp)" and "nb_state (neighbors sp ! i) = OpenConfirm"
    and "multiprotocol (capabilities_advertised (neighbors sp ! i)) = Some adv"
    and "multiprotocol (capabilities_received (neighbors sp ! i)) = Some rec" and "set adv \<inter> set rec \<noteq> {}"
    and "\<forall>fam \<in> set adv. fam \<in> set rec \<longrightarrow> sp_rib sp fam \<noteq> None" and "body m = MB_Keepalive"
  shows "(\<exists>sp'. interleaved (handler_task L) sp sp'
          [Done ([], Panic (ExpectFailed ''BUG: Neighbor TX channel should be initialized before establishment'')), Done ([], Ok ())]
        \<and> nb_state (neighbors sp' ! i) = Established \<and> tx (neighbors sp' ! i) = None
        \<and> (\<forall>free ip local_addr. match_incoming free ip sp' = Some i \<longrightarrow> add_incoming free ip local_addr sp' = (sp', Ok None)))
    \<and> nb_state (neighbors (fst (run_task (session_end_task i) (fst (run_task (message_task (\<lambda>_. alive) rib_order m now i) sp)))) ! i) = Idle
    \<and> nb_state (neighbors (fst (run_task (message_task (\<lambda>_. alive) rib_order m now i) (fst (run_task (session_end_task i) sp)))) ! i) = Idle"
proof -
  let ?ended = "session_end (neighbors sp ! i)" and ?panic = "Panic (ExpectFailed
    ''BUG: Neighbor TX channel should be initialized before establishment'') :: (string, unit) outcome"
  define nb where "nb = set_state Established (handle_keepalive ?ended)"
  have nb: "nb_state nb = Established" "tx nb = None" "capabilities_advertised nb = capabilities_advertised (neighbors sp ! i)"
    "capabilities_received nb = capabilities_received (neighbors sp ! i)"
    by (simp_all add: nb_def set_state_def handle_keepalive_def session_end_def)
  let ?sp' = "upd_neighbor i nb sp"
  have "sys_ok ?sp'"
    using sys_ok_upd [OF reachable_sys_ok [OF assms(1)], of nb i] sys_ok_neighbor [OF reachable_sys_ok [OF assms(1)] assms(2)]
      assms(3) by (simp add: neighbor_ok_def nb_def set_state_def handle_keepalive_def session_end_def)
  moreover have "\<forall>fam \<in> set adv \<inter> set rec. sp_rib ?sp' fam \<noteq> None"
    using assms(7) by auto
  ultimately have send: "send_locrib_families alive ?sp' rib_order None rec adv = ([], ?panic)" for alive
    using send_locrib_fails [of adv rec ?sp'] assms(6) by (simp add: unsendable_def)
  have sent: "send_locrib alive ?sp' rib_order nb = ([], ?panic)" for alive
    using assms(4,5) by (simp add: send_locrib_def nb send)
  have rest: "run_task (openconfirm_task (\<lambda>_. alive) rib_order (body m) i) (upd_neighbor i ?ended sp) = (?sp', [], ?panic)"
    using assms(2) sent
    by (simp add: openconfirm_task_def assms(8) run_simps run_send_locrib Let_def flip: nb_def)
  have "add_incoming free ip local_addr ?sp' = (?sp', Ok None)" if "match_incoming free ip ?sp' = Some i" for free ip local_addr
    using that assms(2) nb(1) by (simp add: add_incoming_def should_accept_def Let_def)
  moreover have len: "i < length (neighbors (fst (run_task (message_task (\<lambda>_. alive) rib_order m now i) sp)))"
    using assms(2) by (cases "process_message alive rib_order m sp now (neighbors sp ! i)") (simp add: run_whole_message)
  have "nb_state (neighbors (fst (run_task (session_end_task i) (fst (run_task (message_task (\<lambda>_. alive) rib_order m now i) sp)))) ! i) = Idle"
    using len by (simp add: session_end_task_def run_simps session_end_def set_state_def)
  moreover have "nb_state (neighbors (fst (run_task (message_task (\<lambda>_. alive) rib_order m now i) (fst (run_task (session_end_task i) sp)))) ! i) = Idle"
    using assms(2)
    by (simp add: session_end_task_def message_task_def run_simps session_end_def set_state_def)
  ultimately show ?thesis
    using torn_by_end [OF assms(2,3) rest] nb assms(2) by (intro conjI exI [of _ ?sp']) simp_all
qed

theorem torn_establishment_witness:
  "\<exists>nb sp'. nb_state nb = OpenConfirm \<and> interleaved (handler_task ref_ipnet) (upd_neighbor 0 nb started1) sp'
      [Done ([], Panic (ExpectFailed ''BUG: Neighbor TX channel should be initialized before establishment'')), Done ([], Ok ())]
    \<and> nb_state (neighbors sp' ! 0) = Established \<and> tx (neighbors sp' ! 0) = None"
proof -
  let ?sp = "upd_neighbor 0 opening1 started1" and ?m = "\<lparr>message_type = MT_Keepalive, body = MB_Keepalive\<rparr> :: ref_net message"
  have rib: "sp_rib ?sp ipv4_unicast \<noteq> None" by (simp add: started1_def)
  note torn = torn_establishment [OF reachable1(2), where i = 0 and adv = "[ipv4_unicast]" and rec = "[ipv4_unicast]" and m = ?m
      and rib_order = "\<lambda>_. []" and now = 0 and alive = "\<lambda>_. True"]
  obtain sp' where "interleaved (handler_task ref_ipnet) ?sp sp'
      [Done ([], Panic (ExpectFailed ''BUG: Neighbor TX channel should be initialized before establishment'')), Done ([], Ok ())]"
    "nb_state (neighbors sp' ! 0) = Established" "tx (neighbors sp' ! 0) = None"
    using torn rib by auto
  then show ?thesis by (intro exI [of _ opening1]) auto
qed

end
