(* ===== verification/Spec2Isabelle.thy ===== *)
theory Spec2Isabelle
  imports Wire_Properties Routing_Properties Session_Properties Environment_Properties Operation_Properties
    Concurrency_Properties
begin

text \<open>
  A model of \<open>ubgpd\<close>, a BGP-4 daemon written in Rust, and what it does.  Paths are those of the
  repository.

  \<^bold>\<open>The program.\<close>  \<open>main\<close> (\<open>src/ubgpd.rs\<close>) reads a TOML file (\<open>src/config.rs\<close>), makes a speaker with
  its neighbors and address families (\<open>src/speaker/types.rs\<close>), and starts tasks: per address family a RIB manager
  and a FIB manager (\<open>src/speaker/manager.rs\<close>), a listener and one connection attempt per neighbor
  (\<open>src/speaker/connection.rs\<close>), and a gRPC server (\<open>src/grpc.rs\<close>).  A connection becomes a session task
  (\<open>src/neighbor/fsm.rs\<close>), which waits for events of its queue and messages of its stream (\<open>src/bgp/*.rs\<close>) and
  handles them by the state of its neighbor (\<open>src/neighbor/message_handler.rs\<close>).  An UPDATE goes to the RIB
  manager of its family; a change of a best route goes from there to the FIB manager, which asks the kernel
  for routes (\<open>src/fib.rs\<close>), and to every established session, which sends it to its peer
  (\<open>src/neighbor/connection.rs\<close>).

  \<^bold>\<open>Theories.\<close>  Every definition is translated from the code it is named after; data are records
  and datatypes with the source's fields and constructors, integers are words of their width, a result is
  \<open>Ok\<close>, \<open>Err\<close> or \<open>Panic\<close>.

  \<^item> \<open>Prelude\<close>: results and panics, byte vectors and their bounds checks, big-endian numbers, decimal text, and
    \<open>item_loop\<close>, the contract of the parsers' loops.  \<open>Ipnet\<close>: addresses, and the crate \<open>ipnet\<close> as the
    interface \<open>ipnet_laws\<close>.  \<open>Ip_Text\<close>: addresses as text, as the standard library prints and parses them.
  \<^item> \<open>Bgp_Types\<close>, \<open>Nlri\<close>, \<open>Attributes\<close>, \<open>Capabilities\<close>, \<open>Codec\<close>, \<open>Messages\<close>: \<open>src/error.rs\<close> and the files of
    \<open>src/bgp/\<close> with these names, and \<open>src/neighbor/capabilities.rs\<close>: constants and their codes, printing and
    parsing in both directions, every error and every panic.  The lemmas give, for every value the printer accepts, the bytes
    and what the parser makes of them.
  \<^item> \<open>Ordering\<close>, \<open>Rib\<close>: \<open>std::cmp\<close> and \<open>Vec::sort\<close>, the attributes of a route and their ranking
    (\<open>src/rib.rs\<close>).  \<open>keyed_cmp\<close> is the contract of a comparison function; \<open>ra_cmp\<close> meets it.
  \<^item> \<open>Fib\<close>, \<open>Loc_Rib\<close>, \<open>Rib_Spec\<close>: \<open>src/fib.rs\<close>, the RIB managers' additions and withdrawals
    (\<open>src/speaker/manager.rs\<close>, \<open>events.rs\<close>), the invariant of the RIB, and the specification by multisets
    which it refines (locale \<open>refinement\<close>).
  \<^item> \<open>Session\<close>, \<open>Fsm\<close>, \<open>Message_Handler\<close>: the neighbor and its Adj-RIB-In, sending and receiving, the timers, and the
    handlers of events and messages by state.  A handler is a function of the neighbor (and of what it
    reads of the speaker) to the neighbor it leaves, what it sent, and how it ended.
  \<^item> \<open>Fib_Manager\<close>: \<open>fib_mgr\<close>, its rounds and its loop; the lemmas bound how often it asks the kernel for something.
  \<^item> \<open>Speaker\<close>: the configuration with its defaults, \<open>main\<close>, \<open>start\<close>, the listener and the
    connections, \<open>process_rib_event\<close>.  \<open>System\<close>: the steps of the whole speaker, one handler at a time in any order
    (\<open>sys_step\<close>), the states they reach from a configuration (\<open>reachable\<close>), and the invariant of these.
    \<open>Session_Task\<close>: \<open>fsm_tcp\<close> and its loop as a function of what the task meets, every round of which is a
    step of the system.  \<open>Protocol\<close>: messages from the handlers of one speaker to those of another.
  \<^item> \<open>Grpc\<close>: the queries (\<open>src/grpc.rs\<close>) and the client (\<open>src/ubgpc.rs\<close>).  \<open>Locking\<close>: tasks
    that lock, unlock, send to and receive from bounded queues; what a deadlock is, and the order of locks that excludes one.  \<open>Task_Acts\<close>: what every handler locks and sends.
  \<^item> \<open>Sections\<close>: tasks as trees of critical sections, what they ensure when others run between these, and
    their interleavings (locale \<open>guarantee\<close>).  \<open>Handler_Sections\<close>, \<open>Event_Sections\<close>: every handler of the
    sessions, the connections and the managers section by section, with the lemmas that run whole they are the
    handlers of the theories above.  \<open>Interleaving\<close>: what every section keeps, in whatever state it comes,
    and so every interleaving.
  \<^item> \<open>Wire_Properties\<close> (C1 to C11), \<open>Routing_Properties\<close> (C12 to C18), \<open>Session_Properties\<close> (C19 to C29),
    \<open>Environment_Properties\<close> (C30 and C31), \<open>Operation_Properties\<close> (C32 to C37) and \<open>Concurrency_Properties\<close>
    (C38 to C40) hold the properties, each that has a hypothesis with an instance at a concrete input.

  \<^bold>\<open>Parameters.\<close>  What is not in the repository is an argument of the definitions: the crate \<open>ipnet\<close> (\<open>L\<close>; its
  documented behaviour is \<open>ipnet_laws\<close>, and \<open>ref_ipnet\<close> is an implementation for which the laws are
  proved), netlink and the kernel's table (\<open>N\<close>), the file system and the TOML parser, the text of a prefix (\<open>show_net\<close>), the
  random jitter (\<open>rand\<close>), the clock (\<open>now\<close>), and the orders in which hash maps are walked (\<open>order\<close>; properties
  that need it say that it lists the keys).  \<open>build\<close> is the compiler's profile: whether an arithmetic overflow
  panics or wraps.

  \<^bold>\<open>Abstractions.\<close>  A channel is a number and what is sent to it a list; \<open>alive\<close> says which channels have a
  receiver when a handler sends, and is arbitrary in the steps of \<open>System\<close> and in \<open>Interleaving\<close>; a send
  whose result the code drops counts as made.  The limit of a queue is part of \<open>Locking\<close> only.
  What a connection was sent is the bytes of the sends that succeeded: of one that fails the peer may
  have got a part, which is not kept.  A handler is
  one step of \<open>System\<close>.  In the program other tasks run between two of its locks: \<open>Interleaving\<close> has these
  interleavings, and more, as it lets go of a mutex the code keeps over several sections; the invariant of
  \<open>System\<close> holds in all of them, its transitions of a session do not.  What tasks wait for is in the acts of
  \<open>Task_Acts\<close>.  Errors of \<open>anyhow\<close> are their outermost message; some
  panic messages leave out the values.  \<open>usize\<close> is \<open>nat\<close>, bounded by the size of a buffer.  No definition uses
  fuel: the loops over bytes are functions with a measure, the bytes left.  A run of the session
  task is a function of a list of turns; C34 shows which lists end it.

  \<^bold>\<open>Not modelled.\<close>  The code that \<open>tonic\<close> generates from \<open>proto/\<close>, the transport of the queries and their
  printing; the parsers of TOML and of the command lines, which are crates; the spawning of tasks, which is a call
  of \<open>tokio\<close>; \<open>get_link_name\<close>, a netlink query (part of \<open>N\<close>), and \<open>_del_route\<close>, which nothing calls;
  logging and the texts made for it; the tests.
\<close>

end
